(* ===== verification/Prelude.thy ===== *)
theory Prelude
  imports Main
begin

section \<open>Shared vocabulary: effectful actions, JavaScript strings, arithmetic\<close>

text \<open>
  What the components share.
  \<^item> \<open>('w, 'e, 'a) act\<close>: the shape of every \<open>async\<close> method. An action takes the
    state of the world and returns either a thrown error (\<open>Inl\<close>) or a result (\<open>Inr\<close>),
    with the world afterwards. \<open>andthen\<close> is \<open>await\<close> followed by the rest of the
    method, \<open>raise\<close> is \<open>throw\<close>, \<open>attempt\<close> is \<open>try\<close>/\<open>catch\<close>.
  \<^item> JavaScript strings are lists of UTF-16 code units; the model keeps the code units
    up to 255 (Latin-1), one \<open>char\<close> each, so \<open>length\<close> is JavaScript's \<open>length\<close>.
    \<open>utf8_length\<close> is the number of bytes of the UTF-8 form of such a string.
  \<^item> \<open>ceil_div\<close> is \<open>Math.ceil(a / b)\<close> on integers.
\<close>

named_theorems act_simps \<open>equations that run an action\<close>
named_theorems act_elims \<open>inversion of a successful or failed action\<close>

subsection \<open>Actions\<close>

type_synonym ('w, 'e, 'a) act = "'w \<Rightarrow> ('e + 'a) \<times> 'w"

definition ret :: "'a \<Rightarrow> ('w, 'e, 'a) act" where
  "ret a = (\<lambda>w. (Inr a, w))"

definition raise :: "'e \<Rightarrow> ('w, 'e, 'a) act" where
  "raise e = (\<lambda>w. (Inl e, w))"

definition andthen :: "('w, 'e, 'a) act \<Rightarrow> ('a \<Rightarrow> ('w, 'e, 'b) act) \<Rightarrow> ('w, 'e, 'b) act" where
  "andthen m f = (\<lambda>w. case m w of (Inl e, w') \<Rightarrow> (Inl e, w') | (Inr a, w') \<Rightarrow> f a w')"

definition attempt :: "('w, 'e, 'a) act \<Rightarrow> ('e \<Rightarrow> ('w, 'e, 'a) act) \<Rightarrow> ('w, 'e, 'a) act" where
  "attempt m h = (\<lambda>w. case m w of (Inl e, w') \<Rightarrow> h e w' | (Inr a, w') \<Rightarrow> (Inr a, w'))"

text \<open>A pure computation that may throw, run inside a method.\<close>

definition lift_sum :: "'e + 'a \<Rightarrow> ('w, 'e, 'a) act" where
  "lift_sum r = (\<lambda>w. (r, w))"

lemma ret_apply [simp, act_simps]: "ret a w = (Inr a, w)"
  by (simp add: ret_def)

lemma raise_apply [simp, act_simps]: "raise e w = (Inl e, w)"
  by (simp add: raise_def)

lemma lift_sum_apply [simp, act_simps]: "lift_sum r w = (r, w)"
  by (simp add: lift_sum_def)

lemma andthen_Inr [act_simps]: "m w = (Inr a, w') \<Longrightarrow> andthen m f w = f a w'"
  by (simp add: andthen_def)

lemma andthen_Inl [act_simps]: "m w = (Inl e, w') \<Longrightarrow> andthen m f w = (Inl e, w')"
  by (simp add: andthen_def)

lemma andthen_ret [simp, act_simps]: "andthen (ret a) f = f a"
  by (simp add: andthen_def fun_eq_iff)

lemma andthen_raise [simp, act_simps]: "andthen (raise e) f = raise e"
  by (simp add: andthen_def fun_eq_iff)

lemma andthen_lift_sum [simp]:
  "andthen (lift_sum r) f = (case r of Inl e \<Rightarrow> raise e | Inr a \<Rightarrow> f a)"
  by (cases r) (simp_all add: andthen_def fun_eq_iff)

lemma andthen_assoc:
  "andthen (andthen m f) g = andthen m (\<lambda>a. andthen (f a) g)"
  by (auto simp: andthen_def fun_eq_iff split: prod.split sum.split)

lemma andthen_eq_Inr_iff:
  "andthen m f w = (Inr b, w2) \<longleftrightarrow> (\<exists>a w1. m w = (Inr a, w1) \<and> f a w1 = (Inr b, w2))"
  by (auto simp: andthen_def split: prod.splits sum.splits)

lemma andthen_eq_Inl_iff:
  "andthen m f w = (Inl e, w2) \<longleftrightarrow>
     m w = (Inl e, w2) \<or> (\<exists>a w1. m w = (Inr a, w1) \<and> f a w1 = (Inl e, w2))"
  by (auto simp: andthen_def split: prod.splits sum.splits)

lemma andthen_InrE [act_elims]:
  assumes "andthen m f w = (Inr b, w2)"
  obtains a w1 where "m w = (Inr a, w1)" and "f a w1 = (Inr b, w2)"
  using assms by (auto simp: andthen_eq_Inr_iff)

lemma attempt_Inr [act_simps]: "m w = (Inr a, w') \<Longrightarrow> attempt m h w = (Inr a, w')"
  by (simp add: attempt_def)

lemma attempt_Inl [act_simps]: "m w = (Inl e, w') \<Longrightarrow> attempt m h w = h e w'"
  by (simp add: attempt_def)

lemma andthen_InlE [act_elims]:
  assumes "andthen m f w = (Inl e, w2)"
  obtains "m w = (Inl e, w2)" | a w1 where "m w = (Inr a, w1)" and "f a w1 = (Inl e, w2)"
  using assms by (auto simp: andthen_eq_Inl_iff)

text \<open>\<open>errs Q m\<close>: whatever \<open>m\<close> throws satisfies \<open>Q\<close>.\<close>

definition errs :: "('e \<Rightarrow> bool) \<Rightarrow> ('w, 'e, 'a) act \<Rightarrow> bool" where
  "errs Q m \<longleftrightarrow> (\<forall>w e w'. m w = (Inl e, w') \<longrightarrow> Q e)"

named_theorems errs_intros \<open>composition of errs\<close>

lemma errsI: "(\<And>w e w'. m w = (Inl e, w') \<Longrightarrow> Q e) \<Longrightarrow> errs Q m"
  by (auto simp: errs_def)

lemma errsD: "errs Q m \<Longrightarrow> m w = (Inl e, w') \<Longrightarrow> Q e"
  by (auto simp: errs_def)

lemma errs_andthen [errs_intros]: "errs Q m \<Longrightarrow> (\<And>a. errs Q (f a)) \<Longrightarrow> errs Q (andthen m f)"
  unfolding errs_def by (metis andthen_InlE)

lemma errs_ret [errs_intros]: "errs Q (ret a)"
  by (simp add: errs_def)

lemma errs_raise [errs_intros]: "Q e \<Longrightarrow> errs Q (raise e)"
  by (simp add: errs_def)

lemma errs_attempt [errs_intros]: "(\<And>e. errs Q (h e)) \<Longrightarrow> errs Q (attempt m h)"
  by (auto simp: errs_def attempt_def split: prod.splits sum.splits)

lemma errs_option [errs_intros]:
  "(x = None \<Longrightarrow> errs Q m) \<Longrightarrow> (\<And>a. x = Some a \<Longrightarrow> errs Q (f a)) \<Longrightarrow>
     errs Q (case x of None \<Rightarrow> m | Some a \<Rightarrow> f a)"
  by (cases x) simp_all

lemma errs_if [errs_intros]: "(b \<Longrightarrow> errs Q m) \<Longrightarrow> (\<not> b \<Longrightarrow> errs Q n) \<Longrightarrow> errs Q (if b then m else n)"
  by simp

lemma andthen_Inl_later:
  assumes "andthen m f w = (Inl e, w2)" and "errs Q m" and "\<not> Q e"
  obtains a w1 where "m w = (Inr a, w1)" and "f a w1 = (Inl e, w2)"
  using assms by (metis andthen_InlE errsD)

text \<open>A handler that never throws makes the whole \<open>try\<close> statement never throw.\<close>

lemma attempt_never_fails:
  assumes "\<And>e w. \<exists>a w'. h e w = (Inr a, w')"
  shows "\<exists>a w'. attempt m h w = (Inr a, w')"
proof (cases "m w")
  case (Pair r w1)
  then show ?thesis
    using assms by (cases r) (auto simp: attempt_def)
qed

subsection \<open>JavaScript strings\<close>

text \<open>The white space that \<open>String.prototype.trim\<close> removes, up to code unit 255.\<close>

definition js_space :: "char \<Rightarrow> bool" where
  "js_space c \<longleftrightarrow> c \<in> {CHR 0x09, CHR 0x0A, CHR 0x0B, CHR 0x0C, CHR 0x0D, CHR '' '', CHR 0xA0}"

definition js_trim :: "string \<Rightarrow> string" where
  "js_trim s = rev (dropWhile js_space (rev (dropWhile js_space s)))"

definition js_lower_char :: "char \<Rightarrow> char" where
  "js_lower_char c =
     (let n = of_char c :: nat in
      if (65 \<le> n \<and> n \<le> 90) \<or> (192 \<le> n \<and> n \<le> 222 \<and> n \<noteq> 215) then char_of (n + 32) else c)"

definition js_toLowerCase :: "string \<Rightarrow> string" where
  "js_toLowerCase s = map js_lower_char s"

text \<open>\<open>indexOf\<close> of a single character: the first position, or \<open>-1\<close>.\<close>

fun js_indexOf :: "char \<Rightarrow> string \<Rightarrow> int" where
  "js_indexOf c [] = -1"
| "js_indexOf c (x # xs) =
     (if x = c then 0 else let i = js_indexOf c xs in if i < 0 then -1 else i + 1)"

text \<open>\<open>s.slice(a, b)\<close> and \<open>s.slice(a)\<close> for \<open>0 \<le> a \<le> b\<close>.\<close>

definition js_slice :: "string \<Rightarrow> int \<Rightarrow> int \<Rightarrow> string" where
  "js_slice s a b = drop (nat a) (take (nat b) s)"

definition js_slice_from :: "string \<Rightarrow> int \<Rightarrow> string" where
  "js_slice_from s a = drop (nat a) s"

text \<open>\<open>s.split(sep)\<close> for a one-character separator.\<close>

fun js_split :: "char \<Rightarrow> string \<Rightarrow> string list" where
  "js_split c [] = [[]]"
| "js_split c (x # xs) =
     (if x = c then [] # js_split c xs
      else case js_split c xs of [] \<Rightarrow> [[x]] | p # ps \<Rightarrow> (x # p) # ps)"

text \<open>\<open>!x\<close> for a value of type \<open>string | undefined\<close>.\<close>

fun js_falsy :: "string option \<Rightarrow> bool" where
  "js_falsy None = True"
| "js_falsy (Some s) = (s = [])"

definition utf8_length :: "string \<Rightarrow> nat" where
  "utf8_length s = sum_list (map (\<lambda>c. if (of_char c :: nat) < 128 then 1 else 2) s)"

lemma js_indexOf_absent: "js_indexOf c s < 0 \<longleftrightarrow> c \<notin> set s"
  by (induction s) (auto simp: Let_def)

lemma js_indexOf_minus1: "c \<notin> set s \<Longrightarrow> js_indexOf c s = -1"
  by (induction s) (auto simp: Let_def)

lemma js_indexOf_append:
  "c \<notin> set s \<Longrightarrow> js_indexOf c (s @ c # t) = int (length s)"
  by (induction s) (auto simp: Let_def)

lemma js_indexOf_bound: "js_indexOf c s < int (length s) \<or> s = []"
  by (induction s) (auto simp: Let_def)

text \<open>The string around the first occurrence of a character.\<close>

lemma js_indexOf_decomp:
  assumes "0 \<le> js_indexOf c s"
  shows "\<exists>a b. s = a @ c # b \<and> c \<notin> set a \<and> js_indexOf c s = int (length a)"
proof -
  from assms have "c \<in> set s"
    using js_indexOf_absent [of c s] by linarith
  then obtain a b where "s = a @ c # b" "c \<notin> set a"
    by (meson split_list_first)
  then show ?thesis
    by (auto simp: js_indexOf_append)
qed

lemma js_lower_char_idem [simp]: "js_lower_char (js_lower_char c) = js_lower_char c"
proof -
  have "(of_char c :: nat) mod 256 = of_char c"
    by (rule of_char_mod_256)
  then have "(of_char c :: nat) < 256"
    by (metis mod_less_divisor zero_less_numeral)
  then show ?thesis
    by (auto simp: js_lower_char_def Let_def)
qed

lemma js_toLowerCase_idem [simp]: "js_toLowerCase (js_toLowerCase s) = js_toLowerCase s"
  by (simp add: js_toLowerCase_def comp_def)

lemma length_js_toLowerCase [simp]: "length (js_toLowerCase s) = length s"
  by (simp add: js_toLowerCase_def)

lemma utf8_length_append [simp]: "utf8_length (s @ t) = utf8_length s + utf8_length t"
  by (simp add: utf8_length_def)

lemma utf8_length_ge: "length s \<le> utf8_length s"
  by (induction s) (auto simp: utf8_length_def)

subsection \<open>Arithmetic of the time computations\<close>

definition ceil_div :: "int \<Rightarrow> int \<Rightarrow> int" where
  "ceil_div a b = - ((- a) div b)"

lemma ceil_div_bounds:
  assumes "0 < b"
  shows "a \<le> ceil_div a b * b" and "ceil_div a b * b < a + b"
proof -
  have eq: "(- a) div b * b + (- a) mod b = - a"
    by (rule div_mult_mod_eq)
  have "- ((- a) div b) * b = - ((- a) div b * b)"
    by (rule mult_minus_left)
  with eq have "- ((- a) div b) * b = a + (- a) mod b"
    by linarith
  moreover have "0 \<le> (- a) mod b" "(- a) mod b < b"
    using assms by simp_all
  ultimately show "a \<le> ceil_div a b * b" and "ceil_div a b * b < a + b"
    by (simp_all add: ceil_div_def)
qed

lemma ceil_div_pos: "0 < a \<Longrightarrow> 0 < b \<Longrightarrow> 0 < ceil_div a b"
  using ceil_div_bounds(1) [of b a] by (smt (verit) mult_nonpos_nonneg)

end
