(* ===== verification/Json.thy ===== *)
theory Json
  imports Prelude
begin

section \<open>JSON values and the texts stored in Redis\<close>

text \<open>
  Request bodies, responses and everything the program stores under a Redis string key are
  JSON. A value is a tree of type \<open>json\<close>; numbers are integers (every number the program
  writes is a millisecond time stamp or a counter). A stored string is an \<open>rtext\<close>: either
  the JSON text of a value, represented by that value (so \<open>JSON.stringify\<close> is the
  constructor and \<open>JSON.parse\<close> its inverse), or a string that is no JSON text at all,
  on which \<open>JSON.parse\<close> throws. Integer texts such as the counter of \<open>INCR\<close> or the
  marker \<open>'1'\<close> are the JSON texts of these integers.
\<close>

datatype json =
    JNull
  | JBool bool
  | JNum int
  | JStr string
  | JArr "json list"
  | JObj "(string \<times> json) list"

datatype rtext = Json json | Raw string

definition JSON_stringify :: "json \<Rightarrow> rtext" where
  "JSON_stringify j = Json j"

fun JSON_parse :: "rtext \<Rightarrow> string + json" where
  "JSON_parse (Json j) = Inr j"
| "JSON_parse (Raw s) = Inl ''SyntaxError''"

lemma JSON_roundtrip [simp]: "JSON_parse (JSON_stringify j) = Inr j"
  by (simp add: JSON_stringify_def)

text \<open>The empty string is the only falsy stored string.\<close>

fun text_empty :: "rtext \<Rightarrow> bool" where
  "text_empty (Json j) = False"
| "text_empty (Raw s) = (s = [])"

lemma text_empty_stringify [simp]: "\<not> text_empty (JSON_stringify j)"
  by (simp add: JSON_stringify_def)

text \<open>Property access \<open>ob.k\<close> on an object: the value, or \<open>undefined\<close> (\<open>None\<close>).\<close>

definition js_field :: "(string \<times> json) list \<Rightarrow> string \<Rightarrow> json option" where
  "js_field ob k = map_of ob k"

fun as_str :: "json option \<Rightarrow> string option" where
  "as_str (Some (JStr s)) = Some s"
| "as_str _ = None"

fun as_num :: "json option \<Rightarrow> int option" where
  "as_num (Some (JNum n)) = Some n"
| "as_num _ = None"

text \<open>An optional property is left out by \<open>JSON.stringify\<close> when it is \<open>undefined\<close>.\<close>

definition opt_field :: "string \<Rightarrow> ('a \<Rightarrow> json) \<Rightarrow> 'a option \<Rightarrow> (string \<times> json) list" where
  "opt_field k f x = (case x of None \<Rightarrow> [] | Some v \<Rightarrow> [(k, f v)])"

lemma opt_field_simps [simp]:
  "opt_field k f None = []"
  "opt_field k f (Some v) = [(k, f v)]"
  by (simp_all add: opt_field_def)

lemma js_field_Nil [simp]: "js_field [] k = None"
  by (simp add: js_field_def)

lemma js_field_Cons [simp]:
  "js_field ((k', v) # ob) k = (if k' = k then Some v else js_field ob k)"
  by (simp add: js_field_def)

text \<open>Truthiness of a value that may be \<open>undefined\<close>.\<close>

fun js_truthy :: "json option \<Rightarrow> bool" where
  "js_truthy None = False"
| "js_truthy (Some JNull) = False"
| "js_truthy (Some (JBool b)) = b"
| "js_truthy (Some (JNum n)) = (n \<noteq> 0)"
| "js_truthy (Some (JStr s)) = (s \<noteq> [])"
| "js_truthy (Some (JArr xs)) = True"
| "js_truthy (Some (JObj ob)) = True"

text \<open>The two characters of the program's texts outside ASCII, in their UTF-8 encoding.\<close>

definition EM_DASH :: string where
  "EM_DASH = [CHR 0xE2, CHR 0x80, CHR 0x94]"

definition ELLIPSIS :: string where
  "ELLIPSIS = [CHR 0xE2, CHR 0x80, CHR 0xA6]"

text \<open>
  \<open>String(x)\<close>: what a template literal makes of a value (numbers are integers here, written
  in decimal); an array is joined with commas, \<open>null\<close> being empty inside it.
\<close>

fun js_digits :: "nat \<Rightarrow> string" where
  "js_digits n = (if n < 10 then [char_of (48 + n)] else js_digits (n div 10) @ [char_of (48 + n mod 10)])"

declare js_digits.simps [simp del]

fun js_join :: "string list \<Rightarrow> string" where
  "js_join [] = []"
| "js_join [s] = s"
| "js_join (s # ss) = s @ '','' @ js_join ss"

fun js_to_string :: "json \<Rightarrow> string" where
  "js_to_string JNull = ''null''"
| "js_to_string (JBool b) = (if b then ''true'' else ''false'')"
| "js_to_string (JNum n) = (if n < 0 then ''-'' else []) @ js_digits (nat \<bar>n\<bar>)"
| "js_to_string (JStr s) = s"
| "js_to_string (JArr xs) = js_join (map (\<lambda>x. case x of JNull \<Rightarrow> [] | _ \<Rightarrow> js_to_string x) xs)"
| "js_to_string (JObj ob) = ''[object Object]''"

text \<open>\<open>indexOf\<close> of a string in an array.\<close>

fun js_array_indexOf :: "string \<Rightarrow> json list \<Rightarrow> int" where
  "js_array_indexOf s [] = -1"
| "js_array_indexOf s (x # xs) =
     (if x = JStr s then 0
      else let i = js_array_indexOf s xs in if i < 0 then -1 else i + 1)"

end
