(* ===== verification/Errors.thy ===== *)
theory Errors
  imports Json
begin

section \<open>Errors and the central error handler\<close>

text \<open>
  \<open>src/errors/AppError.ts\<close> and \<open>src/middleware/errorHandler.ts\<close>. A value of type
  \<open>exn\<close> is what a promise of the program rejects with: the subclasses of \<open>AppError\<close>,
  each with its message (and \<open>TooManyRequestsError\<close> with its retry delay), and the errors
  that are no \<open>AppError\<close>: those of the Redis client, of the PostgreSQL driver (with the
  SQLSTATE code and the constraint the driver reports) and of the JavaScript run time.
\<close>

datatype exn =
    ValidationError string
  | UnauthorizedError string
  | ForbiddenError string
  | NotFoundError string
  | ConflictError string
  | TooManyRequestsError string int
  | RedisError string
  | PgError string "string option"
  | JsError string

fun is_AppError :: "exn \<Rightarrow> bool" where
  "is_AppError (RedisError _) = False"
| "is_AppError (PgError _ _) = False"
| "is_AppError (JsError _) = False"
| "is_AppError _ = True"

fun statusCode :: "exn \<Rightarrow> int option" where
  "statusCode (ValidationError _) = Some 400"
| "statusCode (UnauthorizedError _) = Some 401"
| "statusCode (ForbiddenError _) = Some 403"
| "statusCode (NotFoundError _) = Some 404"
| "statusCode (ConflictError _) = Some 409"
| "statusCode (TooManyRequestsError _ _) = Some 429"
| "statusCode _ = None"

fun exn_message :: "exn \<Rightarrow> string" where
  "exn_message (ValidationError m) = m"
| "exn_message (UnauthorizedError m) = m"
| "exn_message (ForbiddenError m) = m"
| "exn_message (NotFoundError m) = m"
| "exn_message (ConflictError m) = m"
| "exn_message (TooManyRequestsError m _) = m"
| "exn_message (RedisError m) = m"
| "exn_message (PgError c _) = c"
| "exn_message (JsError m) = m"

subsection \<open>Responses\<close>

record response =
  status :: int
  headers :: "(string \<times> int) list"
  body :: json

definition error_body :: "string \<Rightarrow> json" where
  "error_body m = JObj [(''error'', JStr m)]"

definition json_response :: "int \<Rightarrow> json \<Rightarrow> response" where
  "json_response st b = \<lparr>status = st, headers = [], body = b\<rparr>"

text \<open>
  \<open>errorHandler\<close>: a throttling error sets \<open>Retry-After\<close>; an \<open>AppError\<close> answers
  with its own status and message; anything else is logged and answered with a generic 500,
  so no message of a driver or of the run time reaches the client.
\<close>

definition errorHandler :: "exn \<Rightarrow> response" where
  "errorHandler error =
     (let hs = (case error of TooManyRequestsError _ retry \<Rightarrow> [(''Retry-After'', retry)] | _ \<Rightarrow> []) in
      case statusCode error of
        Some st \<Rightarrow> \<lparr>status = st, headers = hs, body = error_body (exn_message error)\<rparr>
      | None \<Rightarrow> \<lparr>status = 500, headers = hs, body = error_body ''Internal server error.''\<rparr>)"

text \<open>
  \<open>asyncHandler\<close>: a handler's rejection goes to \<open>next\<close>, which Express passes to
  \<open>errorHandler\<close>; so a wrapped handler always ends in a response.
\<close>

definition asyncHandler :: "('w, exn, response) act \<Rightarrow> 'w \<Rightarrow> response \<times> 'w" where
  "asyncHandler h = (\<lambda>w. case h w of (Inl e, w') \<Rightarrow> (errorHandler e, w') | (Inr r, w') \<Rightarrow> (r, w'))"

lemma AppError_status: "is_AppError e \<longleftrightarrow> statusCode e \<noteq> None"
  by (cases e) simp_all

lemma status_range: "statusCode e = Some st \<Longrightarrow> 400 \<le> st \<and> st < 500"
  by (cases e) auto

lemma asyncHandler_Inr: "h w = (Inr r, w') \<Longrightarrow> asyncHandler h w = (r, w')"
  by (simp add: asyncHandler_def)

lemma asyncHandler_Inl: "h w = (Inl e, w') \<Longrightarrow> asyncHandler h w = (errorHandler e, w')"
  by (simp add: asyncHandler_def)

subsection \<open>Properties\<close>



end
