(* ===== verification/Users.thy ===== *)
theory Users
  imports Errors
begin

section \<open>Users: roles, stored records, public profiles\<close>

text \<open>
  \<open>src/types/user.ts\<close>: the row of the \<open>users\<close> table as the program sees it
  (\<open>UserRecord\<close>), and what it shows of it (\<open>UserPublic\<close>: everything but the password
  hash). The JSON of a public profile is what the profile cache and the responses hold.
\<close>

datatype user_role = User | Admin

fun role_string :: "user_role \<Rightarrow> string" where
  "role_string User = ''user''"
| "role_string Admin = ''admin''"

definition role_of_string :: "string \<Rightarrow> user_role option" where
  "role_of_string s =
     (if s = ''user'' then Some User else if s = ''admin'' then Some Admin else None)"

lemma role_of_string_role [simp]: "role_of_string (role_string r) = Some r"
  by (cases r) (simp_all add: role_of_string_def)

lemma role_string_inj [simp]: "role_string r = role_string r' \<longleftrightarrow> r = r'"
  by (cases r; cases r') simp_all

lemma role_of_string_Some: "role_of_string s = Some r \<longleftrightarrow> s = role_string r"
  by (cases r) (auto simp: role_of_string_def)

record user_record =
  ur_id :: string
  ur_name :: string
  ur_username :: string
  ur_passwordHash :: string
  ur_email :: string
  ur_role :: user_role

record user_public =
  up_id :: string
  up_name :: string
  up_username :: string
  up_email :: string
  up_role :: user_role

definition toPublicUser :: "user_record \<Rightarrow> user_public" where
  "toPublicUser user =
     \<lparr>up_id = ur_id user, up_name = ur_name user, up_username = ur_username user,
      up_email = ur_email user, up_role = ur_role user\<rparr>"

definition public_json :: "user_public \<Rightarrow> json" where
  "public_json p = JObj
     [(''id'', JStr (up_id p)), (''name'', JStr (up_name p)), (''username'', JStr (up_username p)),
      (''email'', JStr (up_email p)), (''role'', JStr (role_string (up_role p)))]"

text \<open>Reading a profile back from JSON; \<open>None\<close> for a value of another shape.\<close>

fun public_of_json :: "json \<Rightarrow> user_public option" where
  "public_of_json (JObj ob) =
     (case (as_str (js_field ob ''id''), as_str (js_field ob ''name''),
            as_str (js_field ob ''username''), as_str (js_field ob ''email''),
            Option.bind (as_str (js_field ob ''role'')) role_of_string) of
        (Some i, Some n, Some u, Some e, Some r) \<Rightarrow>
          Some \<lparr>up_id = i, up_name = n, up_username = u, up_email = e, up_role = r\<rparr>
      | _ \<Rightarrow> None)"
| "public_of_json _ = None"

lemma public_json_roundtrip [simp]: "public_of_json (public_json p) = Some p"
  by (simp add: public_json_def)

lemma public_json_inj [simp]: "public_json p = public_json q \<longleftrightarrow> p = q"
  by (metis option.inject public_json_roundtrip)

text \<open>A public profile never shows the hash: it does not depend on it.\<close>

lemma toPublicUser_hides_hash: "toPublicUser (u\<lparr>ur_passwordHash := h\<rparr>) = toPublicUser u"
  by (simp add: toPublicUser_def)

end
