(* ===== verification/World.thy ===== *)
theory World
  imports Users
begin

section \<open>The world of a request: Redis, PostgreSQL, clock, randomness, failures\<close>

text \<open>
  The program is a stateless process around two servers. What a handler can read or change
  is a \<open>world\<close>: the state of the Redis server (\<open>'r\<close>) and of the PostgreSQL server
  (\<open>'p\<close>), both abstract, the clock behind \<open>Date.now()\<close>, the source of random values,
  and the failures the coming calls to a server meet. A handler is a function of that
  world; time passes and other requests run between the calls of the step relations of
  the later theories.
\<close>

text \<open>
  What the network does to one call: nothing (\<open>Fine\<close>); the call is rejected before it
  reaches the server (\<open>Down\<close>); the server runs it and the answer is lost (\<open>Lost\<close>); or,
  for a \<open>MULTI\<close>, some of the queued commands fail one by one (\<open>Queued\<close>, for instance
  with \<open>OOM\<close> when Redis is full).
\<close>

datatype fault = Fine | Down string | Lost string | Queued "string option list"

record ('r, 'p) world =
  w_redis :: 'r
  w_pg :: 'p
  w_now :: int
  w_random :: "nat \<Rightarrow> string"
  w_drawn :: nat
  w_faults :: "fault list"

definition next_fault :: "('r, 'p) world \<Rightarrow> fault \<times> ('r, 'p) world" where
  "next_fault w = (case w_faults w of [] \<Rightarrow> (Fine, w) | f # fs \<Rightarrow> (f, w\<lparr>w_faults := fs\<rparr>))"

definition healthy :: "('r, 'p) world \<Rightarrow> bool" where
  "healthy w \<longleftrightarrow> w_faults w = []"

lemma next_fault_healthy [simp]: "healthy w \<Longrightarrow> next_fault w = (Fine, w)"
  by (simp add: healthy_def next_fault_def)

lemma next_fault_frame:
  assumes "next_fault w = (f, w')"
  shows "w_redis w' = w_redis w" "w_pg w' = w_pg w" "w_now w' = w_now w"
    "w_random w' = w_random w" "w_drawn w' = w_drawn w"
  using assms by (auto simp: next_fault_def split: list.splits)

text \<open>\<open>Date.now()\<close>, and one draw from the random source.\<close>

definition date_now :: "(('r, 'p) world, exn, int) act" where
  "date_now = (\<lambda>w. (Inr (w_now w), w))"

definition draw :: "(('r, 'p) world, exn, string) act" where
  "draw = (\<lambda>w. (Inr (w_random w (w_drawn w)), w\<lparr>w_drawn := Suc (w_drawn w)\<rparr>))"

lemma date_now_apply [simp, act_simps]: "date_now w = (Inr (w_now w), w)"
  by (simp add: date_now_def)

lemma draw_apply [simp, act_simps]:
  "draw w = (Inr (w_random w (w_drawn w)), w\<lparr>w_drawn := Suc (w_drawn w)\<rparr>)"
  by (simp add: draw_def)

lemma healthy_updates [simp]:
  "healthy (w\<lparr>w_redis := r\<rparr>) = healthy w"
  "healthy (w\<lparr>w_pg := p\<rparr>) = healthy w"
  "healthy (w\<lparr>w_now := t\<rparr>) = healthy w"
  "healthy (w\<lparr>w_drawn := n\<rparr>) = healthy w"
  by (simp_all add: healthy_def)

end
