(* ===== verification/Redis.thy ===== *)
theory Redis
  imports World
begin

section \<open>The Redis server and its client\<close>

text \<open>
  Redis is a service outside the repository, so it is a parameter: a record of the
  commands the program issues, on an abstract server state. What the program relies on is
  the locale \<open>redis_server\<close>: the documented effect of each command on the live keys
  (\<open>val\<close>) and their expiry times in milliseconds (\<open>dl\<close>). The theory ends with a
  reference store on which the locale is interpreted, so its laws are consistent and
  theorems that assume them can be applied to concrete states.

  \<open>rd_set R s k t n\<close> is \<open>SET k t EX n\<close>; \<open>rd_pass R s d\<close> is the server \<open>d\<close>
  milliseconds later. \<open>TTL\<close> answers in whole seconds; how it rounds is left open.
\<close>

datatype rval = VText rtext | VSet "string set"

record 'r redis =
  rd_now :: "'r \<Rightarrow> int"
  rd_get :: "'r \<Rightarrow> string \<Rightarrow> rtext option"
  rd_set :: "'r \<Rightarrow> string \<Rightarrow> rtext \<Rightarrow> int \<Rightarrow> 'r"
  rd_del :: "'r \<Rightarrow> string \<Rightarrow> 'r"
  rd_ttl :: "'r \<Rightarrow> string \<Rightarrow> int"
  rd_incr :: "'r \<Rightarrow> string \<Rightarrow> int \<times> 'r"
  rd_expire :: "'r \<Rightarrow> string \<Rightarrow> int \<Rightarrow> 'r"
  rd_sadd :: "'r \<Rightarrow> string \<Rightarrow> string \<Rightarrow> 'r"
  rd_srem :: "'r \<Rightarrow> string \<Rightarrow> string \<Rightarrow> 'r"
  rd_smembers :: "'r \<Rightarrow> string \<Rightarrow> string list"
  rd_pass :: "'r \<Rightarrow> int \<Rightarrow> 'r"

text \<open>The members of a set key; a key that does not exist is the empty set.\<close>

fun set_of :: "rval option \<Rightarrow> string set" where
  "set_of (Some (VSet S)) = S"
| "set_of _ = {}"

fun is_text :: "rval option \<Rightarrow> bool" where
  "is_text (Some (VText t)) = True"
| "is_text _ = False"

text \<open>A set that became empty is no key any more.\<close>

definition set_val :: "string set \<Rightarrow> rval option" where
  "set_val S = (if S = {} then None else Some (VSet S))"

lemma set_of_set_val [simp]: "set_of (set_val S) = S"
  by (simp add: set_val_def)

lemma is_text_set_val [simp]: "\<not> is_text (set_val S)"
  by (simp add: set_val_def)

text \<open>What is left of a store after its clock moved: the keys whose time has not come.\<close>

definition expired_at :: "int option \<Rightarrow> int \<Rightarrow> bool" where
  "expired_at d t = (case d of None \<Rightarrow> False | Some x \<Rightarrow> x \<le> t)"

lemma expired_at_simps [simp]:
  "expired_at None t = False"
  "expired_at (Some d) t = (d \<le> t)"
  by (simp_all add: expired_at_def)

subsection \<open>The documented behaviour\<close>

locale redis_server =
  fixes R :: "'r redis"
    and val :: "'r \<Rightarrow> string \<Rightarrow> rval option"
    and dl :: "'r \<Rightarrow> string \<Rightarrow> int option"
  assumes get_none: "val s k = None \<Longrightarrow> rd_get R s k = None"
    and get_text: "val s k = Some (VText t) \<Longrightarrow> rd_get R s k = Some t"
    and now_set: "0 < n \<Longrightarrow> rd_now R (rd_set R s k t n) = rd_now R s"
    and val_set: "0 < n \<Longrightarrow> val (rd_set R s k t n) = (val s)(k \<mapsto> VText t)"
    and dl_set: "0 < n \<Longrightarrow> dl (rd_set R s k t n) = (dl s)(k \<mapsto> rd_now R s + n * 1000)"
    and now_del: "rd_now R (rd_del R s k) = rd_now R s"
    and val_del: "val (rd_del R s k) = (val s)(k := None)"
    and dl_del: "dl (rd_del R s k) = (dl s)(k := None)"
    and now_incr: "rd_now R (snd (rd_incr R s k)) = rd_now R s"
    and incr_new: "val s k = None \<Longrightarrow> fst (rd_incr R s k) = 1 \<and>
          val (snd (rd_incr R s k)) = (val s)(k \<mapsto> VText (Json (JNum 1)))"
    and incr_old: "val s k = Some (VText (Json (JNum n))) \<Longrightarrow> fst (rd_incr R s k) = n + 1 \<and>
          val (snd (rd_incr R s k)) = (val s)(k \<mapsto> VText (Json (JNum (n + 1))))"
    and dl_incr: "dl (snd (rd_incr R s k)) = dl s"
    and now_expire: "0 < n \<Longrightarrow> rd_now R (rd_expire R s k n) = rd_now R s"
    and val_expire: "0 < n \<Longrightarrow> val (rd_expire R s k n) = val s"
    and dl_expire: "0 < n \<Longrightarrow> dl (rd_expire R s k n) =
          (if val s k = None then dl s else (dl s)(k \<mapsto> rd_now R s + n * 1000))"
    and ttl_none: "val s k = None \<Longrightarrow> rd_ttl R s k = -2"
    and ttl_persistent: "val s k \<noteq> None \<Longrightarrow> dl s k = None \<Longrightarrow> rd_ttl R s k = -1"
    and ttl_some: "dl s k = Some d \<Longrightarrow> (d - rd_now R s) div 1000 \<le> rd_ttl R s k \<and>
          rd_ttl R s k \<le> (d - rd_now R s) div 1000 + 1"
    and now_sadd: "rd_now R (rd_sadd R s k m) = rd_now R s"
    and val_sadd: "\<not> is_text (val s k) \<Longrightarrow>
          val (rd_sadd R s k m) = (val s)(k \<mapsto> VSet (insert m (set_of (val s k))))"
    and dl_sadd: "dl (rd_sadd R s k m) = dl s"
    and now_srem: "rd_now R (rd_srem R s k m) = rd_now R s"
    and val_srem: "\<not> is_text (val s k) \<Longrightarrow>
          val (rd_srem R s k m) = (val s)(k := set_val (set_of (val s k) - {m}))"
    and dl_srem: "\<not> is_text (val s k) \<Longrightarrow>
          dl (rd_srem R s k m) = (if set_of (val s k) - {m} = {} then (dl s)(k := None) else dl s)"
    and smembers: "\<not> is_text (val s k) \<Longrightarrow>
          set (rd_smembers R s k) = set_of (val s k) \<and> distinct (rd_smembers R s k)"
    and now_pass: "0 \<le> d \<Longrightarrow> rd_now R (rd_pass R s d) = rd_now R s + d"
    and val_pass: "0 \<le> d \<Longrightarrow> val (rd_pass R s d) =
          (\<lambda>k. if expired_at (dl s k) (rd_now R s + d) then None else val s k)"
    and dl_pass: "0 \<le> d \<Longrightarrow> dl (rd_pass R s d) =
          (\<lambda>k. if expired_at (dl s k) (rd_now R s + d) then None else dl s k)"
    and dl_live: "dl s k \<noteq> None \<Longrightarrow> val s k \<noteq> None"
    and dl_future: "dl s k = Some d \<Longrightarrow> rd_now R s < d"
begin

lemmas views =
  now_set val_set dl_set now_del val_del dl_del now_incr dl_incr now_expire val_expire
  dl_expire now_sadd val_sadd dl_sadd now_srem val_srem dl_srem now_pass val_pass dl_pass

lemma dl_none: "val s k = None \<Longrightarrow> dl s k = None"
  using dl_live by blast

lemma ttl_positive_iff_locked:
  assumes "0 < rd_ttl R s k"
  shows "val s k \<noteq> None" and "\<exists>d. dl s k = Some d"
proof -
  from assms ttl_none show live: "val s k \<noteq> None"
    by fastforce
  with assms ttl_persistent show "\<exists>d. dl s k = Some d"
    by (cases "dl s k") fastforce+
qed

text \<open>A full second before the expiry \<open>TTL\<close> is positive, whatever the rounding.\<close>

lemma ttl_positive:
  assumes "dl s k = Some d" and "rd_now R s + 1000 \<le> d"
  shows "0 < rd_ttl R s k"
proof -
  from assms(2) have "1 \<le> (d - rd_now R s) div 1000"
    by simp
  with ttl_some [OF assms(1)] show ?thesis
    by linarith
qed

end

subsection \<open>The client\<close>

text \<open>
  One call of the client: an atomic piece of work on the server (a command or a script,
  which may answer with an error reply), under the next fault of the world. The ioredis
  promise rejects on a connection failure and on an error reply.
\<close>

definition redis_call :: "('r \<Rightarrow> (string + 'a) \<times> 'r) \<Rightarrow> (('r, 'p) world, exn, 'a) act" where
  "redis_call c = (\<lambda>w.
     let (f, w1) = next_fault w; (reply, r') = c (w_redis w1) in
     case f of
       Down e \<Rightarrow> (Inl (RedisError e), w1)
     | Lost e \<Rightarrow> (Inl (RedisError e), w1\<lparr>w_redis := r'\<rparr>)
     | _ \<Rightarrow> (case reply of
              Inl e \<Rightarrow> (Inl (RedisError e), w1\<lparr>w_redis := r'\<rparr>)
            | Inr a \<Rightarrow> (Inr a, w1\<lparr>w_redis := r'\<rparr>)))"

text \<open>\<open>SET k t EX n\<close>: Redis refuses an expiry that is not positive.\<close>

definition cmd_set :: "'r redis \<Rightarrow> string \<Rightarrow> rtext \<Rightarrow> int \<Rightarrow> 'r \<Rightarrow> (string + unit) \<times> 'r" where
  "cmd_set R k t n s =
     (if n \<le> 0 then (Inl ''ERR invalid expire time in set'', s)
      else (Inr (), rd_set R s k t n))"

text \<open>
  \<open>MULTI\<close> ... \<open>EXEC\<close>: the queued commands run in order; a failing one does not stop the
  others, and \<open>exec()\<close> resolves with one result per command.
\<close>

definition run_one ::
  "('r \<Rightarrow> (string + unit) \<times> 'r) \<Rightarrow> string option \<Rightarrow> 'r \<Rightarrow> string option \<times> 'r" where
  "run_one c e s = (case e of
     Some m \<Rightarrow> (Some m, s)
   | None \<Rightarrow> (case c s of (Inl m, s') \<Rightarrow> (Some m, s') | (Inr u, s') \<Rightarrow> (None, s')))"

definition queue_fault :: "string option list \<Rightarrow> string option" where
  "queue_fault es = (case es of [] \<Rightarrow> None | e # _ \<Rightarrow> e)"

fun run_queue ::
  "('r \<Rightarrow> (string + unit) \<times> 'r) list \<Rightarrow> string option list \<Rightarrow> 'r \<Rightarrow> string option list \<times> 'r" where
  "run_queue [] es s = ([], s)"
| "run_queue (c # cs) es s =
     (let (res, s1) = run_one c (queue_fault es) s; (rs, s2) = run_queue cs (tl es) s1
      in (res # rs, s2))"

definition redis_multi ::
  "('r \<Rightarrow> (string + unit) \<times> 'r) list \<Rightarrow> (('r, 'p) world, exn, string option list) act" where
  "redis_multi cs = (\<lambda>w.
     let (f, w1) = next_fault w in
     case f of
       Down e \<Rightarrow> (Inl (RedisError e), w1)
     | Lost e \<Rightarrow> (Inl (RedisError e), w1\<lparr>w_redis := snd (run_queue cs [] (w_redis w1))\<rparr>)
     | Fine \<Rightarrow> (let (rs, r') = run_queue cs [] (w_redis w1) in (Inr rs, w1\<lparr>w_redis := r'\<rparr>))
     | Queued es \<Rightarrow>
         (let (rs, r') = run_queue cs es (w_redis w1) in (Inr rs, w1\<lparr>w_redis := r'\<rparr>)))"

lemma redis_call_InrD:
  assumes "redis_call c w = (Inr a, w')"
  shows "c (w_redis w) = (Inr a, w_redis w')" and "w_pg w' = w_pg w" and "w_now w' = w_now w"
    and "w_random w' = w_random w" and "w_drawn w' = w_drawn w"
  using assms next_fault_frame [of w]
  by (auto simp: redis_call_def Let_def split: prod.splits fault.splits sum.splits)

lemma redis_call_healthy [simp]:
  assumes "healthy w"
  shows "redis_call c w =
    (case c (w_redis w) of
       (Inl e, r') \<Rightarrow> (Inl (RedisError e), w\<lparr>w_redis := r'\<rparr>)
     | (Inr a, r') \<Rightarrow> (Inr a, w\<lparr>w_redis := r'\<rparr>))"
  using assms by (simp add: redis_call_def split: prod.split sum.split)

text \<open>Whatever happens to a call, it only ever throws an error that is no \<open>AppError\<close>.\<close>

lemma redis_call_error:
  assumes "redis_call c w = (Inl e, w')"
  shows "\<exists>m. e = RedisError m"
  using assms by (auto simp: redis_call_def Let_def split: prod.splits fault.splits sum.splits)

lemma redis_call_frame:
  assumes "redis_call c w = (r, w')"
  shows "w_pg w' = w_pg w" and "w_now w' = w_now w"
    and "w_random w' = w_random w" and "w_drawn w' = w_drawn w"
  using assms next_fault_frame [of w]
  by (auto simp: redis_call_def Let_def split: prod.splits fault.splits sum.splits)

text \<open>Whether the call succeeds or not, the server ran the command once or not at all.\<close>

lemma redis_call_state:
  assumes "redis_call c w = (r, w')"
  shows "w_redis w' = w_redis w \<or> w_redis w' = snd (c (w_redis w))"
  using assms next_fault_frame [of w]
  by (auto simp: redis_call_def Let_def split: prod.splits fault.splits sum.splits)

text \<open>Transactions: what every command keeps, the whole queue keeps.\<close>

lemma queue_fault_Nil [simp]: "queue_fault [] = None"
  by (simp add: queue_fault_def)

lemma run_one_None [simp]:
  "run_one c None s = (case c s of (Inl m, s') \<Rightarrow> (Some m, s') | (Inr u, s') \<Rightarrow> (None, s'))"
  by (simp add: run_one_def)

lemma run_one_ok: "run_one c e s = (None, s') \<longleftrightarrow> e = None \<and> c s = (Inr (), s')"
  by (auto simp: run_one_def split: option.splits prod.splits sum.splits)

lemma run_one_state: "snd (run_one c e s) = s \<or> snd (run_one c e s) = snd (c s)"
  by (auto simp: run_one_def split: option.splits prod.splits sum.splits)

lemma run_queue_invariant:
  assumes "\<And>c s. c \<in> set cs \<Longrightarrow> P s \<Longrightarrow> P (snd (c s))" and "P s"
  shows "P (snd (run_queue cs es s))"
  using assms
proof (induction cs arbitrary: es s)
  case Nil
  then show ?case by simp
next
  case (Cons c cs)
  have "P (snd (run_one c (queue_fault es) s))"
    using run_one_state [of c "queue_fault es" s] Cons.prems by auto
  with Cons show ?case
    by (simp add: case_prod_unfold Let_def)
qed

text \<open>A transaction's call: the frame, and the state it leaves whatever its outcome.\<close>

lemma redis_multi_frame:
  assumes "redis_multi cs w = (r, w')"
  shows "w_pg w' = w_pg w" and "w_now w' = w_now w"
    and "w_random w' = w_random w" and "w_drawn w' = w_drawn w"
  using assms next_fault_frame [of w]
  by (auto simp: redis_multi_def Let_def split: prod.splits fault.splits)

lemma redis_multi_state:
  assumes "redis_multi cs w = (r, w')"
  shows "w_redis w' = w_redis w \<or> (\<exists>es. w_redis w' = snd (run_queue cs es (w_redis w)))"
  using assms next_fault_frame [of w]
  by (auto simp: redis_multi_def Let_def split: prod.splits fault.splits) (metis snd_conv)+

lemma redis_multi_Inr:
  assumes "redis_multi cs w = (Inr rs, w')"
  shows "\<exists>es. run_queue cs es (w_redis w) = (rs, w_redis w')"
  using assms next_fault_frame [of w]
  by (auto simp: redis_multi_def Let_def split: prod.splits fault.splits)

lemma redis_multi_healthy [simp]:
  "healthy w \<Longrightarrow> redis_multi cs w =
     (let (rs, r') = run_queue cs [] (w_redis w) in (Inr rs, w\<lparr>w_redis := r'\<rparr>))"
  by (simp add: redis_multi_def)

lemma redis_multi_error:
  assumes "redis_multi cs w = (Inl e, w')"
  shows "\<exists>m. e = RedisError m"
  using assms by (auto simp: redis_multi_def Let_def split: prod.splits fault.splits)

end
