(* ===== verification/Redis_Reference.thy ===== *)
theory Redis_Reference
  imports Redis
begin

section \<open>A reference store with the documented behaviour\<close>

text \<open>
  An executable store that behaves as the locale \<open>redis_server\<close> says: a clock and a
  table of values with expiry times, where an entry whose time has come is ignored. It is
  no model of the program; it shows that the laws can hold together, and the witnesses of
  the properties run the program's definitions on it. It starts empty at time 0
  (\<open>ref_init\<close>), and its \<open>TTL\<close> rounds to the nearest second.
\<close>

datatype ref_val = RText rtext | RSet "string list"

record ref_store =
  rf_now :: int
  rf_map :: "string \<Rightarrow> (ref_val \<times> int option) option"

definition ref_init :: ref_store where
  "ref_init = \<lparr>rf_now = 0, rf_map = (\<lambda>_. None)\<rparr>"

definition ref_look :: "ref_store \<Rightarrow> string \<Rightarrow> (ref_val \<times> int option) option" where
  "ref_look s k = (case rf_map s k of
     None \<Rightarrow> None
   | Some (v, d) \<Rightarrow> if expired_at d (rf_now s) \<or> v = RSet [] then None else Some (v, d))"

fun ref_members :: "(ref_val \<times> int option) option \<Rightarrow> string list" where
  "ref_members (Some (RSet xs, d)) = xs"
| "ref_members _ = []"

fun ref_deadline :: "(ref_val \<times> int option) option \<Rightarrow> int option" where
  "ref_deadline None = None"
| "ref_deadline (Some (v, d)) = d"

fun ref_number :: "(ref_val \<times> int option) option \<Rightarrow> int" where
  "ref_number (Some (RText (Json (JNum n)), d)) = n"
| "ref_number _ = 0"

definition ref_put :: "ref_store \<Rightarrow> string \<Rightarrow> (ref_val \<times> int option) option \<Rightarrow> ref_store" where
  "ref_put s k e = s\<lparr>rf_map := (rf_map s)(k := e)\<rparr>"

definition ref_ttl :: "ref_store \<Rightarrow> string \<Rightarrow> int" where
  "ref_ttl s k = (case ref_look s k of
     None \<Rightarrow> -2 | Some (v, None) \<Rightarrow> -1 | Some (v, Some d) \<Rightarrow> (d - rf_now s + 500) div 1000)"

definition ref_redis :: "ref_store redis" where
  "ref_redis = \<lparr>
     rd_now = rf_now,
     rd_get = (\<lambda>s k. case ref_look s k of Some (RText t, d) \<Rightarrow> Some t | _ \<Rightarrow> None),
     rd_set = (\<lambda>s k t n. ref_put s k (Some (RText t, Some (rf_now s + n * 1000)))),
     rd_del = (\<lambda>s k. ref_put s k None),
     rd_ttl = ref_ttl,
     rd_incr = (\<lambda>s k. let n = ref_number (ref_look s k) + 1 in
        (n, ref_put s k (Some (RText (Json (JNum n)), ref_deadline (ref_look s k))))),
     rd_expire = (\<lambda>s k n. case ref_look s k of
        None \<Rightarrow> s | Some (v, d) \<Rightarrow> ref_put s k (Some (v, Some (rf_now s + n * 1000)))),
     rd_sadd = (\<lambda>s k m.
        ref_put s k (Some (RSet (List.insert m (ref_members (ref_look s k))),
                           ref_deadline (ref_look s k)))),
     rd_srem = (\<lambda>s k m.
        ref_put s k (Some (RSet (removeAll m (ref_members (ref_look s k))),
                           ref_deadline (ref_look s k)))),
     rd_smembers = (\<lambda>s k. remdups (ref_members (ref_look s k))),
     rd_pass = (\<lambda>s d. s\<lparr>rf_now := rf_now s + d\<rparr>)\<rparr>"

fun ref_rval :: "ref_val \<Rightarrow> rval" where
  "ref_rval (RText t) = VText t"
| "ref_rval (RSet xs) = VSet (set xs)"

definition ref_value :: "ref_store \<Rightarrow> string \<Rightarrow> rval option" where
  "ref_value s k = map_option (ref_rval \<circ> fst) (ref_look s k)"

definition ref_dl :: "ref_store \<Rightarrow> string \<Rightarrow> int option" where
  "ref_dl s k = ref_deadline (ref_look s k)"

lemmas ref_defs = ref_redis_def ref_value_def ref_dl_def ref_look_def ref_put_def ref_ttl_def

lemma ref_look_put:
  "ref_look (ref_put s k (Some (v, d))) =
     (ref_look s)(k := if expired_at d (rf_now s) \<or> v = RSet [] then None else Some (v, d))"
  "ref_look (ref_put s k None) = (ref_look s)(k := None)"
  by (auto simp: ref_look_def ref_put_def fun_eq_iff split: option.split)

lemma rf_now_put [simp]: "rf_now (ref_put s k e) = rf_now s"
  by (simp add: ref_put_def)

lemma ref_look_future: "ref_look s k = Some (v, d) \<Longrightarrow> \<not> expired_at d (rf_now s) \<and> v \<noteq> RSet []"
  by (auto simp: ref_look_def split: option.splits if_splits)

lemma ref_look_pass:
  "0 \<le> d \<Longrightarrow> ref_look (s\<lparr>rf_now := rf_now s + d\<rparr>) k =
     (if expired_at (ref_dl s k) (rf_now s + d) then None else ref_look s k)"
  by (auto simp: ref_look_def ref_dl_def expired_at_def split: option.splits)

lemma ref_members_set: "set (ref_members e) = set_of (map_option (ref_rval \<circ> fst) e)"
  by (cases e rule: ref_members.cases) simp_all

lemma ref_nonempty_set: "\<not> is_text (ref_value s k) \<Longrightarrow> ref_members (ref_look s k) = [] \<Longrightarrow>
    ref_look s k = None"
  using ref_look_future [of s k]
  by (cases "ref_look s k" rule: ref_members.cases) (auto simp: ref_value_def)

text \<open>The fields of \<open>ref_redis\<close>, unfolded one by one.\<close>

lemma ref_redis_simps [simp]:
  "rd_now ref_redis s = rf_now s"
  "rd_get ref_redis s k = (case ref_look s k of Some (RText t, d) \<Rightarrow> Some t | _ \<Rightarrow> None)"
  "rd_set ref_redis s k t n = ref_put s k (Some (RText t, Some (rf_now s + n * 1000)))"
  "rd_del ref_redis s k = ref_put s k None"
  "rd_ttl ref_redis s k = ref_ttl s k"
  "rd_incr ref_redis s k = (ref_number (ref_look s k) + 1,
     ref_put s k (Some (RText (Json (JNum (ref_number (ref_look s k) + 1))),
                        ref_deadline (ref_look s k))))"
  "rd_expire ref_redis s k n = (case ref_look s k of
     None \<Rightarrow> s | Some (v, d) \<Rightarrow> ref_put s k (Some (v, Some (rf_now s + n * 1000))))"
  "rd_sadd ref_redis s k m =
     ref_put s k (Some (RSet (List.insert m (ref_members (ref_look s k))), ref_deadline (ref_look s k)))"
  "rd_srem ref_redis s k m =
     ref_put s k (Some (RSet (removeAll m (ref_members (ref_look s k))), ref_deadline (ref_look s k)))"
  "rd_smembers ref_redis s k = remdups (ref_members (ref_look s k))"
  "rd_pass ref_redis s d = s\<lparr>rf_now := rf_now s + d\<rparr>"
  by (simp_all add: ref_redis_def Let_def)

text \<open>An entry's own expiry time is never past.\<close>

lemma ref_deadline_alive [simp]: "\<not> expired_at (ref_deadline (ref_look s k)) (rf_now s)"
  using ref_look_future [of s k] by (cases "ref_look s k") auto

lemma ref_value_put:
  "ref_value (ref_put s k (Some (v, d))) =
     (ref_value s)(k := if expired_at d (rf_now s) \<or> v = RSet [] then None else Some (ref_rval v))"
  "ref_value (ref_put s k None) = (ref_value s)(k := None)"
  by (auto simp: ref_value_def ref_look_put fun_eq_iff)

lemma ref_dl_put:
  "ref_dl (ref_put s k (Some (v, d))) =
     (ref_dl s)(k := if expired_at d (rf_now s) \<or> v = RSet [] then None else d)"
  "ref_dl (ref_put s k None) = (ref_dl s)(k := None)"
  by (auto simp: ref_dl_def ref_look_put fun_eq_iff)

lemma ref_value_members:
  "\<not> is_text (ref_value s k) \<Longrightarrow> set (ref_members (ref_look s k)) = set_of (ref_value s k)"
  by (simp add: ref_members_set ref_value_def)

lemma ref_text_look:
  "ref_value s k = Some (VText t) \<longleftrightarrow> (\<exists>d. ref_look s k = Some (RText t, d))"
  by (auto simp: ref_value_def elim: ref_rval.elims)

lemma ref_none_look: "ref_value s k = None \<longleftrightarrow> ref_look s k = None"
  by (simp add: ref_value_def)

subsection \<open>The laws hold\<close>

interpretation ref_server: redis_server ref_redis ref_value ref_dl
proof unfold_locales
  fix s k t n m d
  show "ref_value s k = None \<Longrightarrow> rd_get ref_redis s k = None"
    by (simp add: ref_none_look)
  show "ref_value s k = Some (VText t) \<Longrightarrow> rd_get ref_redis s k = Some t"
    by (auto simp: ref_text_look)
  show "ref_value s k = None \<Longrightarrow> fst (rd_incr ref_redis s k) = 1 \<and>
      ref_value (snd (rd_incr ref_redis s k)) = (ref_value s)(k \<mapsto> VText (Json (JNum 1)))"
    by (simp add: ref_none_look ref_value_put)
  show "ref_value s k = Some (VText (Json (JNum n))) \<Longrightarrow> fst (rd_incr ref_redis s k) = n + 1 \<and>
      ref_value (snd (rd_incr ref_redis s k)) = (ref_value s)(k \<mapsto> VText (Json (JNum (n + 1))))"
    using ref_deadline_alive [of s k] by (auto simp: ref_text_look ref_value_put)
  show "ref_dl (snd (rd_incr ref_redis s k)) = ref_dl s"
    by (auto simp: ref_dl_put ref_dl_def fun_eq_iff)
  show "0 < n \<Longrightarrow> ref_value (rd_expire ref_redis s k n) = ref_value s"
    using ref_look_future [of s k]
    by (auto simp: ref_value_put ref_value_def split: option.split)
  show "0 < n \<Longrightarrow> ref_dl (rd_expire ref_redis s k n) =
      (if ref_value s k = None then ref_dl s else (ref_dl s)(k \<mapsto> rd_now ref_redis s + n * 1000))"
    using ref_look_future [of s k]
    by (auto simp: ref_none_look ref_dl_put split: option.split)
  show "0 < n \<Longrightarrow> rd_now ref_redis (rd_expire ref_redis s k n) = rd_now ref_redis s"
    by (simp split: option.split)
  show "ref_value s k = None \<Longrightarrow> rd_ttl ref_redis s k = -2"
    by (simp add: ref_none_look ref_ttl_def)
  show "ref_value s k \<noteq> None \<Longrightarrow> ref_dl s k = None \<Longrightarrow> rd_ttl ref_redis s k = -1"
    by (auto simp: ref_none_look ref_ttl_def ref_dl_def)
  show "ref_dl s k = Some d \<Longrightarrow> (d - rd_now ref_redis s) div 1000 \<le> rd_ttl ref_redis s k \<and>
      rd_ttl ref_redis s k \<le> (d - rd_now ref_redis s) div 1000 + 1"
    by (cases "ref_look s k") (auto simp: ref_ttl_def ref_dl_def)
  show "\<not> is_text (ref_value s k) \<Longrightarrow> ref_value (rd_sadd ref_redis s k m) =
      (ref_value s)(k \<mapsto> VSet (insert m (set_of (ref_value s k))))"
    using ref_value_members [of s k] by (auto simp: ref_value_put List.insert_def fun_eq_iff)
  show "ref_dl (rd_sadd ref_redis s k m) = ref_dl s"
    by (auto simp: ref_dl_put List.insert_def ref_dl_def fun_eq_iff)
  show "\<not> is_text (ref_value s k) \<Longrightarrow> ref_value (rd_srem ref_redis s k m) =
      (ref_value s)(k := set_val (set_of (ref_value s k) - {m}))"
    using ref_value_members [of s k]
    by (auto simp: ref_value_put set_val_def fun_eq_iff removeAll_filter_not_eq filter_empty_conv)
  show "\<not> is_text (ref_value s k) \<Longrightarrow> ref_dl (rd_srem ref_redis s k m) =
      (if set_of (ref_value s k) - {m} = {} then (ref_dl s)(k := None) else ref_dl s)"
    using ref_value_members [of s k]
    by (auto simp: ref_dl_put ref_dl_def fun_eq_iff removeAll_filter_not_eq filter_empty_conv)
  show "\<not> is_text (ref_value s k) \<Longrightarrow>
      set (rd_smembers ref_redis s k) = set_of (ref_value s k) \<and> distinct (rd_smembers ref_redis s k)"
    using ref_value_members [of s k] by simp
  show "0 \<le> d \<Longrightarrow> ref_value (rd_pass ref_redis s d) =
      (\<lambda>k. if expired_at (ref_dl s k) (rd_now ref_redis s + d) then None else ref_value s k)"
    by (simp add: ref_value_def ref_look_pass fun_eq_iff)
  show "0 \<le> d \<Longrightarrow> ref_dl (rd_pass ref_redis s d) =
      (\<lambda>k. if expired_at (ref_dl s k) (rd_now ref_redis s + d) then None else ref_dl s k)"
    by (simp add: ref_dl_def ref_look_pass fun_eq_iff)
  show "ref_dl s k \<noteq> None \<Longrightarrow> ref_value s k \<noteq> None"
    by (cases "ref_look s k") (auto simp: ref_dl_def ref_value_def)
  show "ref_dl s k = Some d \<Longrightarrow> rd_now ref_redis s < d"
    using ref_deadline_alive [of s k] by (simp add: ref_dl_def)
qed (simp_all add: ref_value_put ref_dl_put Let_def)

end
