(* ===== verification/SessionRepository.thy ===== *)
theory SessionRepository
  imports Redis_Reference
begin

section \<open>The session repository\<close>

text \<open>
  \<open>src/repositories/SessionRepository.ts\<close>. A session is the JSON text under
  \<open>session:<id>\<close>; the set \<open>user_sessions:<user>\<close> indexes the sessions of a user. The
  two Lua scripts are functions on the server state, which Redis runs atomically; the
  methods are the client calls around them. The definitions take the Redis commands \<open>R\<close>
  as an argument.
\<close>

definition SESSION_IDLE_TTL_SECONDS :: int where
  "SESSION_IDLE_TTL_SECONDS = 7 * 24 * 60 * 60"

definition SESSION_ABSOLUTE_TTL_SECONDS :: int where
  "SESSION_ABSOLUTE_TTL_SECONDS = 30 * 24 * 60 * 60"

definition REFRESH_GRACE_PERIOD_MS :: int where
  "REFRESH_GRACE_PERIOD_MS = 30 * 1000"

lemmas session_constants =
  SESSION_IDLE_TTL_SECONDS_def SESSION_ABSOLUTE_TTL_SECONDS_def REFRESH_GRACE_PERIOD_MS_def

subsection \<open>Data\<close>

record session =
  se_userId :: string
  se_role :: user_role
  se_refreshTokenHash :: string
  se_previousRefreshTokenHash :: "string option"
  se_rotatedAt :: "int option"
  se_createdAt :: int
  se_expiresAt :: int
  se_absoluteExpiresAt :: int

record rotate_params =
  rp_presentedHash :: string
  rp_newHash :: string
  rp_role :: user_role
  rp_now :: int

datatype rotate_outcome = Rotated | Concurrent | Reused | Missing

definition session_json :: "session \<Rightarrow> json" where
  "session_json s = JObj
     ([(''userId'', JStr (se_userId s)), (''role'', JStr (role_string (se_role s))),
       (''refreshTokenHash'', JStr (se_refreshTokenHash s))]
      @ opt_field ''previousRefreshTokenHash'' JStr (se_previousRefreshTokenHash s)
      @ opt_field ''rotatedAt'' JNum (se_rotatedAt s)
      @ [(''createdAt'', JNum (se_createdAt s)), (''expiresAt'', JNum (se_expiresAt s)),
         (''absoluteExpiresAt'', JNum (se_absoluteExpiresAt s))])"

text \<open>Reading the fields of a session object; \<open>None\<close> when one is missing or of another type.\<close>

fun session_of_json :: "json \<Rightarrow> session option" where
  "session_of_json (JObj ob) =
     (case (as_str (js_field ob ''userId''), Option.bind (as_str (js_field ob ''role'')) role_of_string,
            as_str (js_field ob ''refreshTokenHash''), as_num (js_field ob ''createdAt''),
            as_num (js_field ob ''expiresAt''), as_num (js_field ob ''absoluteExpiresAt'')) of
        (Some u, Some r, Some h, Some c, Some e, Some a) \<Rightarrow>
          Some \<lparr>se_userId = u, se_role = r, se_refreshTokenHash = h,
                se_previousRefreshTokenHash = as_str (js_field ob ''previousRefreshTokenHash''),
                se_rotatedAt = as_num (js_field ob ''rotatedAt''),
                se_createdAt = c, se_expiresAt = e, se_absoluteExpiresAt = a\<rparr>
      | _ \<Rightarrow> None)"
| "session_of_json _ = None"

lemma session_json_roundtrip [simp]: "session_of_json (session_json s) = Some s"
  by (cases s; cases "se_previousRefreshTokenHash s"; cases "se_rotatedAt s")
    (simp_all add: session_json_def)

definition session_of_text :: "rtext \<Rightarrow> string + session" where
  "session_of_text t = (case JSON_parse t of
     Inl e \<Rightarrow> Inl e
   | Inr j \<Rightarrow> (case session_of_json j of None \<Rightarrow> Inl ''TypeError'' | Some s \<Rightarrow> Inr s))"

lemma session_text_roundtrip [simp]:
  "session_of_text (JSON_stringify (session_json s)) = Inr s"
  "session_of_text (Json (session_json s)) = Inr s"
  by (simp_all add: session_of_text_def)

definition SESSION_PREFIX :: string where
  "SESSION_PREFIX = ''session:''"

definition sessionKey :: "string \<Rightarrow> string" where
  "sessionKey sessionId = SESSION_PREFIX @ sessionId"

definition userSessionsKey :: "string \<Rightarrow> string" where
  "userSessionsKey userId = ''user_sessions:'' @ userId"

lemma sessionKey_inj [simp]: "sessionKey a = sessionKey b \<longleftrightarrow> a = b"
  by (simp add: sessionKey_def)

lemma userSessionsKey_inj [simp]: "userSessionsKey a = userSessionsKey b \<longleftrightarrow> a = b"
  by (simp add: userSessionsKey_def)

lemma session_keys_disjoint [simp]:
  "sessionKey a \<noteq> userSessionsKey b" "userSessionsKey b \<noteq> sessionKey a"
  by (simp_all add: sessionKey_def userSessionsKey_def SESSION_PREFIX_def)

subsection \<open>The scripts\<close>

text \<open>
  \<open>ROTATE_SCRIPT\<close>, with \<open>KEYS\<close> and \<open>ARGV\<close> as arguments: \<open>key1\<close> the session, \<open>key2\<close>
  the index, then the presented hash, the new hash, the role, the time, the grace period,
  the idle lifetime and the session id. A field of the decoded object that is absent is
  \<open>nil\<close>, so the comparison of \<open>previousRefreshTokenHash\<close> fails on it.
\<close>

definition rotate_script ::
  "'r redis \<Rightarrow> string \<Rightarrow> string \<Rightarrow> string \<Rightarrow> string \<Rightarrow> user_role \<Rightarrow> int \<Rightarrow> int \<Rightarrow> int \<Rightarrow> string \<Rightarrow>
   'r \<Rightarrow> (string + rotate_outcome) \<times> 'r" where
  "rotate_script R key1 key2 presented newHash role now grace idle sid st =
     (case rd_get R st key1 of
        None \<Rightarrow> (Inr Missing, st)
      | Some raw \<Rightarrow>
          (case session_of_text raw of
             Inl e \<Rightarrow> (Inl e, st)
           | Inr s \<Rightarrow>
               if se_refreshTokenHash s \<noteq> presented then
                 (if se_previousRefreshTokenHash s = Some presented
                     \<and> (case se_rotatedAt s of None \<Rightarrow> False | Some at \<Rightarrow> now - at \<le> grace)
                  then (Inr Concurrent, st)
                  else (Inr Reused, rd_srem R (rd_del R st key1) key2 sid))
               else
                 let remainingMs = se_absoluteExpiresAt s - now in
                 if remainingMs \<le> 0 then (Inr Missing, rd_srem R (rd_del R st key1) key2 sid)
                 else
                   let ttl = min idle (ceil_div remainingMs 1000);
                       s' = s\<lparr>se_previousRefreshTokenHash := Some presented,
                              se_refreshTokenHash := newHash, se_role := role,
                              se_rotatedAt := Some now, se_expiresAt := now + ttl * 1000\<rparr>
                   in (case cmd_set R key1 (Json (session_json s')) ttl st of
                         (Inl e, st') \<Rightarrow> (Inl e, st')
                       | (Inr u, st') \<Rightarrow> (Inr Rotated, st'))))"

text \<open>\<open>DELETE_ALL_SCRIPT\<close>: the loop over the members, then the index itself.\<close>

fun del_each :: "'r redis \<Rightarrow> string \<Rightarrow> string list \<Rightarrow> 'r \<Rightarrow> 'r" where
  "del_each R prefix [] st = st"
| "del_each R prefix (i # ids) st = del_each R prefix ids (rd_del R st (prefix @ i))"

definition delete_all_script :: "'r redis \<Rightarrow> string \<Rightarrow> string \<Rightarrow> 'r \<Rightarrow> (string + nat) \<times> 'r" where
  "delete_all_script R key1 prefix st =
     (let ids = rd_smembers R st key1
      in (Inr (length ids), rd_del R (del_each R prefix ids st) key1))"

subsection \<open>The methods\<close>

text \<open>\<open>execOrThrow\<close>: the first error among the results of a transaction is thrown.\<close>

fun first_error :: "string option list \<Rightarrow> string option" where
  "first_error [] = None"
| "first_error (None # rs) = first_error rs"
| "first_error (Some e # rs) = Some e"

definition execOrThrow ::
  "('r \<Rightarrow> (string + unit) \<times> 'r) list \<Rightarrow> (('r, 'p) world, exn, unit) act" where
  "execOrThrow transaction =
     andthen (redis_multi transaction) (\<lambda>results.
       case first_error results of None \<Rightarrow> ret () | Some e \<Rightarrow> raise (RedisError e))"

definition session_get :: "'r redis \<Rightarrow> string \<Rightarrow> (('r, 'p) world, exn, session option) act" where
  "session_get R sessionId =
     andthen (redis_call (\<lambda>st. (Inr (rd_get R st (sessionKey sessionId)), st))) (\<lambda>stored.
       case stored of
         None \<Rightarrow> ret None
       | Some t \<Rightarrow>
           if text_empty t then ret None
           else (case session_of_text t of Inl e \<Rightarrow> raise (JsError e) | Inr s \<Rightarrow> ret (Some s)))"

text \<open>The transactions of \<open>create\<close> and \<open>delete\<close>, as they are queued.\<close>

definition create_queue ::
  "'r redis \<Rightarrow> string \<Rightarrow> session \<Rightarrow> int \<Rightarrow> ('r \<Rightarrow> (string + unit) \<times> 'r) list" where
  "create_queue R sessionId rec ttlSeconds =
     [cmd_set R (sessionKey sessionId) (JSON_stringify (session_json rec)) ttlSeconds,
      \<lambda>st. (Inr (), rd_sadd R st (userSessionsKey (se_userId rec)) sessionId),
      \<lambda>st. (Inr (), rd_expire R st (userSessionsKey (se_userId rec)) SESSION_ABSOLUTE_TTL_SECONDS)]"

definition delete_queue ::
  "'r redis \<Rightarrow> string \<Rightarrow> string \<Rightarrow> ('r \<Rightarrow> (string + unit) \<times> 'r) list" where
  "delete_queue R sessionId userId =
     [\<lambda>st. (Inr (), rd_del R st (sessionKey sessionId)),
      \<lambda>st. (Inr (), rd_srem R st (userSessionsKey userId) sessionId)]"

definition session_create :: "'r redis \<Rightarrow> string \<Rightarrow> session \<Rightarrow> (('r, 'p) world, exn, unit) act" where
  "session_create R sessionId rec =
     andthen date_now (\<lambda>now.
       let ttlSeconds = min SESSION_IDLE_TTL_SECONDS (ceil_div (se_absoluteExpiresAt rec - now) 1000)
       in execOrThrow (create_queue R sessionId rec ttlSeconds))"

definition session_rotate ::
  "'r redis \<Rightarrow> string \<Rightarrow> string \<Rightarrow> rotate_params \<Rightarrow> (('r, 'p) world, exn, rotate_outcome) act" where
  "session_rotate R sessionId userId p =
     redis_call (rotate_script R (sessionKey sessionId) (userSessionsKey userId)
       (rp_presentedHash p) (rp_newHash p) (rp_role p) (rp_now p)
       REFRESH_GRACE_PERIOD_MS SESSION_IDLE_TTL_SECONDS sessionId)"

definition session_delete :: "'r redis \<Rightarrow> string \<Rightarrow> string \<Rightarrow> (('r, 'p) world, exn, unit) act" where
  "session_delete R sessionId userId =
     execOrThrow (delete_queue R sessionId userId)"

definition session_deleteAllForUser :: "'r redis \<Rightarrow> string \<Rightarrow> (('r, 'p) world, exn, nat) act" where
  "session_deleteAllForUser R userId =
     redis_call (delete_all_script R (userSessionsKey userId) SESSION_PREFIX)"

end
