(* ===== verification/SessionContract.thy ===== *)
theory SessionContract
  imports SessionRepository
begin

section \<open>What the session repository promises\<close>

text \<open>
  The contract that \<open>AuthService\<close> and the authentication middleware rely on, stated over an
  abstract view of the world: the live session of each id (\<open>sess\<close>) and the index of
  each user (\<open>idx\<close>). \<open>rotate_spec\<close> is the rotation as a pure decision; the locale
  \<open>session_store\<close> is the interface. The second half shows that the repository over any
  Redis server provides it: the Lua scripts and transactions refine the contract.
\<close>

subsection \<open>The abstract operations\<close>

text \<open>The decision of a rotation on a live session.\<close>

definition rotate_decision :: "session \<Rightarrow> rotate_params \<Rightarrow> rotate_outcome" where
  "rotate_decision s p =
     (if se_refreshTokenHash s = rp_presentedHash p then
        (if se_absoluteExpiresAt s \<le> rp_now p then Missing else Rotated)
      else if se_previousRefreshTokenHash s = Some (rp_presentedHash p)
              \<and> (\<exists>t. se_rotatedAt s = Some t \<and> rp_now p - t \<le> REFRESH_GRACE_PERIOD_MS)
      then Concurrent else Reused)"

text \<open>The lifetime in seconds a rotated session gets, and the session itself.\<close>

definition session_ttl :: "int \<Rightarrow> int \<Rightarrow> int" where
  "session_ttl absolute now = min SESSION_IDLE_TTL_SECONDS (ceil_div (absolute - now) 1000)"

definition rotated_session :: "session \<Rightarrow> rotate_params \<Rightarrow> session" where
  "rotated_session s p =
     s\<lparr>se_previousRefreshTokenHash := Some (rp_presentedHash p),
       se_refreshTokenHash := rp_newHash p, se_role := rp_role p,
       se_rotatedAt := Some (rp_now p),
       se_expiresAt := rp_now p + session_ttl (se_absoluteExpiresAt s) (rp_now p) * 1000\<rparr>"

definition rotate_spec :: "session option \<Rightarrow> rotate_params \<Rightarrow> rotate_outcome \<times> session option" where
  "rotate_spec so p = (case so of
     None \<Rightarrow> (Missing, None)
   | Some s \<Rightarrow> (case rotate_decision s p of
        Rotated \<Rightarrow> (Rotated, Some (rotated_session s p))
      | Concurrent \<Rightarrow> (Concurrent, Some s)
      | out \<Rightarrow> (out, None)))"

lemma session_ttl_bounds:
  assumes "now < absolute"
  shows "0 < session_ttl absolute now" and "session_ttl absolute now \<le> SESSION_IDLE_TTL_SECONDS"
    and "now + session_ttl absolute now * 1000 < absolute + 1000"
  using assms ceil_div_bounds [of 1000 "absolute - now"] ceil_div_pos [of "absolute - now" 1000]
  by (auto simp: session_ttl_def session_constants min_def)

lemma rotate_spec_None [simp]: "rotate_spec None p = (Missing, None)"
  by (simp add: rotate_spec_def)

lemma rotate_spec_Rotated:
  "fst (rotate_spec so p) = Rotated \<longleftrightarrow>
     (\<exists>s. so = Some s \<and> se_refreshTokenHash s = rp_presentedHash p \<and> rp_now p < se_absoluteExpiresAt s)"
  by (auto simp: rotate_spec_def rotate_decision_def split: option.split rotate_outcome.split if_splits)

lemma rotate_spec_kept:
  "snd (rotate_spec so p) \<noteq> None \<longleftrightarrow> fst (rotate_spec so p) \<in> {Rotated, Concurrent}"
  by (auto simp: rotate_spec_def split: option.split rotate_outcome.split)

subsection \<open>The interface\<close>

record 'w session_ops =
  so_get :: "string \<Rightarrow> ('w, exn, session option) act"
  so_create :: "string \<Rightarrow> session \<Rightarrow> ('w, exn, unit) act"
  so_rotate :: "string \<Rightarrow> string \<Rightarrow> rotate_params \<Rightarrow> ('w, exn, rotate_outcome) act"
  so_delete :: "string \<Rightarrow> string \<Rightarrow> ('w, exn, unit) act"
  so_deleteAllForUser :: "string \<Rightarrow> ('w, exn, nat) act"

text \<open>
  \<open>ok\<close> holds in every world the repository produces (the keys hold sessions and sets);
  \<open>up\<close> is a world in which no call fails. Every law but the last five is about calls
  that succeed; a call that fails throws a driver error and keeps \<open>ok\<close>.
\<close>

locale session_store =
  fixes S :: "'w session_ops"
    and sess :: "'w \<Rightarrow> string \<Rightarrow> session option"
    and idx :: "'w \<Rightarrow> string \<Rightarrow> string set"
    and ok :: "'w \<Rightarrow> bool"
    and up :: "'w \<Rightarrow> bool"
    and clock :: "'w \<Rightarrow> int"
  assumes get: "ok w \<Longrightarrow> so_get S i w = (Inr r, w') \<Longrightarrow> r = sess w i"
    and get_frame: "ok w \<Longrightarrow> so_get S i w = (r0, w') \<Longrightarrow>
          sess w' = sess w \<and> idx w' = idx w \<and> ok w' \<and> clock w' = clock w"
    and create: "ok w \<Longrightarrow> clock w < se_absoluteExpiresAt rec \<Longrightarrow> so_create S i rec w = (Inr u, w') \<Longrightarrow>
          sess w' = (sess w)(i \<mapsto> rec) \<and>
          idx w' = (idx w)(se_userId rec := insert i (idx w (se_userId rec)))"
    and create_ok: "ok w \<Longrightarrow> so_create S i rec w = (r1, w') \<Longrightarrow> ok w' \<and> clock w' = clock w"
    and rotate: "ok w \<Longrightarrow> so_rotate S i uid p w = (Inr out, w') \<Longrightarrow>
          out = fst (rotate_spec (sess w i) p) \<and>
          sess w' = (sess w)(i := snd (rotate_spec (sess w i) p)) \<and>
          idx w' = (if sess w i \<noteq> None \<and> sess w' i = None
                    then (idx w)(uid := idx w uid - {i}) else idx w)"
    and rotate_ok: "ok w \<Longrightarrow> so_rotate S i uid p w = (r2, w') \<Longrightarrow> ok w' \<and> clock w' = clock w"
    and delete: "ok w \<Longrightarrow> so_delete S i uid w = (Inr u, w') \<Longrightarrow>
          sess w' = (sess w)(i := None) \<and> idx w' = (idx w)(uid := idx w uid - {i})"
    and delete_ok: "ok w \<Longrightarrow> so_delete S i uid w = (r1, w') \<Longrightarrow> ok w' \<and> clock w' = clock w"
    and delete_all: "ok w \<Longrightarrow> so_deleteAllForUser S uid w = (Inr n, w') \<Longrightarrow>
          n = card (idx w uid) \<and> idx w' = (idx w)(uid := {}) \<and>
          sess w' = (\<lambda>i. if i \<in> idx w uid then None else sess w i)"
    and delete_all_ok: "ok w \<Longrightarrow> so_deleteAllForUser S uid w = (r3, w') \<Longrightarrow> ok w' \<and> clock w' = clock w"
    and get_err: "ok w \<Longrightarrow> so_get S i w = (Inl e, w') \<Longrightarrow> \<not> is_AppError e"
    and create_err: "so_create S i rec w = (Inl e, w') \<Longrightarrow> \<not> is_AppError e"
    and rotate_err: "so_rotate S i uid p w = (Inl e, w') \<Longrightarrow> \<not> is_AppError e"
    and delete_err: "so_delete S i uid w = (Inl e, w') \<Longrightarrow> \<not> is_AppError e"
    and delete_all_err: "so_deleteAllForUser S uid w = (Inl e, w') \<Longrightarrow> \<not> is_AppError e"
    and up_get: "ok w \<Longrightarrow> up w \<Longrightarrow> \<exists>w'. so_get S i w = (Inr (sess w i), w') \<and> up w'"
    and up_create: "ok w \<Longrightarrow> up w \<Longrightarrow> clock w < se_absoluteExpiresAt rec \<Longrightarrow>
          \<exists>w'. so_create S i rec w = (Inr (), w') \<and> up w'"
    and up_rotate: "ok w \<Longrightarrow> up w \<Longrightarrow> \<exists>out w'. so_rotate S i uid p w = (Inr out, w') \<and> up w'"
    and up_delete: "ok w \<Longrightarrow> up w \<Longrightarrow> \<exists>w'. so_delete S i uid w = (Inr (), w') \<and> up w'"
    and up_delete_all: "ok w \<Longrightarrow> up w \<Longrightarrow> \<exists>n w'. so_deleteAllForUser S uid w = (Inr n, w') \<and> up w'"
begin

text \<open>The compare-and-swap: a token that was rotated away is not current any more.\<close>

lemma rotate_twice:
  assumes "ok w" and "so_rotate S i uid p w = (Inr Rotated, w1)"
    and "so_rotate S i uid' q w1 = (Inr out, w2)"
    and "rp_presentedHash q = rp_presentedHash p" and "rp_newHash p \<noteq> rp_presentedHash p"
  shows "out \<noteq> Rotated"
proof -
  have w1: "sess w1 i = snd (rotate_spec (sess w i) p)" "fst (rotate_spec (sess w i) p) = Rotated" "ok w1"
    using rotate [OF assms(1,2)] rotate_ok [OF assms(1,2)] by auto
  then obtain s where "sess w1 i = Some (rotated_session s p)"
    by (auto simp: rotate_spec_def split: option.splits rotate_outcome.splits)
  with rotate [OF w1(3) assms(3)] assms(4,5) show ?thesis
    by (auto simp: rotated_session_def rotate_spec_Rotated [symmetric] rotate_spec_def
        rotate_decision_def split: if_splits)
qed

lemma delete_all_gone:
  assumes "ok w" and "so_deleteAllForUser S uid w = (Inr n, w')" and "i \<in> idx w uid"
  shows "sess w' i = None"
  using delete_all [OF assms(1,2)] assms(3) by simp

end

subsection \<open>The repository over a Redis server\<close>

definition session_repo :: "'r redis \<Rightarrow> ('r, 'p) world session_ops" where
  "session_repo R =
     \<lparr>so_get = session_get R, so_create = session_create R, so_rotate = session_rotate R,
      so_delete = session_delete R, so_deleteAllForUser = session_deleteAllForUser R\<rparr>"

lemma session_repo_simps [simp]:
  "so_get (session_repo R) = session_get R"
  "so_create (session_repo R) = session_create R"
  "so_rotate (session_repo R) = session_rotate R"
  "so_delete (session_repo R) = session_delete R"
  "so_deleteAllForUser (session_repo R) = session_deleteAllForUser R"
  by (simp_all add: session_repo_def)

text \<open>The abstraction: the sessions and indexes that the live keys hold.\<close>

definition session_at :: "('r \<Rightarrow> string \<Rightarrow> rval option) \<Rightarrow> 'r \<Rightarrow> string \<Rightarrow> session option" where
  "session_at val st i = (case val st (sessionKey i) of
     Some (VText t) \<Rightarrow> (case session_of_text t of Inl e \<Rightarrow> None | Inr s \<Rightarrow> Some s)
   | _ \<Rightarrow> None)"

definition index_at :: "('r \<Rightarrow> string \<Rightarrow> rval option) \<Rightarrow> 'r \<Rightarrow> string \<Rightarrow> string set" where
  "index_at val st uid = set_of (val st (userSessionsKey uid))"

text \<open>The type invariant of the keys: session keys hold sessions, index keys hold sets.\<close>

definition session_key_ok :: "rval option \<Rightarrow> bool" where
  "session_key_ok v \<longleftrightarrow> (case v of None \<Rightarrow> True | Some (VSet S) \<Rightarrow> False
     | Some (VText t) \<Rightarrow> (\<exists>s. t = Json (session_json s)))"

definition sessions_ok :: "('r \<Rightarrow> string \<Rightarrow> rval option) \<Rightarrow> 'r \<Rightarrow> bool" where
  "sessions_ok val st \<longleftrightarrow>
     (\<forall>i. session_key_ok (val st (sessionKey i))) \<and> (\<forall>u. \<not> is_text (val st (userSessionsKey u)))"

lemma session_key_ok_cases:
  assumes "session_key_ok v"
  obtains "v = None" | s where "v = Some (VText (Json (session_json s)))"
  using assms by (auto simp: session_key_ok_def split: option.splits rval.splits)

lemma session_key_ok_simps [simp]:
  "session_key_ok None" "session_key_ok (Some (VText (Json (session_json s))))"
  by (auto simp: session_key_ok_def)

lemma sessions_okD:
  assumes "sessions_ok val st"
  shows "session_key_ok (val st (sessionKey i))" and "\<not> is_text (val st (userSessionsKey u))"
  using assms by (simp_all add: sessions_ok_def)

text \<open>A successful transaction ran every command successfully.\<close>

lemma first_error_Cons [simp]:
  "first_error (r # rs) = None \<longleftrightarrow> r = None \<and> first_error rs = None"
  by (cases r) simp_all

lemma run_queue_ok_Cons:
  "(\<exists>rs. run_queue (c # cs) es s = (rs, s') \<and> first_error rs = None) \<longleftrightarrow>
     queue_fault es = None \<and> (\<exists>s1. c s = (Inr (), s1) \<and>
       (\<exists>rs. run_queue cs (tl es) s1 = (rs, s') \<and> first_error rs = None))"
  by (auto simp: Let_def run_one_ok split: prod.splits)

lemma execOrThrow_Inr:
  assumes "execOrThrow cs w = (Inr u, w')"
  shows "\<exists>es rs. run_queue cs es (w_redis w) = (rs, w_redis w') \<and> first_error rs = None"
proof -
  from assms obtain rs where "redis_multi cs w = (Inr rs, w')" "first_error rs = None"
    by (auto simp: execOrThrow_def andthen_eq_Inr_iff split: option.splits)
  with redis_multi_Inr show ?thesis by blast
qed

lemma execOrThrow_frame:
  assumes "execOrThrow cs w = (r, w')"
  shows "w_pg w' = w_pg w \<and> w_now w' = w_now w \<and> w_random w' = w_random w \<and> w_drawn w' = w_drawn w"
  using assms redis_multi_frame [of cs w]
  by (auto simp: execOrThrow_def andthen_def split: prod.splits sum.splits option.splits)

lemma execOrThrow_invariant:
  assumes "execOrThrow cs w = (r, w')" and "P (w_redis w)"
    and "\<And>c s. c \<in> set cs \<Longrightarrow> P s \<Longrightarrow> P (snd (c s))"
  shows "P (w_redis w')"
proof -
  from assms(1) obtain r0 where "redis_multi cs w = (r0, w')"
    by (auto simp: execOrThrow_def andthen_def split: prod.splits sum.splits option.splits)
  then have "w_redis w' = w_redis w \<or> (\<exists>es. w_redis w' = snd (run_queue cs es (w_redis w)))"
    by (rule redis_multi_state)
  with assms(2,3) run_queue_invariant [of cs P "w_redis w"] show ?thesis by auto
qed

text \<open>The error of a call of the repository is one of the driver or of \<open>JSON.parse\<close>.\<close>

lemma execOrThrow_error:
  assumes "execOrThrow cs w = (Inl e, w')"
  shows "\<exists>m. e = RedisError m"
  using assms redis_multi_error [of cs w]
  by (auto simp: execOrThrow_def andthen_eq_Inl_iff split: option.splits)

lemma session_get_error:
  assumes "session_get R i w = (Inl e, w')"
  shows "\<not> is_AppError e"
proof -
  have "(\<exists>m. e = RedisError m) \<or> (\<exists>m. e = JsError m)"
  proof (cases "redis_call (\<lambda>st. (Inr (rd_get R st (sessionKey i)), st)) w")
    case (Pair r w1)
    then show ?thesis
      using assms redis_call_error [of "\<lambda>st. (Inr (rd_get R st (sessionKey i)), st)" w]
      by (cases r) (auto simp: session_get_def andthen_def split: option.splits if_splits sum.splits)
  qed
  then show ?thesis by auto
qed

context redis_server
begin

lemma session_at_set:
  "0 < n \<Longrightarrow> session_at val (rd_set R st (sessionKey i) (Json (session_json s)) n) =
     (session_at val st)(i \<mapsto> s)"
  "0 < n \<Longrightarrow> index_at val (rd_set R st (sessionKey i) t n) = index_at val st"
  by (auto simp: session_at_def index_at_def views fun_eq_iff)

lemma session_at_del:
  "session_at val (rd_del R st (sessionKey i)) = (session_at val st)(i := None)"
  "index_at val (rd_del R st (sessionKey i)) = index_at val st"
  "session_at val (rd_del R st (userSessionsKey u)) = session_at val st"
  "index_at val (rd_del R st (userSessionsKey u)) = (index_at val st)(u := {})"
  by (auto simp: session_at_def index_at_def views fun_eq_iff)

lemma session_at_index_update:
  assumes "sessions_ok val st"
  shows "session_at val (rd_sadd R st (userSessionsKey u) i) = session_at val st"
    and "index_at val (rd_sadd R st (userSessionsKey u) i) =
           (index_at val st)(u := insert i (index_at val st u))"
    and "session_at val (rd_srem R st (userSessionsKey u) i) = session_at val st"
    and "index_at val (rd_srem R st (userSessionsKey u) i) =
           (index_at val st)(u := index_at val st u - {i})"
  using sessions_okD(2) [OF assms, of u]
  by (auto simp: session_at_def index_at_def views fun_eq_iff)

lemma session_at_expire:
  "0 < n \<Longrightarrow> session_at val (rd_expire R st k n) = session_at val st"
  "0 < n \<Longrightarrow> index_at val (rd_expire R st k n) = index_at val st"
  by (simp_all add: session_at_def index_at_def views fun_eq_iff)

lemma sessions_ok_updates:
  assumes "sessions_ok val st"
  shows "0 < n \<Longrightarrow> sessions_ok val (rd_set R st (sessionKey i) (Json (session_json s)) n)"
    and "sessions_ok val (rd_del R st k)"
    and "0 < n \<Longrightarrow> sessions_ok val (rd_expire R st k n)"
    and "sessions_ok val (rd_sadd R st (userSessionsKey u) i)"
    and "sessions_ok val (rd_srem R st (userSessionsKey u) i)"
  using assms sessions_okD(2) [OF assms, of u]
  by (auto simp: sessions_ok_def views)

lemmas session_views = session_at_set session_at_del session_at_index_update session_at_expire
  sessions_ok_updates

text \<open>A live session, and what \<open>GET\<close> returns for it.\<close>

lemma session_get_raw:
  assumes "sessions_ok val st"
  shows "rd_get R st (sessionKey i) =
    (case session_at val st i of None \<Rightarrow> None | Some s \<Rightarrow> Some (Json (session_json s)))"
  using sessions_okD(1) [OF assms, of i]
  by (rule session_key_ok_cases) (simp_all add: session_at_def get_none get_text)

text \<open>The rotation script refines the abstract rotation.\<close>

lemma rotate_script_refines:
  assumes ok: "sessions_ok val st"
    and run: "rotate_script R (sessionKey i) (userSessionsKey u) (rp_presentedHash p) (rp_newHash p)
        (rp_role p) (rp_now p) REFRESH_GRACE_PERIOD_MS SESSION_IDLE_TTL_SECONDS i st = (r, st')"
  shows "r = Inr (fst (rotate_spec (session_at val st i) p))"
    and "session_at val st' = (session_at val st)(i := snd (rotate_spec (session_at val st i) p))"
    and "index_at val st' =
      (if session_at val st i \<noteq> None \<and> session_at val st' i = None
       then (index_at val st)(u := index_at val st u - {i}) else index_at val st)"
    and "sessions_ok val st'"
proof -
  let ?goal = "r = Inr (fst (rotate_spec (session_at val st i) p)) \<and>
    session_at val st' = (session_at val st)(i := snd (rotate_spec (session_at val st i) p)) \<and>
    index_at val st' = (if session_at val st i \<noteq> None \<and> session_at val st' i = None
       then (index_at val st)(u := index_at val st u - {i}) else index_at val st) \<and>
    sessions_ok val st'"
  have ?goal
  proof (cases "session_at val st i")
    case None
    with run session_get_raw [OF ok, of i] ok show ?thesis
      by (auto simp: rotate_script_def)
  next
    case (Some s)
    have raw: "rd_get R st (sessionKey i) = Some (Json (session_json s))"
      by (simp add: session_get_raw [OF ok] Some)
    have del: "sessions_ok val (rd_del R st (sessionKey i))"
      using ok by (rule sessions_ok_updates)
    have within: "(case se_rotatedAt s of None \<Rightarrow> False | Some at \<Rightarrow> rp_now p - at \<le> REFRESH_GRACE_PERIOD_MS)
        \<longleftrightarrow> (\<exists>t. se_rotatedAt s = Some t \<and> rp_now p - t \<le> REFRESH_GRACE_PERIOD_MS)"
      by (auto split: option.split)
    show ?thesis
    proof (cases "rotate_decision s p")
      case Rotated
      then have cur: "se_refreshTokenHash s = rp_presentedHash p" and alive: "rp_now p < se_absoluteExpiresAt s"
        by (auto simp: rotate_decision_def split: if_splits)
      from session_ttl_bounds(1) [OF alive]
      have "0 < min SESSION_IDLE_TTL_SECONDS (ceil_div (se_absoluteExpiresAt s - rp_now p) 1000)"
        by (simp add: session_ttl_def)
      with run cur alive Some Rotated ok raw show ?thesis
        by (auto simp: rotate_script_def rotate_spec_def cmd_set_def Let_def session_views
            rotated_session_def session_ttl_def)
    next
      case Concurrent
      with run Some raw within ok show ?thesis
        by (auto simp: rotate_script_def rotate_spec_def rotate_decision_def split: if_splits)
    next
      case Reused
      with run Some raw within ok del show ?thesis
        by (auto simp: rotate_script_def rotate_spec_def rotate_decision_def session_views split: if_splits)
    next
      case Missing
      with run Some raw within ok del show ?thesis
        by (auto simp: rotate_script_def rotate_spec_def rotate_decision_def session_views split: if_splits)
    qed
  qed
  then show "r = Inr (fst (rotate_spec (session_at val st i) p))"
    and "session_at val st' = (session_at val st)(i := snd (rotate_spec (session_at val st i) p))"
    and "index_at val st' =
      (if session_at val st i \<noteq> None \<and> session_at val st' i = None
       then (index_at val st)(u := index_at val st u - {i}) else index_at val st)"
    and "sessions_ok val st'"
    by blast+
qed

lemma del_each_views:
  assumes "sessions_ok val st"
  shows "sessions_ok val (del_each R SESSION_PREFIX ids st)"
    and "session_at val (del_each R SESSION_PREFIX ids st) =
           (\<lambda>i. if i \<in> set ids then None else session_at val st i)"
    and "index_at val (del_each R SESSION_PREFIX ids st) = index_at val st"
    and "rd_now R (del_each R SESSION_PREFIX ids st) = rd_now R st"
  using assms
  by (induction ids arbitrary: st)
    (auto simp: session_views views sessionKey_def [symmetric] fun_eq_iff)

lemma delete_all_script_refines:
  assumes ok: "sessions_ok val st"
    and run: "delete_all_script R (userSessionsKey u) SESSION_PREFIX st = (r, st')"
  shows "r = Inr (card (index_at val st u))"
    and "session_at val st' = (\<lambda>i. if i \<in> index_at val st u then None else session_at val st i)"
    and "index_at val st' = (index_at val st)(u := {})"
    and "sessions_ok val st'"
proof -
  have mem: "set (rd_smembers R st (userSessionsKey u)) = index_at val st u"
    "distinct (rd_smembers R st (userSessionsKey u))"
    using smembers [OF sessions_okD(2) [OF ok]] by (simp_all add: index_at_def)
  then have "length (rd_smembers R st (userSessionsKey u)) = card (index_at val st u)"
    by (metis distinct_card)
  with run mem del_each_views [OF ok] show "r = Inr (card (index_at val st u))"
    and "session_at val st' = (\<lambda>i. if i \<in> index_at val st u then None else session_at val st i)"
    and "index_at val st' = (index_at val st)(u := {})"
    and "sessions_ok val st'"
    by (auto simp: delete_all_script_def Let_def session_views)
qed

subsection \<open>The repository provides the contract\<close>

lemma session_get_laws:
  assumes "sessions_ok val (w_redis w)" and "session_get R i w = (r, w')"
  shows "session_at val (w_redis w') = session_at val (w_redis w)"
    and "index_at val (w_redis w') = index_at val (w_redis w)"
    and "sessions_ok val (w_redis w')" and "w_now w' = w_now w"
    and "r = Inr x \<Longrightarrow> x = session_at val (w_redis w) i"
    and "healthy w \<Longrightarrow> r = Inr (session_at val (w_redis w) i) \<and> healthy w'"
proof -
  let ?c = "\<lambda>st. (Inr (rd_get R st (sessionKey i)), st)"
  from assms(2) obtain r0 where call: "redis_call ?c w = (r0, w')"
    and rest: "r0 = Inr stored \<Longrightarrow> r = (case stored of None \<Rightarrow> Inr None
        | Some t \<Rightarrow> if text_empty t then Inr None else (case session_of_text t of
            Inl e \<Rightarrow> Inl (JsError e) | Inr s \<Rightarrow> Inr (Some s)))"
    and err: "r0 = Inl e \<Longrightarrow> r = Inl e" for stored e
    by (auto simp: session_get_def andthen_def split: prod.splits sum.splits option.splits if_splits)
  have same: "w_redis w' = w_redis w"
    using redis_call_state [OF call] by auto
  then show "session_at val (w_redis w') = session_at val (w_redis w)"
    and "index_at val (w_redis w') = index_at val (w_redis w)" and "sessions_ok val (w_redis w')"
    and "w_now w' = w_now w"
    using assms(1) redis_call_frame [OF call] by auto
  have got: "r0 = Inr stored \<Longrightarrow> r = Inr (session_at val (w_redis w) i)" for stored
    using redis_call_InrD(1) [of ?c w] call rest session_get_raw [OF assms(1), of i]
    by (auto split: option.splits)
  with got err show "r = Inr x \<Longrightarrow> x = session_at val (w_redis w) i"
    by (cases r0) auto
  show "healthy w \<Longrightarrow> r = Inr (session_at val (w_redis w) i) \<and> healthy w'"
    using call got by auto
qed

lemma session_create_store:
  assumes "session_create R i rec w = (Inr u, w')" and alive: "w_now w < se_absoluteExpiresAt rec"
  shows "w_redis w' = rd_expire R (rd_sadd R (rd_set R (w_redis w) (sessionKey i)
        (Json (session_json rec)) (session_ttl (se_absoluteExpiresAt rec) (w_now w)))
        (userSessionsKey (se_userId rec)) i)
        (userSessionsKey (se_userId rec)) SESSION_ABSOLUTE_TTL_SECONDS"
proof -
  have run: "execOrThrow (create_queue R i rec (session_ttl (se_absoluteExpiresAt rec) (w_now w))) w = (Inr u, w')"
    using assms(1) by (simp add: session_create_def session_ttl_def Let_def act_simps)
  show ?thesis
    using execOrThrow_Inr [OF run] session_ttl_bounds(1) [OF alive]
    by (auto simp: create_queue_def run_queue_ok_Cons cmd_set_def JSON_stringify_def simp del: run_queue.simps(2))
qed

lemma session_create_laws:
  assumes "sessions_ok val (w_redis w)" and "session_create R i rec w = (r, w')"
  shows "sessions_ok val (w_redis w')" and "w_now w' = w_now w"
    and "w_now w < se_absoluteExpiresAt rec \<Longrightarrow> r = Inr u \<Longrightarrow>
      session_at val (w_redis w') = (session_at val (w_redis w))(i \<mapsto> rec) \<and>
      index_at val (w_redis w') = (index_at val (w_redis w))
        (se_userId rec := insert i (index_at val (w_redis w) (se_userId rec)))"
    and "w_now w < se_absoluteExpiresAt rec \<Longrightarrow> healthy w \<Longrightarrow> r = Inr () \<and> healthy w'"
proof -
  let ?ttl = "session_ttl (se_absoluteExpiresAt rec) (w_now w)"
  let ?cs = "[cmd_set R (sessionKey i) (JSON_stringify (session_json rec)) ?ttl,
      \<lambda>st. (Inr (), rd_sadd R st (userSessionsKey (se_userId rec)) i),
      \<lambda>st. (Inr (), rd_expire R st (userSessionsKey (se_userId rec)) SESSION_ABSOLUTE_TTL_SECONDS)]"
  have run: "execOrThrow ?cs w = (r, w')"
    using assms(2) by (simp add: session_create_def create_queue_def session_ttl_def Let_def act_simps)
  have pos: "0 < SESSION_ABSOLUTE_TTL_SECONDS"
    by (simp add: session_constants)
  show "sessions_ok val (w_redis w')"
    by (rule execOrThrow_invariant [OF run, where P = "sessions_ok val", OF assms(1)])
      (auto simp: session_views cmd_set_def JSON_stringify_def pos split: if_splits)
  show "w_now w' = w_now w"
    using execOrThrow_frame [OF run] by simp
  assume alive: "w_now w < se_absoluteExpiresAt rec"
  note ttl = session_ttl_bounds(1) [OF alive]
  show "session_at val (w_redis w') = (session_at val (w_redis w))(i \<mapsto> rec) \<and>
      index_at val (w_redis w') = (index_at val (w_redis w))
        (se_userId rec := insert i (index_at val (w_redis w) (se_userId rec)))" if "r = Inr u"
    using session_create_store [OF assms(2) [unfolded that] alive] ttl pos assms(1)
    by (simp add: session_views)
  show "r = Inr () \<and> healthy w'" if "healthy w"
    using run that ttl
    by (auto simp: execOrThrow_def andthen_def cmd_set_def Let_def)
qed

lemma session_rotate_laws:
  assumes "sessions_ok val (w_redis w)" and "session_rotate R i uid p w = (r, w')"
  shows "sessions_ok val (w_redis w')" and "w_now w' = w_now w"
    and "r = Inr out \<Longrightarrow> out = fst (rotate_spec (session_at val (w_redis w) i) p) \<and>
      session_at val (w_redis w') =
        (session_at val (w_redis w))(i := snd (rotate_spec (session_at val (w_redis w) i) p)) \<and>
      index_at val (w_redis w') =
        (if session_at val (w_redis w) i \<noteq> None \<and> session_at val (w_redis w') i = None
         then (index_at val (w_redis w))(uid := index_at val (w_redis w) uid - {i})
         else index_at val (w_redis w))"
    and "healthy w \<Longrightarrow> r = Inr (fst (rotate_spec (session_at val (w_redis w) i) p)) \<and> healthy w'"
proof -
  let ?c = "rotate_script R (sessionKey i) (userSessionsKey uid) (rp_presentedHash p) (rp_newHash p)
      (rp_role p) (rp_now p) REFRESH_GRACE_PERIOD_MS SESSION_IDLE_TTL_SECONDS i"
  have call: "redis_call ?c w = (r, w')"
    using assms(2) by (simp add: session_rotate_def)
  note refines = rotate_script_refines [OF assms(1), of i uid p "fst (?c (w_redis w))" "snd (?c (w_redis w))"]
  show "sessions_ok val (w_redis w')"
    using redis_call_state [OF call] refines(4) assms(1) by auto
  show "w_now w' = w_now w"
    using redis_call_frame [OF call] by simp
  show "out = fst (rotate_spec (session_at val (w_redis w) i) p) \<and>
      session_at val (w_redis w') =
        (session_at val (w_redis w))(i := snd (rotate_spec (session_at val (w_redis w) i) p)) \<and>
      index_at val (w_redis w') =
        (if session_at val (w_redis w) i \<noteq> None \<and> session_at val (w_redis w') i = None
         then (index_at val (w_redis w))(uid := index_at val (w_redis w) uid - {i})
         else index_at val (w_redis w))" if "r = Inr out"
    using redis_call_InrD(1) [OF call [unfolded that]] refines(1-3) by auto
  show "r = Inr (fst (rotate_spec (session_at val (w_redis w) i) p)) \<and> healthy w'" if "healthy w"
    using call that refines(1) by (auto split: prod.splits)
qed

lemma session_delete_laws:
  assumes "sessions_ok val (w_redis w)" and "session_delete R i uid w = (r, w')"
  shows "sessions_ok val (w_redis w')" and "w_now w' = w_now w"
    and "r = Inr u \<Longrightarrow> session_at val (w_redis w') = (session_at val (w_redis w))(i := None) \<and>
      index_at val (w_redis w') = (index_at val (w_redis w))(uid := index_at val (w_redis w) uid - {i})"
    and "healthy w \<Longrightarrow> r = Inr () \<and> healthy w'"
proof -
  let ?cs = "[\<lambda>st. (Inr (), rd_del R st (sessionKey i)), \<lambda>st. (Inr (), rd_srem R st (userSessionsKey uid) i)]"
  have run: "execOrThrow ?cs w = (r, w')"
    using assms(2) by (simp add: session_delete_def delete_queue_def)
  show "sessions_ok val (w_redis w')"
    by (rule execOrThrow_invariant [OF run, where P = "sessions_ok val", OF assms(1)])
      (auto simp: session_views)
  show "w_now w' = w_now w"
    using execOrThrow_frame [OF run] by simp
  show "session_at val (w_redis w') = (session_at val (w_redis w))(i := None) \<and>
      index_at val (w_redis w') = (index_at val (w_redis w))(uid := index_at val (w_redis w) uid - {i})"
    if "r = Inr u"
  proof -
    have "w_redis w' = rd_srem R (rd_del R (w_redis w) (sessionKey i)) (userSessionsKey uid) i"
      using execOrThrow_Inr [OF run [unfolded that]]
      by (auto simp: run_queue_ok_Cons simp del: run_queue.simps(2))
    then show ?thesis
      using assms(1) by (simp add: session_views)
  qed
  show "r = Inr () \<and> healthy w'" if "healthy w"
    using run that by (auto simp: execOrThrow_def andthen_def Let_def)
qed

lemma session_deleteAll_laws:
  assumes "sessions_ok val (w_redis w)" and "session_deleteAllForUser R uid w = (r, w')"
  shows "sessions_ok val (w_redis w')" and "w_now w' = w_now w"
    and "r = Inr n \<Longrightarrow> n = card (index_at val (w_redis w) uid) \<and>
      index_at val (w_redis w') = (index_at val (w_redis w))(uid := {}) \<and>
      session_at val (w_redis w') =
        (\<lambda>i. if i \<in> index_at val (w_redis w) uid then None else session_at val (w_redis w) i)"
    and "healthy w \<Longrightarrow> r = Inr (card (index_at val (w_redis w) uid)) \<and> healthy w'"
proof -
  let ?c = "delete_all_script R (userSessionsKey uid) SESSION_PREFIX"
  have call: "redis_call ?c w = (r, w')"
    using assms(2) by (simp add: session_deleteAllForUser_def)
  note refines = delete_all_script_refines [OF assms(1), of uid "fst (?c (w_redis w))" "snd (?c (w_redis w))"]
  show "sessions_ok val (w_redis w')"
    using redis_call_state [OF call] refines(4) assms(1) by auto
  show "w_now w' = w_now w"
    using redis_call_frame [OF call] by simp
  show "n = card (index_at val (w_redis w) uid) \<and>
      index_at val (w_redis w') = (index_at val (w_redis w))(uid := {}) \<and>
      session_at val (w_redis w') =
        (\<lambda>i. if i \<in> index_at val (w_redis w) uid then None else session_at val (w_redis w) i)"
    if "r = Inr n"
    using redis_call_InrD(1) [OF call [unfolded that]] refines(1-3) by auto
  show "r = Inr (card (index_at val (w_redis w) uid)) \<and> healthy w'" if "healthy w"
    using call that refines(1) by (auto split: prod.splits)
qed

end

text \<open>
  So the repository over any Redis server is a \<open>session_store\<close>; with the reference store
  the whole contract has an instance.
\<close>

sublocale redis_server \<subseteq> sess_repo: session_store "session_repo R"
  "\<lambda>w. session_at val (w_redis w)" "\<lambda>w. index_at val (w_redis w)"
  "\<lambda>w. sessions_ok val (w_redis w)" healthy w_now
proof (unfold_locales, simp_all only: session_repo_simps, goal_cases)
  case (1 w i r w')
  then show ?case using session_get_laws(5) by blast
next
  case (2 w i r w')
  then show ?case using session_get_laws(1-4) by blast
next
  case (3 w rec i u w')
  then show ?case using session_create_laws(3) by blast
next
  case (4 w i rec r w')
  then show ?case using session_create_laws(1,2) by blast
next
  case (5 w i uid p out w')
  then show ?case using session_rotate_laws(3) by blast
next
  case (6 w i uid p r w')
  then show ?case using session_rotate_laws(1,2) by blast
next
  case (7 w i uid u w')
  then show ?case using session_delete_laws(3) by blast
next
  case (8 w i uid r w')
  then show ?case using session_delete_laws(1,2) by blast
next
  case (9 w uid n w')
  then show ?case using session_deleteAll_laws(3) by blast
next
  case (10 w uid r w')
  then show ?case using session_deleteAll_laws(1,2) by blast
next
  case (11 w i e w')
  then show ?case using session_get_error by blast
next
  case (12 i rec w e w')
  then show ?case
    using execOrThrow_error by (fastforce simp: session_create_def Let_def act_simps)
next
  case (13 i uid p w e w')
  then show ?case using redis_call_error by (fastforce simp: session_rotate_def)
next
  case (14 i uid w e w')
  then show ?case using execOrThrow_error by (fastforce simp: session_delete_def)
next
  case (15 uid w e w')
  then show ?case using redis_call_error by (fastforce simp: session_deleteAllForUser_def)
next
  case (16 w i)
  then show ?case by (metis session_get_laws(6) surj_pair)
next
  case (17 w rec i)
  then show ?case by (metis session_create_laws(4) surj_pair)
next
  case (18 w i uid p)
  then show ?case by (metis session_rotate_laws(4) surj_pair)
next
  case (19 w i uid)
  then show ?case by (metis session_delete_laws(4) surj_pair)
next
  case (20 w uid)
  then show ?case by (metis session_deleteAll_laws(4) surj_pair)
qed

context redis_server
begin

lemma session_create_full:
  assumes "sessions_ok val (w_redis w)"
    and "w_now w < se_absoluteExpiresAt rec" and "session_create R i rec w = (r, w')"
  shows "case r of
      Inr _ \<Rightarrow> session_at val (w_redis w') = (session_at val (w_redis w))(i \<mapsto> rec) \<and>
        i \<in> index_at val (w_redis w') (se_userId rec) \<and>
        (\<exists>ttl. dl (w_redis w') (sessionKey i) = Some (rd_now R (w_redis w) + ttl * 1000) \<and>
           0 < ttl \<and> ttl \<le> SESSION_IDLE_TTL_SECONDS \<and> ttl * 1000 < se_absoluteExpiresAt rec - w_now w + 1000)
    | Inl e \<Rightarrow> statusCode e = None"
proof (cases r)
  case (Inl e)
  with sess_repo.create_err [unfolded session_repo_simps] assms(3) show ?thesis
    by (auto simp: AppError_status)
next
  case (Inr u)
  note ttl = session_ttl_bounds [OF assms(2)]
  have "dl (w_redis w') (sessionKey i) =
      Some (rd_now R (w_redis w) + session_ttl (se_absoluteExpiresAt rec) (w_now w) * 1000)"
    using session_create_store [OF assms(3) [unfolded Inr] assms(2)] ttl(1)
    by (simp add: views session_constants)
  with ttl session_create_laws(3) [OF assms(1,3,2) Inr] show ?thesis
    by (auto simp: Inr intro!: exI [of _ "session_ttl (se_absoluteExpiresAt rec) (w_now w)"])
qed

end

subsection \<open>Properties\<close>

text \<open>A session and a store that holds it, for the witnesses.\<close>

definition demo_session :: session where
  "demo_session = \<lparr>se_userId = ''u1'', se_role = User, se_refreshTokenHash = ''h1'',
     se_previousRefreshTokenHash = None, se_rotatedAt = None, se_createdAt = 0,
     se_expiresAt = 604800000, se_absoluteExpiresAt = 2592000000\<rparr>"

definition demo_params :: rotate_params where
  "demo_params = \<lparr>rp_presentedHash = ''h1'', rp_newHash = ''h2'', rp_role = Admin, rp_now = 1000\<rparr>"

definition demo_store :: ref_store where
  "demo_store = rd_sadd ref_redis
     (rd_set ref_redis ref_init (sessionKey ''s1'') (Json (session_json demo_session)) 604800)
     (userSessionsKey ''u1'') ''s1''"

lemma ref_init_ok: "sessions_ok ref_value ref_init"
  by (simp add: sessions_ok_def ref_value_def ref_look_def ref_init_def)

lemma demo_store_ok: "sessions_ok ref_value demo_store"
  unfolding demo_store_def
  by (intro ref_server.sessions_ok_updates ref_init_ok) simp

lemma demo_store_session: "session_at ref_value demo_store = (\<lambda>i. if i = ''s1'' then Some demo_session else None)"
proof -
  have "sessions_ok ref_value
      (rd_set ref_redis ref_init (sessionKey ''s1'') (Json (session_json demo_session)) 604800)"
    by (intro ref_server.sessions_ok_updates ref_init_ok) simp
  moreover have "session_at ref_value ref_init = (\<lambda>_. None)"
    by (simp add: session_at_def ref_value_def ref_look_def ref_init_def fun_eq_iff)
  ultimately show ?thesis
    by (simp add: demo_store_def ref_server.session_views fun_eq_iff del: ref_redis_simps)
qed

text \<open>
  C1. The rotation script, run atomically by any Redis server with the documented commands on
  well-formed session keys, is exactly the compare-and-swap \<open>rotate_spec\<close>: its answer is
  the specified outcome (rotated, concurrent, reused, missing), it changes the one session as
  specified, it removes the id from the user's index exactly when the session goes away, and
  session keys stay well formed.
\<close>

theorem rotation_refines_spec:
  assumes "redis_server R val dl" and "sessions_ok val st"
    and "rotate_script R (sessionKey i) (userSessionsKey u) (rp_presentedHash p) (rp_newHash p)
        (rp_role p) (rp_now p) REFRESH_GRACE_PERIOD_MS SESSION_IDLE_TTL_SECONDS i st = (r, st')"
  shows "r = Inr (fst (rotate_spec (session_at val st i) p)) \<and>
    session_at val st' = (session_at val st)(i := snd (rotate_spec (session_at val st i) p)) \<and>
    index_at val st' =
      (if session_at val st i \<noteq> None \<and> session_at val st' i = None
       then (index_at val st)(u := index_at val st u - {i}) else index_at val st) \<and>
    sessions_ok val st'"
  using redis_server.rotate_script_refines [OF assms] by blast

lemma rotation_refines_spec_witness:
  "fst (rotate_script ref_redis (sessionKey ''s1'') (userSessionsKey ''u1'') ''h1'' ''h2'' Admin 1000
     REFRESH_GRACE_PERIOD_MS SESSION_IDLE_TTL_SECONDS ''s1'' demo_store) = Inr Rotated"
  using rotation_refines_spec [OF ref_server.redis_server_axioms demo_store_ok, of "''s1''" "''u1''" demo_params]
  by (simp add: demo_params_def demo_store_session rotate_spec_def rotate_decision_def demo_session_def
      case_prod_unfold prod_eq_iff split: prod.splits)

text \<open>
  Creating a session is not acknowledged half done: when \<open>create\<close> returns, although each
  queued command may fail on its own, the session is stored with an expiry of at most seven
  days that covers no more than its absolute lifetime rounded up to a second, its id is in
  the user's index, and no other session has changed. What it throws is never a client error.
\<close>

theorem session_create_complete:
  assumes "redis_server R val dl" and "sessions_ok val (w_redis w)"
    and "w_now w < se_absoluteExpiresAt rec" and "session_create R i rec w = (r, w')"
  shows "case r of
      Inr _ \<Rightarrow> session_at val (w_redis w') = (session_at val (w_redis w))(i \<mapsto> rec) \<and>
        i \<in> index_at val (w_redis w') (se_userId rec) \<and>
        (\<exists>ttl. dl (w_redis w') (sessionKey i) = Some (rd_now R (w_redis w) + ttl * 1000) \<and>
           0 < ttl \<and> ttl \<le> SESSION_IDLE_TTL_SECONDS \<and> ttl * 1000 < se_absoluteExpiresAt rec - w_now w + 1000)
    | Inl e \<Rightarrow> statusCode e = None"
  by (rule redis_server.session_create_full [OF assms])

lemma session_create_complete_witness:
  "session_at ref_value (w_redis (snd (session_create ref_redis ''s1'' demo_session
     \<lparr>w_redis = ref_init, w_pg = (), w_now = 0, w_random = (\<lambda>_. []), w_drawn = 0, w_faults = []\<rparr>))) ''s1'' =
     Some demo_session"
proof -
  let ?w = "\<lparr>w_redis = ref_init, w_pg = (), w_now = 0, w_random = (\<lambda>_. []), w_drawn = 0, w_faults = []\<rparr>"
  have "\<exists>w'. session_create ref_redis ''s1'' demo_session ?w = (Inr (), w')"
    using ref_server.session_create_laws(4) [of ?w "''s1''" demo_session, OF _ surjective_pairing] ref_init_ok
    by (simp add: healthy_def demo_session_def) (metis surjective_pairing)
  then obtain w' where run: "session_create ref_redis ''s1'' demo_session ?w = (Inr (), w')"
    by blast
  have "w_now ?w < se_absoluteExpiresAt demo_session"
    by (simp add: demo_session_def)
  from session_create_complete [OF ref_server.redis_server_axioms _ this run] ref_init_ok show ?thesis
    by (simp add: run)
qed

text \<open>
  A created session reads back as it was, optional fields included: on a reachable server the
  creation succeeds, and a lookup of its id right after it gives exactly the record that was
  written as JSON.
\<close>

theorem stored_session_roundtrip:
  assumes "redis_server R val dl" and "sessions_ok val (w_redis w)" and "healthy w"
    and "w_now w < se_absoluteExpiresAt rec"
  shows "\<exists>w1 w2. session_create R i rec w = (Inr (), w1) \<and> session_get R i w1 = (Inr (Some rec), w2)"
proof -
  obtain w1 where run: "session_create R i rec w = (Inr (), w1)" and up: "healthy w1"
    using redis_server.session_create_laws(4) [OF assms(1,2) surjective_pairing assms(4,3)]
    by (metis prod.collapse)
  note c = redis_server.session_create_laws(1,3) [OF assms(1,2) run]
  have "session_at val (w_redis w1) i = Some rec"
    using c(2) [OF assms(4) refl] by simp
  with redis_server.session_get_laws(6) [OF assms(1) c(1) surjective_pairing up, of i] run show ?thesis
    by (metis prod.collapse)
qed

lemma stored_session_roundtrip_witness:
  "\<exists>w1 w2. session_create ref_redis ''s1'' (demo_session\<lparr>se_previousRefreshTokenHash := Some ''h0'', se_rotatedAt := Some 1\<rparr>)
     \<lparr>w_redis = ref_init, w_pg = (), w_now = 0, w_random = (\<lambda>_. []), w_drawn = 0, w_faults = []\<rparr> = (Inr (), w1) \<and>
   map_option se_rotatedAt (projr (fst (session_get ref_redis ''s1'' w1))) = Some (Some 1)"
  using stored_session_roundtrip [OF ref_server.redis_server_axioms,
      of "\<lparr>w_redis = ref_init, w_pg = (), w_now = 0, w_random = (\<lambda>_. []), w_drawn = 0, w_faults = []\<rparr>"
        "demo_session\<lparr>se_previousRefreshTokenHash := Some ''h0'', se_rotatedAt := Some 1\<rparr>" "''s1''"] ref_init_ok
  by (auto simp: healthy_def demo_session_def)

end
