(* ===== verification/LoginThrottle.thy ===== *)
theory LoginThrottle
  imports Redis_Reference
begin

section \<open>The per-account login throttle\<close>

text \<open>
  \<open>src/services/LoginThrottle.ts\<close>: a failure counter and a lock per normalised user name.
  The script that records a failure is a function on the server state; the constructor's
  defaults are \<open>LoginThrottle_new\<close>. The second half is the contract the login relies on.
\<close>

record throttle_overrides =
  to_freeAttempts :: "int option"
  to_baseDelaySeconds :: "int option"
  to_maxDelaySeconds :: "int option"
  to_failureWindowSeconds :: "int option"

record throttle =
  freeAttempts :: int
  baseDelaySeconds :: int
  maxDelaySeconds :: int
  failureWindowSeconds :: int

definition js_default :: "'a option \<Rightarrow> 'a \<Rightarrow> 'a" where
  "js_default x d = (case x of None \<Rightarrow> d | Some v \<Rightarrow> v)"

definition LoginThrottle_new :: "throttle_overrides \<Rightarrow> throttle" where
  "LoginThrottle_new opts =
     \<lparr>freeAttempts = js_default (to_freeAttempts opts) 5,
      baseDelaySeconds = js_default (to_baseDelaySeconds opts) 1,
      maxDelaySeconds = js_default (to_maxDelaySeconds opts) (15 * 60),
      failureWindowSeconds = js_default (to_failureWindowSeconds opts) (15 * 60)\<rparr>"

definition no_overrides :: throttle_overrides where
  "no_overrides = \<lparr>to_freeAttempts = None, to_baseDelaySeconds = None,
     to_maxDelaySeconds = None, to_failureWindowSeconds = None\<rparr>"

definition default_throttle :: throttle where
  "default_throttle = LoginThrottle_new no_overrides"

lemma default_throttle_simps [simp]:
  "freeAttempts default_throttle = 5"
  "baseDelaySeconds default_throttle = 1"
  "maxDelaySeconds default_throttle = 900"
  "failureWindowSeconds default_throttle = 900"
  by (simp_all add: default_throttle_def LoginThrottle_new_def no_overrides_def js_default_def)

text \<open>A configuration the script accepts: it never computes a delay or window below a second.\<close>

definition throttle_valid :: "throttle \<Rightarrow> bool" where
  "throttle_valid th \<longleftrightarrow>
     1 \<le> baseDelaySeconds th \<and> 1 \<le> maxDelaySeconds th \<and> 1 \<le> failureWindowSeconds th"

lemma default_throttle_valid [simp]: "throttle_valid default_throttle"
  by (simp add: throttle_valid_def)

definition normalize :: "string \<Rightarrow> string" where
  "normalize username = js_toLowerCase (js_trim username)"

definition failuresKey :: "string \<Rightarrow> string" where
  "failuresKey username = ''login:failures:'' @ normalize username"

definition lockKey :: "string \<Rightarrow> string" where
  "lockKey username = ''login:lock:'' @ normalize username"

lemma throttle_keys [simp]:
  "failuresKey a = failuresKey b \<longleftrightarrow> normalize a = normalize b"
  "lockKey a = lockKey b \<longleftrightarrow> normalize a = normalize b"
  "failuresKey a \<noteq> lockKey b" "lockKey b \<noteq> failuresKey a"
  by (simp_all add: failuresKey_def lockKey_def)

text \<open>
  The delay of the script: \<open>math.floor(math.min(base * 2 ^ (excess - 1), max))\<close>, in integers,
  where doubling is exact.
\<close>

definition throttle_delay :: "int \<Rightarrow> int \<Rightarrow> int \<Rightarrow> int" where
  "throttle_delay base mx excess = min (base * 2 ^ nat (excess - 1)) mx"

text \<open>\<open>RECORD_FAILURE_SCRIPT\<close>.\<close>

definition record_failure_script ::
  "'r redis \<Rightarrow> string \<Rightarrow> string \<Rightarrow> int \<Rightarrow> int \<Rightarrow> int \<Rightarrow> int \<Rightarrow> 'r \<Rightarrow> (string + int) \<times> 'r" where
  "record_failure_script R key1 key2 window free base mx st =
     (let (failures, st1) = rd_incr R st key1;
          st2 = (if failures = 1 then rd_expire R st1 key1 window else st1);
          excess = failures - free
      in if 0 < excess then
           (case cmd_set R key2 (Json (JNum 1)) (throttle_delay base mx excess) st2 of
              (Inl e, st3) \<Rightarrow> (Inl e, st3)
            | (Inr u, st3) \<Rightarrow> (Inr failures, st3))
         else (Inr failures, st2))"

definition assertNotThrottled :: "'r redis \<Rightarrow> string \<Rightarrow> (('r, 'p) world, exn, unit) act" where
  "assertNotThrottled R username =
     andthen (redis_call (\<lambda>st. (Inr (rd_ttl R st (lockKey username)), st))) (\<lambda>ttl.
       if 0 < ttl then raise (TooManyRequestsError
         ''Too many failed login attempts for this account. Please try again later.'' ttl)
       else ret ())"

definition recordFailure :: "'r redis \<Rightarrow> throttle \<Rightarrow> string \<Rightarrow> (('r, 'p) world, exn, unit) act" where
  "recordFailure R th username =
     andthen (redis_call (record_failure_script R (failuresKey username) (lockKey username)
         (failureWindowSeconds th) (freeAttempts th) (baseDelaySeconds th) (maxDelaySeconds th)))
       (\<lambda>_. ret ())"

text \<open>\<open>DEL\<close> with both keys is one command.\<close>

definition throttle_reset :: "'r redis \<Rightarrow> string \<Rightarrow> (('r, 'p) world, exn, unit) act" where
  "throttle_reset R username =
     redis_call (\<lambda>st. (Inr (), rd_del R (rd_del R st (failuresKey username)) (lockKey username)))"

subsection \<open>The contract\<close>

text \<open>
  The interface of the throttle: \<open>fails w b\<close> is the number of failures counted for the
  bucket \<open>b\<close> (a normalised name), \<open>lock w b\<close> the time its lock ends. Only failed logins
  and resets change them, one bucket at a time, and \<open>assert\<close> only reads.
\<close>

record 'w throttle_ops =
  th_assert :: "string \<Rightarrow> ('w, exn, unit) act"
  th_record :: "string \<Rightarrow> ('w, exn, unit) act"
  th_reset :: "string \<Rightarrow> ('w, exn, unit) act"

text \<open>The lock that the \<open>n\<close>-th failure at time \<open>t\<close> leaves, if it leaves a new one.\<close>

definition lock_after :: "throttle \<Rightarrow> int \<Rightarrow> int \<Rightarrow> int option \<Rightarrow> int option" where
  "lock_after th n t old =
     (if freeAttempts th < n
      then Some (t + throttle_delay (baseDelaySeconds th) (maxDelaySeconds th) (n - freeAttempts th) * 1000)
      else old)"

locale login_throttle =
  fixes T :: "'w throttle_ops"
    and th :: throttle
    and fails :: "'w \<Rightarrow> string \<Rightarrow> int"
    and lock :: "'w \<Rightarrow> string \<Rightarrow> int option"
    and tok :: "'w \<Rightarrow> bool"
    and tup :: "'w \<Rightarrow> bool"
    and tclock :: "'w \<Rightarrow> int"
  assumes assert_pass: "tok w \<Longrightarrow> th_assert T u w = (Inr x, w') \<Longrightarrow> lock w (normalize u) = Some d \<Longrightarrow>
          d < tclock w + 1000"
    and assert_frame: "tok w \<Longrightarrow> th_assert T u w = (r, w') \<Longrightarrow>
          fails w' = fails w \<and> lock w' = lock w \<and> tok w' \<and> tclock w' = tclock w"
    and assert_fail: "tok w \<Longrightarrow> tup w \<Longrightarrow> lock w (normalize u) = Some d \<Longrightarrow> tclock w + 1000 \<le> d \<Longrightarrow>
          \<exists>m t w'. th_assert T u w = (Inl (TooManyRequestsError m t), w') \<and> 0 < t \<and> tup w'"
    and assert_open: "tok w \<Longrightarrow> tup w \<Longrightarrow> lock w (normalize u) = None \<Longrightarrow>
          \<exists>w'. th_assert T u w = (Inr (), w') \<and> tup w'"
    and rec: "tok w \<Longrightarrow> th_record T u w = (Inr x, w') \<Longrightarrow>
          fails w' = (fails w)(normalize u := fails w (normalize u) + 1) \<and>
          lock w' = (lock w)(normalize u :=
            lock_after th (fails w (normalize u) + 1) (tclock w) (lock w (normalize u)))"
    and rec_ok: "tok w \<Longrightarrow> th_record T u w = (r, w') \<Longrightarrow> tok w' \<and> tclock w' = tclock w"
    and assert_err: "th_assert T u w = (Inl e, w') \<Longrightarrow> is_AppError e \<Longrightarrow> \<exists>m t. e = TooManyRequestsError m t"
    and rec_err: "th_record T u w = (Inl e, w') \<Longrightarrow> \<not> is_AppError e"
    and reset_err: "th_reset T u w = (Inl e, w') \<Longrightarrow> \<not> is_AppError e"
    and rec_up: "tok w \<Longrightarrow> tup w \<Longrightarrow> \<exists>w'. th_record T u w = (Inr (), w') \<and> tup w'"
    and reset: "tok w \<Longrightarrow> th_reset T u w = (Inr x, w') \<Longrightarrow>
          fails w' = (fails w)(normalize u := 0) \<and> lock w' = (lock w)(normalize u := None)"
    and reset_ok: "tok w \<Longrightarrow> th_reset T u w = (r, w') \<Longrightarrow> tok w' \<and> tclock w' = tclock w"
    and reset_up: "tok w \<Longrightarrow> tup w \<Longrightarrow> \<exists>w'. th_reset T u w = (Inr (), w') \<and> tup w'"
begin

text \<open>A reset opens the account at once.\<close>

lemma reset_then_open:
  assumes "tok w" and "tup w"
  shows "\<exists>w1 w2. th_reset T u w = (Inr (), w1) \<and> th_assert T u w1 = (Inr (), w2)"
proof -
  obtain w1 where w1: "th_reset T u w = (Inr (), w1)" "tup w1"
    using reset_up [OF assms] by blast
  then have "lock w1 (normalize u) = None" "tok w1"
    using reset [OF assms(1) w1(1)] reset_ok [OF assms(1) w1(1)] by auto
  with assert_open w1 show ?thesis by blast
qed

end

subsection \<open>The throttle over a Redis server\<close>

definition throttle_service :: "'r redis \<Rightarrow> throttle \<Rightarrow> ('r, 'p) world throttle_ops" where
  "throttle_service R th =
     \<lparr>th_assert = assertNotThrottled R, th_record = recordFailure R th, th_reset = throttle_reset R\<rparr>"

lemma throttle_service_simps [simp]:
  "th_assert (throttle_service R th) = assertNotThrottled R"
  "th_record (throttle_service R th) = recordFailure R th"
  "th_reset (throttle_service R th) = throttle_reset R"
  by (simp_all add: throttle_service_def)

definition failures_at :: "('r \<Rightarrow> string \<Rightarrow> rval option) \<Rightarrow> 'r \<Rightarrow> string \<Rightarrow> int" where
  "failures_at val st b = (case val st (''login:failures:'' @ b) of
     Some (VText (Json (JNum n))) \<Rightarrow> n | _ \<Rightarrow> 0)"

definition lock_at :: "('r \<Rightarrow> string \<Rightarrow> int option) \<Rightarrow> 'r \<Rightarrow> string \<Rightarrow> int option" where
  "lock_at dl st b = dl st (''login:lock:'' @ b)"

text \<open>
  The type invariant: a counter is a positive number and, like a lock, always has an expiry
  time: the script leaves no counter behind that would throttle an account for ever.
\<close>

definition counter_ok :: "rval option \<Rightarrow> int option \<Rightarrow> bool" where
  "counter_ok v d \<longleftrightarrow> v = None \<or> (\<exists>n x. v = Some (VText (Json (JNum n))) \<and> 1 \<le> n \<and> d = Some x)"

definition throttle_ok ::
  "('r \<Rightarrow> string \<Rightarrow> rval option) \<Rightarrow> ('r \<Rightarrow> string \<Rightarrow> int option) \<Rightarrow> 'r \<Rightarrow> bool" where
  "throttle_ok val dl st \<longleftrightarrow>
     (\<forall>b. counter_ok (val st (''login:failures:'' @ b)) (dl st (''login:failures:'' @ b))) \<and>
     (\<forall>b. val st (''login:lock:'' @ b) \<noteq> None \<longrightarrow> dl st (''login:lock:'' @ b) \<noteq> None)"

lemma throttle_delay_pos: "1 \<le> base \<Longrightarrow> 1 \<le> mx \<Longrightarrow> 1 \<le> throttle_delay base mx e"
  using mult_mono [of 1 base 1 "2 ^ nat (e - 1)"] by (simp add: throttle_delay_def)

lemma throttle_delay_le: "throttle_delay base mx e \<le> mx"
  by (simp add: throttle_delay_def)

context redis_server
begin

lemma record_failure_views:
  assumes ok: "throttle_ok val dl st" and valid: "throttle_valid th"
    and run: "record_failure_script R (failuresKey u) (lockKey u) (failureWindowSeconds th)
        (freeAttempts th) (baseDelaySeconds th) (maxDelaySeconds th) st = (r, st')"
  shows "r = Inr (failures_at val st (normalize u) + 1)"
    and "failures_at val st' = (failures_at val st)(normalize u := failures_at val st (normalize u) + 1)"
    and "lock_at dl st' = (lock_at dl st)(normalize u :=
      lock_after th (failures_at val st (normalize u) + 1) (rd_now R st) (lock_at dl st (normalize u)))"
    and "throttle_ok val dl st'"
    and "dl st' (failuresKey u) = (if failures_at val st (normalize u) = 0
      then Some (rd_now R st + failureWindowSeconds th * 1000) else dl st (failuresKey u))"
    and "rd_now R st' = rd_now R st"
proof -
  let ?n = "failures_at val st (normalize u)"
  let ?st1 = "snd (rd_incr R st (failuresKey u))"
  define s2 where "s2 = (if ?n = 0 then rd_expire R ?st1 (failuresKey u) (failureWindowSeconds th) else ?st1)"
  let ?delay = "throttle_delay (baseDelaySeconds th) (maxDelaySeconds th) (?n + 1 - freeAttempts th)"
  have counter: "counter_ok (val st (failuresKey u)) (dl st (failuresKey u))"
    using ok by (simp add: throttle_ok_def failuresKey_def)
  have n: "?n = (case val st (failuresKey u) of Some (VText (Json (JNum n))) \<Rightarrow> n | _ \<Rightarrow> 0)"
    by (simp add: failures_at_def failuresKey_def)
  have incr: "fst (rd_incr R st (failuresKey u)) = ?n + 1"
    "val ?st1 = (val st)(failuresKey u \<mapsto> VText (Json (JNum (?n + 1))))" "0 \<le> ?n"
    "?n = 0 \<longleftrightarrow> val st (failuresKey u) = None" "?n \<noteq> 0 \<Longrightarrow> dl st (failuresKey u) \<noteq> None"
    using counter incr_new [of st "failuresKey u"] incr_old [of st "failuresKey u"]
    by (auto simp: n counter_ok_def)
  have pos: "0 < failureWindowSeconds th" "0 < ?delay"
    using valid throttle_delay_pos [of "baseDelaySeconds th" "maxDelaySeconds th" "?n + 1 - freeAttempts th"]
    by (auto simp: throttle_valid_def)
  have st2: "val s2 = (val st)(failuresKey u \<mapsto> VText (Json (JNum (?n + 1))))"
    "dl s2 = (if ?n = 0 then (dl st)(failuresKey u \<mapsto> rd_now R st + failureWindowSeconds th * 1000)
                else dl st)" "rd_now R s2 = rd_now R st"
    using pos incr by (auto simp: views s2_def)
  have out: "(r, st') = (Inr (?n + 1),
     if freeAttempts th < ?n + 1 then rd_set R s2 (lockKey u) (Json (JNum 1)) ?delay else s2)"
    using run pos incr(1)
    by (simp add: record_failure_script_def cmd_set_def Let_def case_prod_unfold s2_def split: if_splits)
  show "r = Inr (?n + 1)"
    using out by simp
  have val': "val st' = (if freeAttempts th < ?n + 1
      then (val st)(failuresKey u \<mapsto> VText (Json (JNum (?n + 1))), lockKey u \<mapsto> VText (Json (JNum 1)))
      else (val st)(failuresKey u \<mapsto> VText (Json (JNum (?n + 1)))))"
    using out pos by (auto simp: val_set [OF pos(2)] st2)
  have dl': "dl st' = (if freeAttempts th < ?n + 1
      then (dl s2)(lockKey u \<mapsto> rd_now R st + ?delay * 1000) else dl s2)"
    using out pos by (auto simp: dl_set [OF pos(2)] st2(3))
  show "rd_now R st' = rd_now R st"
    using out pos st2(3) by (auto simp: now_set)
  show "failures_at val st' = (failures_at val st)(normalize u := ?n + 1)"
    by (auto simp: failures_at_def val' failuresKey_def lockKey_def fun_eq_iff)
  show "lock_at dl st' = (lock_at dl st)(normalize u :=
      lock_after th (?n + 1) (rd_now R st) (lock_at dl st (normalize u)))"
    by (auto simp: lock_at_def lock_after_def dl' st2(2) failuresKey_def lockKey_def fun_eq_iff)
  show "dl st' (failuresKey u) = (if ?n = 0
      then Some (rd_now R st + failureWindowSeconds th * 1000) else dl st (failuresKey u))"
    using st2(2) by (simp add: dl')
  show "throttle_ok val dl st'"
    using ok incr(3,4,5) unfolding throttle_ok_def counter_ok_def
    by (auto simp: val' dl' st2(2) failuresKey_def lockKey_def)
qed

lemma throttle_ok_del:
  assumes "throttle_ok val dl st"
  shows "throttle_ok val dl (rd_del R st k)"
  using assms by (auto simp: throttle_ok_def counter_ok_def views)

lemma reset_views:
  "failures_at val (rd_del R (rd_del R st (failuresKey u)) (lockKey u)) =
     (failures_at val st)(normalize u := 0)"
  "lock_at dl (rd_del R (rd_del R st (failuresKey u)) (lockKey u)) = (lock_at dl st)(normalize u := None)"
  by (auto simp: failures_at_def lock_at_def views failuresKey_def lockKey_def fun_eq_iff)

text \<open>What \<open>TTL\<close> says of a lock.\<close>

lemma lock_ttl:
  assumes "throttle_ok val dl st"
  shows "lock_at dl st (normalize u) = None \<Longrightarrow> rd_ttl R st (lockKey u) \<le> 0"
    and "lock_at dl st (normalize u) = Some d \<Longrightarrow> rd_ttl R st (lockKey u) \<le> 0 \<Longrightarrow> d < rd_now R st + 1000"
    and "lock_at dl st (normalize u) = Some d \<Longrightarrow> rd_now R st + 1000 \<le> d \<Longrightarrow> 0 < rd_ttl R st (lockKey u)"
proof -
  have key: "lock_at dl st (normalize u) = dl st (lockKey u)"
    by (simp add: lock_at_def lockKey_def)
  show "rd_ttl R st (lockKey u) \<le> 0" if "lock_at dl st (normalize u) = None"
    using ttl_positive_iff_locked(2) [of st "lockKey u"] that by (force simp: key)
  show "d < rd_now R st + 1000"
    if "lock_at dl st (normalize u) = Some d" "rd_ttl R st (lockKey u) \<le> 0"
    using ttl_positive [of st "lockKey u" d] that by (force simp: key)
  show "0 < rd_ttl R st (lockKey u)"
    if "lock_at dl st (normalize u) = Some d" "rd_now R st + 1000 \<le> d"
    using ttl_positive [of st "lockKey u" d] that by (simp add: key)
qed

text \<open>The check as a whole: it reads, and answers by the lock's remaining time.\<close>

lemma assert_laws:
  assumes "throttle_ok val dl (w_redis w)" and "assertNotThrottled R u w = (r, w')"
  shows "w_redis w' = w_redis w" and "w_now w' = w_now w"
    and "r = Inr x \<Longrightarrow> rd_ttl R (w_redis w) (lockKey u) \<le> 0"
    and "r = Inl (TooManyRequestsError m t) \<Longrightarrow> t = rd_ttl R (w_redis w) (lockKey u) \<and> 0 < t"
    and "healthy w \<Longrightarrow> healthy w' \<and> r = (if 0 < rd_ttl R (w_redis w) (lockKey u)
      then Inl (TooManyRequestsError ''Too many failed login attempts for this account. Please try again later.''
             (rd_ttl R (w_redis w) (lockKey u))) else Inr ())"
proof -
  let ?c = "\<lambda>st. (Inr (rd_ttl R st (lockKey u)), st)"
  obtain r0 where call: "redis_call ?c w = (r0, w')"
    using assms(2) by (auto simp: assertNotThrottled_def andthen_def split: prod.splits sum.splits if_splits)
  show "w_redis w' = w_redis w" and "w_now w' = w_now w"
    using redis_call_state [OF call] redis_call_frame [OF call] by auto
  have val0: "r0 = Inr y \<Longrightarrow> y = rd_ttl R (w_redis w) (lockKey u)" for y
    using redis_call_InrD(1) [of ?c w] call by auto
  with call assms(2) show "r = Inr x \<Longrightarrow> rd_ttl R (w_redis w) (lockKey u) \<le> 0"
    by (cases r0) (auto simp: assertNotThrottled_def andthen_def split: if_splits)
  show "r = Inl (TooManyRequestsError m t) \<Longrightarrow> t = rd_ttl R (w_redis w) (lockKey u) \<and> 0 < t"
    using call assms(2) val0 redis_call_error [of ?c w]
    by (cases r0) (auto simp: assertNotThrottled_def andthen_def split: if_splits)
  show "healthy w \<Longrightarrow> healthy w' \<and> r = (if 0 < rd_ttl R (w_redis w) (lockKey u)
      then Inl (TooManyRequestsError ''Too many failed login attempts for this account. Please try again later.''
             (rd_ttl R (w_redis w) (lockKey u))) else Inr ())"
    using assms(2) by (auto simp: assertNotThrottled_def andthen_def)
qed

lemma record_laws:
  assumes "throttle_ok val dl (w_redis w)" and "throttle_valid th"
    and "recordFailure R th u w = (r, w')"
  shows "throttle_ok val dl (w_redis w')" and "w_now w' = w_now w"
    and "rd_now R (w_redis w') = rd_now R (w_redis w)"
    and "r = Inr x \<Longrightarrow> failures_at val (w_redis w') = (failures_at val (w_redis w))
        (normalize u := failures_at val (w_redis w) (normalize u) + 1) \<and>
      lock_at dl (w_redis w') = (lock_at dl (w_redis w))(normalize u :=
        lock_after th (failures_at val (w_redis w) (normalize u) + 1) (rd_now R (w_redis w))
          (lock_at dl (w_redis w) (normalize u)))"
    and "healthy w \<Longrightarrow> r = Inr () \<and> healthy w'"
proof -
  let ?c = "record_failure_script R (failuresKey u) (lockKey u)
         (failureWindowSeconds th) (freeAttempts th) (baseDelaySeconds th) (maxDelaySeconds th)"
  obtain r0 where call: "redis_call ?c w = (r0, w')" and r0: "(r = Inr x \<Longrightarrow> \<exists>y. r0 = Inr y)"
    using assms(3) by (auto simp: recordFailure_def andthen_def split: prod.splits sum.splits)
  note vw = record_failure_views [OF assms(1,2), of u "fst (?c (w_redis w))" "snd (?c (w_redis w))"]
  show "throttle_ok val dl (w_redis w')" and "rd_now R (w_redis w') = rd_now R (w_redis w)"
    using redis_call_state [OF call] vw(4,6) assms(1) by auto
  show "w_now w' = w_now w"
    using redis_call_frame [OF call] by simp
  show "r = Inr x \<Longrightarrow> failures_at val (w_redis w') = (failures_at val (w_redis w))
        (normalize u := failures_at val (w_redis w) (normalize u) + 1) \<and>
      lock_at dl (w_redis w') = (lock_at dl (w_redis w))(normalize u :=
        lock_after th (failures_at val (w_redis w) (normalize u) + 1) (rd_now R (w_redis w))
          (lock_at dl (w_redis w) (normalize u)))"
    using r0 redis_call_InrD(1) [of ?c w] call vw(2,3) by fastforce
  show "healthy w \<Longrightarrow> r = Inr () \<and> healthy w'"
    using assms(3) vw(1) by (auto simp: recordFailure_def andthen_def split: prod.splits)
qed

lemma reset_laws:
  assumes "throttle_ok val dl (w_redis w)" and "throttle_reset R u w = (r, w')"
  shows "throttle_ok val dl (w_redis w')" and "w_now w' = w_now w"
    and "rd_now R (w_redis w') = rd_now R (w_redis w)"
    and "r = Inr x \<Longrightarrow> failures_at val (w_redis w') = (failures_at val (w_redis w))(normalize u := 0) \<and>
      lock_at dl (w_redis w') = (lock_at dl (w_redis w))(normalize u := None)"
    and "healthy w \<Longrightarrow> r = Inr () \<and> healthy w'"
proof -
  let ?c = "\<lambda>st. (Inr (), rd_del R (rd_del R st (failuresKey u)) (lockKey u))"
  have call: "redis_call ?c w = (r, w')"
    using assms(2) by (simp add: throttle_reset_def)
  show "throttle_ok val dl (w_redis w')" and "rd_now R (w_redis w') = rd_now R (w_redis w)"
    using redis_call_state [OF call] assms(1) by (auto simp: throttle_ok_del now_del)
  show "w_now w' = w_now w"
    using redis_call_frame [OF call] by simp
  show "r = Inr x \<Longrightarrow> failures_at val (w_redis w') = (failures_at val (w_redis w))(normalize u := 0) \<and>
      lock_at dl (w_redis w') = (lock_at dl (w_redis w))(normalize u := None)"
    using redis_call_InrD(1) [of ?c w] call reset_views [of "w_redis w" u] by auto
  show "healthy w \<Longrightarrow> r = Inr () \<and> healthy w'"
    using call by auto
qed

end

locale redis_throttle = redis_server +
  fixes th :: throttle
  assumes valid: "throttle_valid th"

sublocale redis_throttle \<subseteq> thr: login_throttle "throttle_service R th" th
  "\<lambda>w. failures_at val (w_redis w)" "\<lambda>w. lock_at dl (w_redis w)"
  "\<lambda>w. throttle_ok val dl (w_redis w)" healthy "\<lambda>w. rd_now R (w_redis w)"
proof (unfold_locales, simp_all only: throttle_service_simps, goal_cases)
  case (1 w u x w' d)
  then show ?case
    using assert_laws(1,3) lock_ttl(2) by metis
next
  case (2 w u r w')
  then show ?case using assert_laws(1) by metis
next
  case (3 w u d)
  then have "0 < rd_ttl R (w_redis w) (lockKey u)"
    using lock_ttl(3) by blast
  with 3 show ?case by (metis assert_laws(5) surj_pair)
next
  case (4 w u)
  then have "\<not> 0 < rd_ttl R (w_redis w) (lockKey u)"
    using lock_ttl(1) by (simp add: not_less)
  with 4 show ?case by (metis assert_laws(5) surj_pair)
next
  case (5 w u x w')
  then show ?case using record_laws(4) [OF 5(1) valid 5(2)] by blast
next
  case (6 w u r w')
  then show ?case using record_laws(1,3) [OF 6(1) valid 6(2)] by blast
next
  case (7 u w e w')
  then show ?case
    using redis_call_error by (fastforce simp: assertNotThrottled_def andthen_eq_Inl_iff split: if_splits)
next
  case (8 u w e w')
  then show ?case
    using redis_call_error by (fastforce simp: recordFailure_def andthen_eq_Inl_iff)
next
  case (9 u w e w')
  then show ?case using redis_call_error by (fastforce simp: throttle_reset_def)
next
  case (10 w u)
  then show ?case by (metis record_laws(5) valid surj_pair)
next
  case (11 w u x w')
  then show ?case using reset_laws(4) by blast
next
  case (12 w u r w')
  then show ?case using reset_laws(1,3) by blast
next
  case (13 w u)
  then show ?case by (metis reset_laws(5) surj_pair)
qed

interpretation ref_throttle: redis_throttle ref_redis ref_value ref_dl default_throttle
  by unfold_locales simp

subsection \<open>Properties\<close>

text \<open>
  C14. One run of the failure script: it counts the failure and answers the new count; the
  counter of a first failure expires when the window ends, later ones leave its expiry alone;
  beyond the free attempts the account is locked for the exponential delay, capped; and no
  counter or lock is left without an expiry.
\<close>

theorem failure_is_counted:
  assumes "redis_server R val dl" and "throttle_ok val dl st" and "throttle_valid th"
    and "record_failure_script R (failuresKey u) (lockKey u) (failureWindowSeconds th)
        (freeAttempts th) (baseDelaySeconds th) (maxDelaySeconds th) st = (r, st')"
  shows "let n = failures_at val st (normalize u) + 1 in
    r = Inr n \<and> failures_at val st' = (failures_at val st)(normalize u := n) \<and>
    dl st' (failuresKey u) = (if n = 1 then Some (rd_now R st + failureWindowSeconds th * 1000)
      else dl st (failuresKey u)) \<and>
    lock_at dl st' = (lock_at dl st)(normalize u :=
      (if freeAttempts th < n then Some (rd_now R st +
          min (baseDelaySeconds th * 2 ^ nat (n - freeAttempts th - 1)) (maxDelaySeconds th) * 1000)
       else lock_at dl st (normalize u))) \<and>
    throttle_ok val dl st'"
  using redis_server.record_failure_views [OF assms]
  by (simp add: Let_def lock_after_def throttle_delay_def)

lemma failure_is_counted_witness:
  "fst (record_failure_script ref_redis (failuresKey ''bob'') (lockKey ''bob'') 900 5 1 900 ref_init) = Inr 1"
proof -
  have "throttle_ok ref_value ref_dl ref_init" "failures_at ref_value ref_init (normalize ''bob'') = 0"
    by (simp_all add: throttle_ok_def counter_ok_def failures_at_def ref_value_def ref_dl_def ref_look_def ref_init_def)
  with failure_is_counted [OF ref_server.redis_server_axioms _ default_throttle_valid surjective_pairing, of ref_init "''bob''"]
  show ?thesis by (simp add: Let_def)
qed

end
