(* ===== verification/TokenService.thy ===== *)
theory TokenService
  imports World
begin

section \<open>Tokens\<close>

text \<open>
  \<open>src/services/TokenService.ts\<close>. \<open>jsonwebtoken\<close> and SHA-256 are parameters: \<open>J\<close> signs
  and verifies at a time, \<open>sha\<close> hashes. What the program relies on is the locale
  \<open>jwt_library\<close>: a token is accepted exactly when it was signed with the same secret, an
  allowed algorithm, the same issuer and audience, and its 15 minutes are not over.
\<close>

definition ACCESS_TOKEN_EXPIRES_IN :: string where
  "ACCESS_TOKEN_EXPIRES_IN = ''15m''"

definition MIN_SECRET_LENGTH :: nat where
  "MIN_SECRET_LENGTH = 32"

definition JWT_ALGORITHM :: string where
  "JWT_ALGORITHM = ''HS256''"

definition JWT_ISSUER :: string where
  "JWT_ISSUER = ''jwt-redis-session-api''"

definition JWT_AUDIENCE :: string where
  "JWT_AUDIENCE = ''jwt-redis-session-api-clients''"

record access_token_payload =
  at_subject :: string
  at_sessionId :: string
  at_role :: string

record refresh_token_pair =
  rt_validator :: string
  rt_hash :: string

record split_refresh_token =
  sp_sessionId :: string
  sp_validator :: string

subsection \<open>The JWT library\<close>

record jwt_options =
  jo_subject :: string
  jo_expiresIn :: string
  jo_algorithm :: string
  jo_issuer :: string
  jo_audience :: string

record jwt_checks =
  jk_algorithms :: "string list"
  jk_issuer :: string
  jk_audience :: string

text \<open>The claims of a decoded token; a claim may be absent.\<close>

record jwt_claims =
  jc_sub :: "string option"
  jc_sid :: "string option"
  jc_role :: "string option"

text \<open>\<open>jwt_sign J sid role secret options now\<close> and \<open>jwt_verify J token secret checks now\<close>.\<close>

record jwt_lib =
  jwt_sign :: "string \<Rightarrow> string \<Rightarrow> string \<Rightarrow> jwt_options \<Rightarrow> int \<Rightarrow> string"
  jwt_verify :: "string \<Rightarrow> string \<Rightarrow> jwt_checks \<Rightarrow> int \<Rightarrow> string + jwt_claims"

definition jwt_passes :: "jwt_options \<Rightarrow> jwt_checks \<Rightarrow> int \<Rightarrow> int \<Rightarrow> bool" where
  "jwt_passes opts ks t0 t \<longleftrightarrow>
     jo_algorithm opts \<in> set (jk_algorithms ks) \<and> jo_issuer opts = jk_issuer ks \<and>
     jo_audience opts = jk_audience ks \<and>
     (jo_expiresIn opts = ''15m'' \<longrightarrow> t div 1000 < t0 div 1000 + 900)"

locale jwt_library =
  fixes J :: jwt_lib
  assumes verify_signed: "jwt_passes opts ks t0 t \<Longrightarrow>
      jwt_verify J (jwt_sign J sid role secret opts t0) secret ks t =
        Inr \<lparr>jc_sub = Some (jo_subject opts), jc_sid = Some sid, jc_role = Some role\<rparr>"
    and verify_only_signed: "jwt_verify J token secret ks t = Inr c \<Longrightarrow>
      \<exists>sub sid role opts t0. token = jwt_sign J sid role secret opts t0 \<and> jwt_passes opts ks t0 t \<and>
        jo_subject opts = sub \<and> c = \<lparr>jc_sub = Some sub, jc_sid = Some sid, jc_role = Some role\<rparr>"

subsection \<open>The service\<close>

text \<open>\<open>getSecret\<close>, on the value of \<open>JWT_SECRET\<close>.\<close>

definition getSecret :: "string option \<Rightarrow> exn + string" where
  "getSecret secret =
     (case secret of
        None \<Rightarrow> Inl (JsError ''JWT_SECRET environment variable is not set'')
      | Some s \<Rightarrow>
          if s = [] then Inl (JsError ''JWT_SECRET environment variable is not set'')
          else if length s < MIN_SECRET_LENGTH
               then Inl (JsError (''JWT_SECRET must be at least '' @ js_digits MIN_SECRET_LENGTH @ '' characters long '' @
                 ''(RFC 7518 recommends a key at least as long as the HMAC output '' @
                 EM_DASH @ '' 256 bits '' @ EM_DASH @ '' for HS256)''))
          else Inr s)"

definition signing_options :: "string \<Rightarrow> jwt_options" where
  "signing_options userId =
     \<lparr>jo_subject = userId, jo_expiresIn = ACCESS_TOKEN_EXPIRES_IN, jo_algorithm = JWT_ALGORITHM,
      jo_issuer = JWT_ISSUER, jo_audience = JWT_AUDIENCE\<rparr>"

definition verifying_checks :: jwt_checks where
  "verifying_checks =
     \<lparr>jk_algorithms = [JWT_ALGORITHM], jk_issuer = JWT_ISSUER, jk_audience = JWT_AUDIENCE\<rparr>"

definition signAccessToken ::
  "jwt_lib \<Rightarrow> string option \<Rightarrow> string \<Rightarrow> string \<Rightarrow> user_role \<Rightarrow> (('r, 'p) world, exn, string) act" where
  "signAccessToken J env userId sessionId role =
     andthen (lift_sum (getSecret env)) (\<lambda>secret.
     andthen date_now (\<lambda>now.
       ret (jwt_sign J sessionId (role_string role) secret (signing_options userId) now)))"

text \<open>The body of the \<open>try\<close> of \<open>verifyAccessToken\<close>, and the method around it.\<close>

definition decode_access_token :: "jwt_claims \<Rightarrow> exn + access_token_payload" where
  "decode_access_token decoded =
     (if js_falsy (jc_sub decoded) \<or> js_falsy (jc_sid decoded) \<or> js_falsy (jc_role decoded)
      then Inl (JsError ''Malformed access token payload'')
      else Inr \<lparr>at_subject = the (jc_sub decoded), at_sessionId = the (jc_sid decoded),
                at_role = the (jc_role decoded)\<rparr>)"

definition verifyAccessToken ::
  "jwt_lib \<Rightarrow> string option \<Rightarrow> string \<Rightarrow> (('r, 'p) world, exn, access_token_payload) act" where
  "verifyAccessToken J env token =
     attempt
       (andthen (lift_sum (getSecret env)) (\<lambda>secret.
        andthen date_now (\<lambda>now.
          case jwt_verify J token secret verifying_checks now of
            Inl e \<Rightarrow> raise (JsError e)
          | Inr decoded \<Rightarrow> lift_sum (decode_access_token decoded))))
       (\<lambda>_. raise (UnauthorizedError ''Invalid token''))"

definition hashRefreshValidator :: "(string \<Rightarrow> string) \<Rightarrow> string \<Rightarrow> string" where
  "hashRefreshValidator sha validator = sha validator"

definition generateRefreshToken :: "(string \<Rightarrow> string) \<Rightarrow> (('r, 'p) world, exn, refresh_token_pair) act" where
  "generateRefreshToken sha =
     andthen draw (\<lambda>validator.
       ret \<lparr>rt_validator = validator, rt_hash = hashRefreshValidator sha validator\<rparr>)"

definition splitRefreshToken :: "string \<Rightarrow> split_refresh_token option" where
  "splitRefreshToken raw =
     (let separatorIndex = js_indexOf (CHR ''.'') raw in
      if separatorIndex \<le> 0 \<or> separatorIndex = int (length raw) - 1 then None
      else Some \<lparr>sp_sessionId = js_slice raw 0 separatorIndex,
                 sp_validator = js_slice_from raw (separatorIndex + 1)\<rparr>)"

definition refresh_token :: "string \<Rightarrow> string \<Rightarrow> string" where
  "refresh_token sessionId validator = sessionId @ ''.'' @ validator"

subsection \<open>Lemmas\<close>

text \<open>The split is the inverse of the composition, on exactly the well-formed tokens.\<close>

lemma split_refresh_token:
  assumes "CHR ''.'' \<notin> set i" and "i \<noteq> []" and "v \<noteq> []"
  shows "splitRefreshToken (refresh_token i v) = Some \<lparr>sp_sessionId = i, sp_validator = v\<rparr>"
proof -
  have "js_indexOf (CHR ''.'') (i @ CHR ''.'' # v) = int (length i)"
    using assms(1) by (rule js_indexOf_append)
  moreover have "0 < length i" "0 < length v"
    using assms by simp_all
  ultimately show ?thesis
    by (simp add: splitRefreshToken_def refresh_token_def Let_def js_slice_def js_slice_from_def nat_add_distrib)
qed

lemma splitRefreshToken_Some:
  assumes "splitRefreshToken raw = Some x"
  shows "raw = refresh_token (sp_sessionId x) (sp_validator x)"
    and "CHR ''.'' \<notin> set (sp_sessionId x)" and "sp_sessionId x \<noteq> []" and "sp_validator x \<noteq> []"
proof -
  have pos: "0 < js_indexOf (CHR ''.'') raw" and notlast: "js_indexOf (CHR ''.'') raw \<noteq> int (length raw) - 1"
    using assms by (auto simp: splitRefreshToken_def Let_def split: if_splits)
  from js_indexOf_decomp [of "CHR ''.''" raw] pos obtain a b where
    ab: "raw = a @ CHR ''.'' # b" "CHR ''.'' \<notin> set a" "js_indexOf (CHR ''.'') raw = int (length a)"
    by auto
  with pos notlast have ne: "a \<noteq> []" "b \<noteq> []"
    by auto
  with split_refresh_token [OF ab(2) ne] assms have "x = \<lparr>sp_sessionId = a, sp_validator = b\<rparr>"
    by (simp add: ab(1) refresh_token_def)
  with ab ne show "raw = refresh_token (sp_sessionId x) (sp_validator x)"
    and "CHR ''.'' \<notin> set (sp_sessionId x)" and "sp_sessionId x \<noteq> []" and "sp_validator x \<noteq> []"
    by (simp_all add: refresh_token_def)
qed

text \<open>Signing and verifying touch nothing, and verification fails in one way only.\<close>

lemma signAccessToken_apply:
  "signAccessToken J env u i r w = (case getSecret env of
     Inl e \<Rightarrow> (Inl e, w)
   | Inr s \<Rightarrow> (Inr (jwt_sign J i (role_string r) s (signing_options u) (w_now w)), w))"
  by (cases "getSecret env") (simp_all add: signAccessToken_def andthen_def)

lemma verifyAccessToken_apply:
  "verifyAccessToken J env token w = (case getSecret env of
     Inl e \<Rightarrow> (Inl (UnauthorizedError ''Invalid token''), w)
   | Inr s \<Rightarrow> (case jwt_verify J token s verifying_checks (w_now w) of
        Inl e \<Rightarrow> (Inl (UnauthorizedError ''Invalid token''), w)
      | Inr d \<Rightarrow> (case decode_access_token d of
           Inl e \<Rightarrow> (Inl (UnauthorizedError ''Invalid token''), w)
         | Inr p \<Rightarrow> (Inr p, w))))"
  by (simp add: verifyAccessToken_def attempt_def andthen_def split: sum.split)

lemma getSecret_Inr: "getSecret env = Inr s \<Longrightarrow> env = Some s \<and> MIN_SECRET_LENGTH \<le> length s"
  by (auto simp: getSecret_def split: option.splits if_splits)

context jwt_library
begin

text \<open>What the service signed it accepts, for the 15 minutes and not longer.\<close>

lemma own_token_accepted:
  assumes "getSecret env = Inr s" and "u \<noteq> []" and "i \<noteq> []"
    and "w_now w' div 1000 < t0 div 1000 + 900"
  shows "verifyAccessToken J env (jwt_sign J i (role_string r) s (signing_options u) t0) w' =
    (Inr \<lparr>at_subject = u, at_sessionId = i, at_role = role_string r\<rparr>, w')"
proof -
  have "jwt_passes (signing_options u) verifying_checks t0 (w_now w')"
    using assms(4) by (simp add: jwt_passes_def signing_options_def verifying_checks_def)
  then have "jwt_verify J (jwt_sign J i (role_string r) s (signing_options u) t0) s verifying_checks (w_now w') =
      Inr \<lparr>jc_sub = Some u, jc_sid = Some i, jc_role = Some (role_string r)\<rparr>"
    by (simp add: verify_signed) (simp add: signing_options_def)
  with assms(1-3) show ?thesis
    by (cases r) (simp_all add: verifyAccessToken_apply decode_access_token_def)
qed

lemma accepted_was_signed:
  assumes "verifyAccessToken J env token w = (Inr p, w')"
  shows "\<exists>s opts t0. getSecret env = Inr s \<and>
    token = jwt_sign J (at_sessionId p) (at_role p) s opts t0 \<and> jo_subject opts = at_subject p \<and>
    jo_algorithm opts = JWT_ALGORITHM \<and> jo_issuer opts = JWT_ISSUER \<and> jo_audience opts = JWT_AUDIENCE \<and>
    (jo_expiresIn opts = ACCESS_TOKEN_EXPIRES_IN \<longrightarrow> w_now w div 1000 < t0 div 1000 + 900)"
proof -
  from assms obtain s d where s: "getSecret env = Inr s"
    and d: "jwt_verify J token s verifying_checks (w_now w) = Inr d" "decode_access_token d = Inr p"
    by (auto simp: verifyAccessToken_apply split: sum.splits)
  from verify_only_signed [OF d(1)] obtain sub sid role opts t0 where
    "token = jwt_sign J sid role s opts t0" "jwt_passes opts verifying_checks t0 (w_now w)"
    "jo_subject opts = sub" "d = \<lparr>jc_sub = Some sub, jc_sid = Some sid, jc_role = Some role\<rparr>"
    by blast
  with s d(2) show ?thesis
    by (auto simp: decode_access_token_def jwt_passes_def verifying_checks_def ACCESS_TOKEN_EXPIRES_IN_def
        split: if_splits intro!: exI [of _ s] exI [of _ opts] exI [of _ t0])
qed

end

end
