(* ===== verification/CacheRepository.thy ===== *)
theory CacheRepository
  imports Redis_Reference
begin

section \<open>The profile cache\<close>

text \<open>
  \<open>src/repositories/CacheRepository.ts\<close>: public profiles under \<open>user-<id>\<close> for an hour.
  \<open>JSON.parse\<close> checks no shape, so what a read returns is a JSON value: \<open>JNull\<close> for a
  miss, the parsed text otherwise. The contract \<open>profile_cache\<close> is what the services rely on.
\<close>

definition DEFAULT_TTL_SECONDS :: int where
  "DEFAULT_TTL_SECONDS = 3600"

definition profileKey :: "string \<Rightarrow> string" where
  "profileKey userId = ''user-'' @ userId"

lemma profileKey_inj [simp]: "profileKey a = profileKey b \<longleftrightarrow> a = b"
  by (simp add: profileKey_def)

definition cache_getUserProfile :: "'r redis \<Rightarrow> string \<Rightarrow> (('r, 'p) world, exn, json) act" where
  "cache_getUserProfile R userId =
     andthen (redis_call (\<lambda>st. (Inr (rd_get R st (profileKey userId)), st))) (\<lambda>cached.
       case cached of
         None \<Rightarrow> ret JNull
       | Some t \<Rightarrow>
           if text_empty t then ret JNull
           else (case JSON_parse t of Inl e \<Rightarrow> raise (JsError e) | Inr j \<Rightarrow> ret j))"

definition cache_setUserProfile ::
  "'r redis \<Rightarrow> string \<Rightarrow> user_public \<Rightarrow> int \<Rightarrow> (('r, 'p) world, exn, unit) act" where
  "cache_setUserProfile R userId profile ttlSeconds =
     redis_call (cmd_set R (profileKey userId) (JSON_stringify (public_json profile)) ttlSeconds)"

subsection \<open>The contract\<close>

record 'w cache_ops =
  ca_get :: "string \<Rightarrow> ('w, exn, json) act"
  ca_set :: "string \<Rightarrow> user_public \<Rightarrow> ('w, exn, unit) act"

text \<open>\<open>cached w i\<close> is the profile the cache holds for the user \<open>i\<close>.\<close>

locale profile_cache =
  fixes C :: "'w cache_ops"
    and cached :: "'w \<Rightarrow> string \<Rightarrow> user_public option"
    and cok :: "'w \<Rightarrow> bool"
    and cup :: "'w \<Rightarrow> bool"
  assumes cache_hit: "cok w \<Longrightarrow> ca_get C i w = (Inr j, w') \<Longrightarrow>
          j = (case cached w i of None \<Rightarrow> JNull | Some p \<Rightarrow> public_json p)"
    and cache_get_frame: "cok w \<Longrightarrow> ca_get C i w = (r, w') \<Longrightarrow> cached w' = cached w \<and> cok w'"
    and cache_put: "cok w \<Longrightarrow> ca_set C i p w = (Inr u, w') \<Longrightarrow> cached w' = (cached w)(i \<mapsto> p)"
    and cache_put_ok: "cok w \<Longrightarrow> ca_set C i p w = (r', w') \<Longrightarrow>
          cok w' \<and> (cached w' = cached w \<or> cached w' = (cached w)(i \<mapsto> p))"
    and cache_get_up: "cok w \<Longrightarrow> cup w \<Longrightarrow> \<exists>j w'. ca_get C i w = (Inr j, w') \<and> cup w'"
    and cache_put_up: "cok w \<Longrightarrow> cup w \<Longrightarrow> \<exists>w'. ca_set C i p w = (Inr (), w') \<and> cup w'"
begin

text \<open>A read after a write of the same user finds what was written.\<close>

lemma read_after_write:
  assumes "cok w" and "ca_set C i p w = (Inr u, w1)" and "ca_get C i w1 = (Inr j, w2)"
  shows "public_of_json j = Some p"
  using cache_hit [OF _ assms(3)] cache_put [OF assms(1,2)] cache_put_ok [OF assms(1,2)] by simp

end

subsection \<open>The cache over a Redis server\<close>

definition cache_repo :: "'r redis \<Rightarrow> ('r, 'p) world cache_ops" where
  "cache_repo R =
     \<lparr>ca_get = cache_getUserProfile R,
      ca_set = (\<lambda>i p. cache_setUserProfile R i p DEFAULT_TTL_SECONDS)\<rparr>"

lemma cache_repo_simps [simp]:
  "ca_get (cache_repo R) = cache_getUserProfile R"
  "ca_set (cache_repo R) i p = cache_setUserProfile R i p DEFAULT_TTL_SECONDS"
  by (simp_all add: cache_repo_def)

definition profile_at :: "('r \<Rightarrow> string \<Rightarrow> rval option) \<Rightarrow> 'r \<Rightarrow> string \<Rightarrow> user_public option" where
  "profile_at val st i = (case val st (profileKey i) of
     Some (VText (Json j)) \<Rightarrow> public_of_json j | _ \<Rightarrow> None)"

definition cache_ok :: "('r \<Rightarrow> string \<Rightarrow> rval option) \<Rightarrow> 'r \<Rightarrow> bool" where
  "cache_ok val st \<longleftrightarrow> (\<forall>i. val st (profileKey i) = None \<or>
     (\<exists>p. val st (profileKey i) = Some (VText (Json (public_json p)))))"

lemma cache_ok_cases:
  assumes "cache_ok val st"
  obtains "val st (profileKey i) = None"
  | p where "val st (profileKey i) = Some (VText (Json (public_json p)))"
  using assms unfolding cache_ok_def by metis

context redis_server
begin

lemma cache_get_raw:
  assumes "cache_ok val st"
  shows "rd_get R st (profileKey i) =
    (case profile_at val st i of None \<Rightarrow> None | Some p \<Rightarrow> Some (Json (public_json p)))"
  using assms by (rule cache_ok_cases [of _ _ i]) (simp_all add: profile_at_def get_none get_text)

lemma cache_set_views:
  assumes "cache_ok val st"
  shows "cache_ok val (rd_set R st (profileKey i) (Json (public_json p)) DEFAULT_TTL_SECONDS)"
    and "profile_at val (rd_set R st (profileKey i) (Json (public_json p)) DEFAULT_TTL_SECONDS) =
      (profile_at val st)(i \<mapsto> p)"
  using assms val_set [of DEFAULT_TTL_SECONDS]
  by (auto simp: cache_ok_def profile_at_def DEFAULT_TTL_SECONDS_def fun_eq_iff)

lemma cache_get_laws:
  assumes "cache_ok val (w_redis w)" and "cache_getUserProfile R i w = (r, w')"
  shows "w_redis w' = w_redis w"
    and "r = Inr j \<Longrightarrow> j = (case profile_at val (w_redis w) i of None \<Rightarrow> JNull | Some p \<Rightarrow> public_json p)"
    and "healthy w \<Longrightarrow> (\<exists>j. r = Inr j) \<and> healthy w'"
proof -
  let ?c = "\<lambda>st. (Inr (rd_get R st (profileKey i)), st)"
  obtain r0 where call: "redis_call ?c w = (r0, w')"
    and r: "r = (case r0 of Inl e \<Rightarrow> Inl e | Inr None \<Rightarrow> Inr JNull | Inr (Some t) \<Rightarrow>
      if text_empty t then Inr JNull
      else (case JSON_parse t of Inl e \<Rightarrow> Inl (JsError e) | Inr j \<Rightarrow> Inr j))"
    using assms(2)
    by (auto simp: cache_getUserProfile_def andthen_def
        split: prod.splits sum.splits option.splits if_splits)
  show "w_redis w' = w_redis w"
    using redis_call_state [OF call] by auto
  have got: "r0 = Inr t \<Longrightarrow> t = rd_get R (w_redis w) (profileKey i)" for t
    using redis_call_InrD(1) [of ?c w] call by auto
  with r show "r = Inr j \<Longrightarrow> j = (case profile_at val (w_redis w) i of None \<Rightarrow> JNull | Some p \<Rightarrow> public_json p)"
    using cache_get_raw [OF assms(1), of i] by (auto split: sum.splits option.splits)
  show "healthy w \<Longrightarrow> (\<exists>j. r = Inr j) \<and> healthy w'"
    using call r cache_get_raw [OF assms(1), of i] by (auto split: option.splits)
qed

lemma cache_set_laws:
  assumes "cache_ok val (w_redis w)" and "cache_setUserProfile R i p DEFAULT_TTL_SECONDS w = (r, w')"
  shows "cache_ok val (w_redis w')"
    and "profile_at val (w_redis w') = profile_at val (w_redis w) \<or>
      profile_at val (w_redis w') = (profile_at val (w_redis w))(i \<mapsto> p)"
    and "r = Inr u \<Longrightarrow> profile_at val (w_redis w') = (profile_at val (w_redis w))(i \<mapsto> p)"
    and "healthy w \<Longrightarrow> r = Inr () \<and> healthy w'"
proof -
  let ?c = "cmd_set R (profileKey i) (Json (public_json p)) DEFAULT_TTL_SECONDS"
  have run: "?c st = (Inr (), rd_set R st (profileKey i) (Json (public_json p)) DEFAULT_TTL_SECONDS)" for st
    by (simp add: cmd_set_def DEFAULT_TTL_SECONDS_def)
  have call: "redis_call ?c w = (r, w')"
    using assms(2) by (simp add: cache_setUserProfile_def JSON_stringify_def)
  show "cache_ok val (w_redis w')" and "profile_at val (w_redis w') = profile_at val (w_redis w) \<or>
      profile_at val (w_redis w') = (profile_at val (w_redis w))(i \<mapsto> p)"
    using redis_call_state [OF call] cache_set_views [OF assms(1)] assms(1) by (auto simp: run)
  show "profile_at val (w_redis w') = (profile_at val (w_redis w))(i \<mapsto> p)" if "r = Inr u"
    using redis_call_InrD(1) [OF call [unfolded that]] cache_set_views [OF assms(1)]
    by (simp add: run) metis
  show "healthy w \<Longrightarrow> r = Inr () \<and> healthy w'"
    using call by (auto simp: run)
qed

end

sublocale redis_server \<subseteq> cache_store: profile_cache "cache_repo R"
  "\<lambda>w. profile_at val (w_redis w)" "\<lambda>w. cache_ok val (w_redis w)" healthy
proof (unfold_locales, simp_all only: cache_repo_simps, goal_cases)
  case (1 w i j w')
  then show ?case using cache_get_laws(2) by blast
next
  case (2 w i r w')
  then show ?case using cache_get_laws(1) by metis
next
  case (3 w i p u w')
  then show ?case using cache_set_laws(3) by blast
next
  case (4 w i p r w')
  then show ?case using cache_set_laws(1,2) by blast
next
  case (5 w i)
  then show ?case by (metis cache_get_laws(3) surj_pair)
next
  case (6 w i p)
  then show ?case by (metis cache_set_laws(4) surj_pair)
qed

end
