(* ===== verification/Postgres.thy ===== *)
theory Postgres
  imports World
begin

section \<open>The PostgreSQL server and its client\<close>

text \<open>
  PostgreSQL is a service outside the repository, so it is a parameter: a record of the
  queries the program issues, on an abstract server state, with the locale \<open>postgres\<close> of
  what the program relies on. The schema is that of \<open>migrations/\<close>: \<open>id\<close> is the primary
  key (\<open>users_pkey\<close>), \<open>email\<close> is unique (\<open>users_email_key\<close>), so is
  \<open>lower(username)\<close> (\<open>users_username_lower_key\<close>), and \<open>role\<close> defaults to \<open>user\<close>.
  \<open>rows s\<close> is the table in the order of \<open>created_at, id\<close>. A query that fails answers with
  an SQLSTATE and, for a violated constraint, its name. \<open>pg_text\<close> are the strings the
  server takes for a \<open>TEXT\<close> parameter (no NUL character, for instance), \<open>uuid\<close> the texts
  in which it writes an identifier, \<open>lower\<close> its \<open>lower()\<close>.
\<close>

record new_user =
  nu_id :: string
  nu_name :: string
  nu_username :: string
  nu_passwordHash :: string
  nu_email :: string

type_synonym pg_error = "string \<times> string option"

record 'p postgres =
  pq_by_username :: "'p \<Rightarrow> string \<Rightarrow> pg_error + user_record list"
  pq_by_id :: "'p \<Rightarrow> string \<Rightarrow> pg_error + user_record list"
  pq_page :: "'p \<Rightarrow> nat \<Rightarrow> nat \<Rightarrow> pg_error + user_record list"
  pq_count :: "'p \<Rightarrow> pg_error + nat"
  pq_username_rows :: "'p \<Rightarrow> string \<Rightarrow> pg_error + nat"
  pq_email_rows :: "'p \<Rightarrow> string \<Rightarrow> pg_error + nat"
  pq_insert :: "'p \<Rightarrow> new_user \<Rightarrow> (pg_error + unit) \<times> 'p"

definition UNIQUE_VIOLATION :: string where
  "UNIQUE_VIOLATION = ''23505''"

text \<open>The row an \<open>INSERT\<close> of the program adds, and the constraints it would violate.\<close>

definition inserted_row :: "new_user \<Rightarrow> user_record" where
  "inserted_row nu = \<lparr>ur_id = nu_id nu, ur_name = nu_name nu, ur_username = nu_username nu,
     ur_passwordHash = nu_passwordHash nu, ur_email = nu_email nu, ur_role = User\<rparr>"

definition violated :: "(string \<Rightarrow> string) \<Rightarrow> user_record list \<Rightarrow> new_user \<Rightarrow> string set" where
  "violated lower us nu =
     (if \<exists>u \<in> set us. ur_id u = nu_id nu then {''users_pkey''} else {}) \<union>
     (if \<exists>u \<in> set us. lower (ur_username u) = lower (nu_username nu)
      then {''users_username_lower_key''} else {}) \<union>
     (if \<exists>u \<in> set us. ur_email u = nu_email nu then {''users_email_key''} else {})"

definition storable :: "(string \<Rightarrow> bool) \<Rightarrow> (string \<Rightarrow> bool) \<Rightarrow> new_user \<Rightarrow> bool" where
  "storable pg_text uuid nu \<longleftrightarrow> uuid (nu_id nu) \<and> pg_text (nu_name nu) \<and> pg_text (nu_username nu) \<and>
     pg_text (nu_passwordHash nu) \<and> pg_text (nu_email nu)"

text \<open>The constraints of the schema on a table.\<close>

definition table_ok :: "(string \<Rightarrow> string) \<Rightarrow> user_record list \<Rightarrow> bool" where
  "table_ok lower us \<longleftrightarrow> distinct (map ur_id us) \<and> distinct (map ur_email us) \<and>
     distinct (map (\<lambda>u. lower (ur_username u)) us)"

locale postgres =
  fixes P :: "'p postgres"
    and rows :: "'p \<Rightarrow> user_record list"
    and lower :: "string \<Rightarrow> string"
    and pg_text :: "string \<Rightarrow> bool"
    and uuid :: "string \<Rightarrow> bool"
  assumes constrained: "table_ok lower (rows s)"
    and by_username: "pg_text n \<Longrightarrow>
          pq_by_username P s n = Inr (take 1 (filter (\<lambda>u. lower (ur_username u) = lower n) (rows s)))"
    and by_username_refused: "\<not> pg_text n \<Longrightarrow> \<exists>e. pq_by_username P s n = Inl e"
    and by_id: "uuid i \<Longrightarrow> pq_by_id P s i = Inr (take 1 (filter (\<lambda>u. ur_id u = i) (rows s)))"
    and page: "pq_page P s l off = Inr (take l (drop off (rows s)))"
    and count: "pq_count P s = Inr (length (rows s))"
    and username_rows: "pg_text n \<Longrightarrow> pq_username_rows P s n =
          Inr (min 1 (length (filter (\<lambda>u. lower (ur_username u) = lower n) (rows s))))"
    and username_rows_refused: "\<not> pg_text n \<Longrightarrow> \<exists>e. pq_username_rows P s n = Inl e"
    and email_rows: "pg_text m \<Longrightarrow>
          pq_email_rows P s m = Inr (min 1 (length (filter (\<lambda>u. ur_email u = m) (rows s))))"
    and email_rows_refused: "\<not> pg_text m \<Longrightarrow> \<exists>e. pq_email_rows P s m = Inl e"
    and insert_new: "storable pg_text uuid nu \<Longrightarrow> violated lower (rows s) nu = {} \<Longrightarrow>
          \<exists>s' xs ys. pq_insert P s nu = (Inr (), s') \<and> rows s = xs @ ys \<and>
            rows s' = xs @ inserted_row nu # ys"
    and insert_clash: "storable pg_text uuid nu \<Longrightarrow> violated lower (rows s) nu \<noteq> {} \<Longrightarrow>
          \<exists>s' k. pq_insert P s nu = (Inl (UNIQUE_VIOLATION, Some k), s') \<and>
            k \<in> violated lower (rows s) nu \<and> rows s' = rows s"
    and insert_refused: "\<not> storable pg_text uuid nu \<Longrightarrow>
          \<exists>s' c k. pq_insert P s nu = (Inl (c, k), s') \<and> c \<noteq> UNIQUE_VIOLATION \<and> rows s' = rows s"

subsection \<open>The client\<close>

text \<open>
  One query through the pool, under the next fault: a lost connection rejects the promise
  with an error that is not about a constraint.
\<close>

definition pg_call :: "('p \<Rightarrow> (pg_error + 'a) \<times> 'p) \<Rightarrow> (('r, 'p) world, exn, 'a) act" where
  "pg_call q = (\<lambda>w.
     let (f, w1) = next_fault w; (reply, p') = q (w_pg w1) in
     case f of
       Down e \<Rightarrow> (Inl (PgError e None), w1)
     | Lost e \<Rightarrow> (Inl (PgError e None), w1\<lparr>w_pg := p'\<rparr>)
     | _ \<Rightarrow> (case reply of
              Inl (c, k) \<Rightarrow> (Inl (PgError c k), w1\<lparr>w_pg := p'\<rparr>)
            | Inr a \<Rightarrow> (Inr a, w1\<lparr>w_pg := p'\<rparr>)))"

definition pg_read :: "('p \<Rightarrow> pg_error + 'a) \<Rightarrow> (('r, 'p) world, exn, 'a) act" where
  "pg_read q = pg_call (\<lambda>s. (q s, s))"

text \<open>\<open>Promise.all\<close> of two calls: both run; the result rejects when one of them does.\<close>

definition promise_all2 :: "('w, 'e, 'a) act \<Rightarrow> ('w, 'e, 'b) act \<Rightarrow> ('w, 'e, 'a \<times> 'b) act" where
  "promise_all2 m n = (\<lambda>w.
     let (r1, w1) = m w; (r2, w2) = n w1 in
     (case r1 of Inl e \<Rightarrow> Inl e | Inr a \<Rightarrow> (case r2 of Inl e \<Rightarrow> Inl e | Inr b \<Rightarrow> Inr (a, b)), w2))"

lemma pg_call_frame:
  assumes "pg_call q w = (r, w')"
  shows "w_redis w' = w_redis w" and "w_now w' = w_now w"
    and "w_random w' = w_random w" and "w_drawn w' = w_drawn w"
    and "w_pg w' = w_pg w \<or> w_pg w' = snd (q (w_pg w))"
  using assms next_fault_frame [of w]
  by (auto simp: pg_call_def Let_def split: prod.splits fault.splits sum.splits)

lemma pg_call_InrD:
  assumes "pg_call q w = (Inr a, w')"
  shows "q (w_pg w) = (Inr a, w_pg w')"
  using assms next_fault_frame [of w]
  by (auto simp: pg_call_def Let_def split: prod.splits fault.splits sum.splits)

lemma pg_call_InlD:
  assumes "pg_call q w = (Inl e, w')"
  shows "(\<exists>m. e = PgError m None) \<or> (\<exists>c k. e = PgError c k \<and> q (w_pg w) = (Inl (c, k), w_pg w'))"
  using assms next_fault_frame [of w]
  by (auto simp: pg_call_def Let_def split: prod.splits fault.splits sum.splits)

lemma pg_call_healthy [simp]:
  assumes "healthy w"
  shows "pg_call q w = (case q (w_pg w) of
      (Inl (c, k), p') \<Rightarrow> (Inl (PgError c k), w\<lparr>w_pg := p'\<rparr>)
    | (Inr a, p') \<Rightarrow> (Inr a, w\<lparr>w_pg := p'\<rparr>))"
  using assms by (simp add: pg_call_def split: prod.split sum.split)

lemma pg_read_frame:
  assumes "pg_read q w = (r, w')"
  shows "w_redis w' = w_redis w" and "w_pg w' = w_pg w" and "w_now w' = w_now w"
    and "w_random w' = w_random w" and "w_drawn w' = w_drawn w"
    and "r = Inr a \<Longrightarrow> q (w_pg w) = Inr a" and "r = Inl e \<Longrightarrow> \<exists>c k. e = PgError c k"
    and "healthy w \<Longrightarrow> healthy w'"
    and "healthy w \<Longrightarrow> q (w_pg w) = Inr a \<Longrightarrow> r = Inr a"
proof -
  have call: "pg_call (\<lambda>s. (q s, s)) w = (r, w')"
    using assms by (simp add: pg_read_def)
  note fr = pg_call_frame [OF call]
  show "w_redis w' = w_redis w" and "w_pg w' = w_pg w" and "w_now w' = w_now w"
    and "w_random w' = w_random w" and "w_drawn w' = w_drawn w"
    using fr by auto
  show "r = Inr a \<Longrightarrow> q (w_pg w) = Inr a"
    using pg_call_InrD [of "\<lambda>s. (q s, s)" w a w'] call by (metis prod.inject)
  show "r = Inl e \<Longrightarrow> \<exists>c k. e = PgError c k"
    using pg_call_InlD [of "\<lambda>s. (q s, s)" w e w'] call by auto
  show "healthy w \<Longrightarrow> healthy w'" and "healthy w \<Longrightarrow> q (w_pg w) = Inr a \<Longrightarrow> r = Inr a"
    using call by (auto split: sum.splits prod.splits)
qed

subsection \<open>A reference table\<close>

text \<open>
  The documented behaviour on a plain list, for the witnesses; new rows come last. A state
  that breaks the schema cannot be built from its empty table, so it reads as empty.
\<close>

definition ref_lower :: "string \<Rightarrow> string" where
  "ref_lower s = js_toLowerCase s"

definition ref_pg_text :: "string \<Rightarrow> bool" where
  "ref_pg_text s \<longleftrightarrow> CHR 0x00 \<notin> set s"

definition ref_uuid :: "string \<Rightarrow> bool" where
  "ref_uuid s \<longleftrightarrow> s \<noteq> []"

definition ref_rows :: "user_record list \<Rightarrow> user_record list" where
  "ref_rows us = (if table_ok ref_lower us then us else [])"

definition ref_violated :: "user_record list \<Rightarrow> new_user \<Rightarrow> string list" where
  "ref_violated us nu =
     (if list_ex (\<lambda>u. ur_id u = nu_id nu) us then [''users_pkey''] else []) @
     (if list_ex (\<lambda>u. ref_lower (ur_username u) = ref_lower (nu_username nu)) us
      then [''users_username_lower_key''] else []) @
     (if list_ex (\<lambda>u. ur_email u = nu_email nu) us then [''users_email_key''] else [])"

definition ref_pg :: "user_record list postgres" where
  "ref_pg = \<lparr>
     pq_by_username = (\<lambda>s n. if ref_pg_text n
        then Inr (take 1 (filter (\<lambda>u. ref_lower (ur_username u) = ref_lower n) (ref_rows s)))
        else Inl (''22021'', None)),
     pq_by_id = (\<lambda>s i. if ref_uuid i then Inr (take 1 (filter (\<lambda>u. ur_id u = i) (ref_rows s)))
        else Inl (''22P02'', None)),
     pq_page = (\<lambda>s l off. Inr (take l (drop off (ref_rows s)))),
     pq_count = (\<lambda>s. Inr (length (ref_rows s))),
     pq_username_rows = (\<lambda>s n. if ref_pg_text n
        then Inr (min 1 (length (filter (\<lambda>u. ref_lower (ur_username u) = ref_lower n) (ref_rows s))))
        else Inl (''22021'', None)),
     pq_email_rows = (\<lambda>s m. if ref_pg_text m
        then Inr (min 1 (length (filter (\<lambda>u. ur_email u = m) (ref_rows s))))
        else Inl (''22021'', None)),
     pq_insert = (\<lambda>s nu.
        if \<not> storable ref_pg_text ref_uuid nu then (Inl (''22021'', None), s)
        else (case ref_violated (ref_rows s) nu of
                k # ks \<Rightarrow> (Inl (UNIQUE_VIOLATION, Some k), s)
              | [] \<Rightarrow> (Inr (), ref_rows s @ [inserted_row nu])))\<rparr>"

lemma ref_rows_ok [simp]: "table_ok ref_lower (ref_rows us)"
  by (simp add: ref_rows_def) (simp add: table_ok_def)

lemma ref_violated_set: "set (ref_violated us nu) = violated ref_lower us nu"
  by (auto simp: ref_violated_def violated_def list_ex_iff)

lemma table_ok_insert:
  assumes "table_ok lower (xs @ ys)" and "violated lower (xs @ ys) nu = {}"
  shows "table_ok lower (xs @ inserted_row nu # ys)"
  using assms by (auto simp: table_ok_def violated_def inserted_row_def split: if_splits)

interpretation ref_postgres: postgres ref_pg ref_rows ref_lower ref_pg_text ref_uuid
proof unfold_locales
  fix s nu
  assume nu: "storable ref_pg_text ref_uuid nu"
  show "\<exists>s' xs ys. pq_insert ref_pg s nu = (Inr (), s') \<and> ref_rows s = xs @ ys \<and>
      ref_rows s' = xs @ inserted_row nu # ys" if "violated ref_lower (ref_rows s) nu = {}"
  proof -
    have "ref_violated (ref_rows s) nu = []"
      using that by (simp flip: ref_violated_set)
    moreover have "table_ok ref_lower (ref_rows s @ [inserted_row nu])"
      using table_ok_insert [of ref_lower "ref_rows s" "[]" nu] that by simp
    ultimately show ?thesis
      using nu by (auto simp: ref_pg_def ref_rows_def [of "_ @ _"])
  qed
  show "\<exists>s' k. pq_insert ref_pg s nu = (Inl (UNIQUE_VIOLATION, Some k), s') \<and>
      k \<in> violated ref_lower (ref_rows s) nu \<and> ref_rows s' = ref_rows s"
    if "violated ref_lower (ref_rows s) nu \<noteq> {}"
    using that nu ref_violated_set [of "ref_rows s" nu]
    by (cases "ref_violated (ref_rows s) nu") (auto simp: ref_pg_def)
qed (auto simp: ref_pg_def UNIQUE_VIOLATION_def)

end
