(* ===== verification/UserRepository.thy ===== *)
theory UserRepository
  imports Postgres
begin

section \<open>The user repository\<close>

text \<open>
  \<open>src/repositories/UserRepository.ts\<close> over the PostgreSQL parameter \<open>P\<close>, and the
  contract \<open>user_store\<close> the services rely on: lookups find the unique row, a new user is
  inserted or refused with the domain error of the constraint it violates.
\<close>

definition POSTGRES_UNIQUE_VIOLATION :: string where
  "POSTGRES_UNIQUE_VIOLATION = ''23505''"

definition isUniqueViolation :: "exn \<Rightarrow> bool" where
  "isUniqueViolation error = (case error of PgError code _ \<Rightarrow> code = POSTGRES_UNIQUE_VIOLATION | _ \<Rightarrow> False)"

text \<open>\<open>rows[0] ?? null\<close>.\<close>

definition first_row :: "user_record list \<Rightarrow> user_record option" where
  "first_row rows = (case rows of [] \<Rightarrow> None | u # _ \<Rightarrow> Some u)"

definition user_findByUsername ::
  "'p postgres \<Rightarrow> string \<Rightarrow> (('r, 'p) world, exn, user_record option) act" where
  "user_findByUsername P username =
     andthen (pg_read (\<lambda>s. pq_by_username P s username)) (\<lambda>rows. ret (first_row rows))"

definition user_findById ::
  "'p postgres \<Rightarrow> string \<Rightarrow> (('r, 'p) world, exn, user_record option) act" where
  "user_findById P i = andthen (pg_read (\<lambda>s. pq_by_id P s i)) (\<lambda>rows. ret (first_row rows))"

definition user_listPaginated ::
  "'p postgres \<Rightarrow> nat \<Rightarrow> nat \<Rightarrow> (('r, 'p) world, exn, user_record list \<times> nat) act" where
  "user_listPaginated P limit offset =
     promise_all2 (pg_read (\<lambda>s. pq_page P s limit offset)) (pg_read (pq_count P))"

definition user_existsByUsername :: "'p postgres \<Rightarrow> string \<Rightarrow> (('r, 'p) world, exn, bool) act" where
  "user_existsByUsername P username =
     andthen (pg_read (\<lambda>s. pq_username_rows P s username)) (\<lambda>n. ret (0 < n))"

definition user_existsByEmail :: "'p postgres \<Rightarrow> string \<Rightarrow> (('r, 'p) world, exn, bool) act" where
  "user_existsByEmail P email =
     andthen (pg_read (\<lambda>s. pq_email_rows P s email)) (\<lambda>n. ret (0 < n))"

definition user_create :: "'p postgres \<Rightarrow> new_user \<Rightarrow> (('r, 'p) world, exn, unit) act" where
  "user_create P user =
     attempt (pg_call (\<lambda>s. pq_insert P s user)) (\<lambda>error.
       if isUniqueViolation error then
         (case error of
            PgError _ (Some constraint) \<Rightarrow>
              if constraint = ''users_username_lower_key'' then raise (ConflictError ''Username already taken.'')
              else if constraint = ''users_email_key'' then raise (ConflictError ''Email already registered.'')
              else raise error
          | _ \<Rightarrow> raise error)
       else raise error)"

subsection \<open>The contract\<close>

record 'w user_ops =
  us_findByUsername :: "string \<Rightarrow> ('w, exn, user_record option) act"
  us_findById :: "string \<Rightarrow> ('w, exn, user_record option) act"
  us_listPaginated :: "nat \<Rightarrow> nat \<Rightarrow> ('w, exn, user_record list \<times> nat) act"
  us_existsByUsername :: "string \<Rightarrow> ('w, exn, bool) act"
  us_existsByEmail :: "string \<Rightarrow> ('w, exn, bool) act"
  us_create :: "new_user \<Rightarrow> ('w, exn, unit) act"

text \<open>The error with which \<open>create\<close> answers a violated constraint.\<close>

definition conflict_of :: "string \<Rightarrow> exn" where
  "conflict_of constraint =
     (if constraint = ''users_username_lower_key'' then ConflictError ''Username already taken.''
      else if constraint = ''users_email_key'' then ConflictError ''Email already registered.''
      else PgError POSTGRES_UNIQUE_VIOLATION (Some constraint))"

locale user_store =
  fixes U :: "'w user_ops"
    and users :: "'w \<Rightarrow> user_record list"
    and lower :: "string \<Rightarrow> string"
    and pg_text :: "string \<Rightarrow> bool"
    and uuid :: "string \<Rightarrow> bool"
    and uup :: "'w \<Rightarrow> bool"
  assumes users_ok: "table_ok lower (users w)"
    and find_name: "us_findByUsername U n w = (Inr r, w') \<Longrightarrow>
          pg_text n \<and> r = find (\<lambda>u. lower (ur_username u) = lower n) (users w)"
    and find_name_err: "us_findByUsername U n w = (Inl e, w') \<Longrightarrow> \<not> is_AppError e"
    and find_id_err: "us_findById U i w = (Inl e, w') \<Longrightarrow> \<not> is_AppError e"
    and list_err: "us_listPaginated U l off w = (Inl e, w') \<Longrightarrow> \<not> is_AppError e"
    and exists_name_err: "us_existsByUsername U n w = (Inl e, w') \<Longrightarrow> \<not> is_AppError e"
    and exists_email_err: "us_existsByEmail U m w = (Inl e, w') \<Longrightarrow> \<not> is_AppError e"
    and exists_name_up: "pg_text n \<Longrightarrow> uup w \<Longrightarrow> \<exists>b w'. us_existsByUsername U n w = (Inr b, w') \<and> uup w'"
    and exists_email_up: "pg_text m \<Longrightarrow> uup w \<Longrightarrow> \<exists>b w'. us_existsByEmail U m w = (Inr b, w') \<and> uup w'"
    and find_name_frame: "us_findByUsername U n w = (r1, w') \<Longrightarrow> users w' = users w"
    and find_name_up: "pg_text n \<Longrightarrow> uup w \<Longrightarrow> \<exists>r w'. us_findByUsername U n w = (Inr r, w') \<and> uup w'"
    and find_id: "uuid i \<Longrightarrow> us_findById U i w = (Inr r, w') \<Longrightarrow> r = find (\<lambda>u. ur_id u = i) (users w)"
    and find_id_frame: "us_findById U i w = (r1, w') \<Longrightarrow> users w' = users w"
    and find_id_up: "uuid i \<Longrightarrow> uup w \<Longrightarrow> \<exists>r w'. us_findById U i w = (Inr r, w') \<and> uup w'"
    and list_page: "us_listPaginated U l off w = (Inr (us, cnt), w') \<Longrightarrow>
          us = take l (drop off (users w)) \<and> cnt = length (users w)"
    and list_page_frame: "us_listPaginated U l off w = (r2, w') \<Longrightarrow> users w' = users w"
    and exists_name: "us_existsByUsername U n w = (Inr b, w') \<Longrightarrow>
          pg_text n \<and> b = (\<exists>u \<in> set (users w). lower (ur_username u) = lower n)"
    and exists_name_frame: "us_existsByUsername U n w = (r3, w') \<Longrightarrow> users w' = users w"
    and exists_email: "us_existsByEmail U m w = (Inr b, w') \<Longrightarrow>
          pg_text m \<and> b = (\<exists>u \<in> set (users w). ur_email u = m)"
    and exists_email_frame: "us_existsByEmail U m w = (r3, w') \<Longrightarrow> users w' = users w"
    and create_done: "us_create U nu w = (Inr x, w') \<Longrightarrow> storable pg_text uuid nu \<and>
          violated lower (users w) nu = {} \<and>
          (\<exists>xs ys. users w = xs @ ys \<and> users w' = xs @ inserted_row nu # ys)"
    and create_conflict: "us_create U nu w = (Inl e, w') \<Longrightarrow> is_AppError e \<Longrightarrow>
          (\<exists>k \<in> violated lower (users w) nu. e = conflict_of k) \<and> users w' = users w"
    and create_up: "storable pg_text uuid nu \<Longrightarrow> uup w \<Longrightarrow> violated lower (users w) nu = {} \<Longrightarrow>
          \<exists>w'. us_create U nu w = (Inr (), w') \<and> uup w'"
    and create_up_clash: "storable pg_text uuid nu \<Longrightarrow> uup w \<Longrightarrow> violated lower (users w) nu \<noteq> {} \<Longrightarrow>
          \<exists>k \<in> violated lower (users w) nu. \<exists>w'. us_create U nu w = (Inl (conflict_of k), w') \<and> uup w'"
begin

text \<open>Names and identifiers name at most one user.\<close>

lemma find_unique:
  assumes "u \<in> set (users w)"
  shows "find (\<lambda>v. lower (ur_username v) = lower (ur_username u)) (users w) = Some u"
    and "find (\<lambda>v. ur_id v = ur_id u) (users w) = Some u"
proof -
  have find_key: "find (\<lambda>v. f v = f u) us = Some u"
    if "distinct (map f us)" "u \<in> set us" for f :: "user_record \<Rightarrow> string" and us
    using that by (induction us) (auto simp: image_iff)
  show "find (\<lambda>v. lower (ur_username v) = lower (ur_username u)) (users w) = Some u"
    using find_key [of "\<lambda>v. lower (ur_username v)"] users_ok [of w] assms by (simp add: table_ok_def)
  show "find (\<lambda>v. ur_id v = ur_id u) (users w) = Some u"
    using find_key [of ur_id] users_ok [of w] assms by (simp add: table_ok_def)
qed

text \<open>A user who was created is found, under any spelling of the name with the same lower case.\<close>

lemma created_then_found:
  assumes "us_create U nu w = (Inr x, w1)" and "us_findByUsername U n w1 = (Inr r, w2)"
    and "lower n = lower (nu_username nu)"
  shows "r = Some (inserted_row nu)"
proof -
  have "inserted_row nu \<in> set (users w1)"
    using create_done [OF assms(1)] by auto
  from find_unique(1) [OF this] find_name [OF assms(2)] assms(3) show ?thesis
    by (simp add: inserted_row_def)
qed

text \<open>No two accounts share a name: a second insertion never succeeds.\<close>

lemma create_twice:
  assumes "us_create U nu w = (Inr x, w1)" and "lower (nu_username nu') = lower (nu_username nu)"
  shows "us_create U nu' w1 \<noteq> (Inr y, w2)"
proof
  assume "us_create U nu' w1 = (Inr y, w2)"
  then have "violated lower (users w1) nu' = {}"
    using create_done by blast
  moreover have "inserted_row nu \<in> set (users w1)"
    using create_done [OF assms(1)] by auto
  ultimately show False
    using assms(2) by (auto simp: violated_def inserted_row_def split: if_splits)
qed

end

subsection \<open>The repository over a PostgreSQL server\<close>

definition user_repo :: "'p postgres \<Rightarrow> ('r, 'p) world user_ops" where
  "user_repo P =
     \<lparr>us_findByUsername = user_findByUsername P, us_findById = user_findById P,
      us_listPaginated = user_listPaginated P, us_existsByUsername = user_existsByUsername P,
      us_existsByEmail = user_existsByEmail P, us_create = user_create P\<rparr>"

lemma user_repo_simps [simp]:
  "us_findByUsername (user_repo P) = user_findByUsername P"
  "us_findById (user_repo P) = user_findById P"
  "us_listPaginated (user_repo P) = user_listPaginated P"
  "us_existsByUsername (user_repo P) = user_existsByUsername P"
  "us_existsByEmail (user_repo P) = user_existsByEmail P"
  "us_create (user_repo P) = user_create P"
  by (simp_all add: user_repo_def)

lemma first_row_take: "first_row (take 1 (filter Q us)) = find Q us"
  by (induction us) (auto simp: first_row_def)

lemma some_row: "0 < min 1 (length (filter Q us)) \<longleftrightarrow> (\<exists>u \<in> set us. Q u)"
  by (auto simp: filter_empty_conv)

text \<open>A lookup: the frame, and its result when it succeeds.\<close>

lemma lookup_laws:
  assumes "andthen (pg_read q) (\<lambda>a. ret (f a)) w = (r, w')"
  shows "w_pg w' = w_pg w" and "w_redis w' = w_redis w" and "w_now w' = w_now w"
    and "r = Inr b \<Longrightarrow> \<exists>a. q (w_pg w) = Inr a \<and> b = f a"
    and "r = Inl e \<Longrightarrow> \<exists>c k. e = PgError c k"
    and "healthy w \<Longrightarrow> q (w_pg w) = Inr a \<Longrightarrow> r = Inr (f a) \<and> healthy w'"
proof -
  obtain r0 where call: "pg_read q w = (r0, w')"
    and r: "r = (case r0 of Inl e \<Rightarrow> Inl e | Inr a \<Rightarrow> Inr (f a))"
    using assms by (auto simp: andthen_def split: prod.splits sum.splits)
  note laws = pg_read_frame [OF call]
  show "w_pg w' = w_pg w" and "w_redis w' = w_redis w" and "w_now w' = w_now w"
    using laws by blast+
  show "r = Inr b \<Longrightarrow> \<exists>a. q (w_pg w) = Inr a \<and> b = f a"
    using laws(6) r by (auto split: sum.splits)
  show "r = Inl e \<Longrightarrow> \<exists>c k. e = PgError c k"
    using laws(7) r by (auto split: sum.splits)
  show "healthy w \<Longrightarrow> q (w_pg w) = Inr a \<Longrightarrow> r = Inr (f a) \<and> healthy w'"
    using laws(8,9) r by auto
qed

lemma list_laws:
  assumes "promise_all2 (pg_read p) (pg_read q) w = (r, w')"
  shows "w_pg w' = w_pg w" and "w_redis w' = w_redis w" and "w_now w' = w_now w"
    and "r = Inr (a, b) \<Longrightarrow> p (w_pg w) = Inr a \<and> q (w_pg w) = Inr b"
    and "healthy w \<Longrightarrow> p (w_pg w) = Inr a \<Longrightarrow> q (w_pg w) = Inr b \<Longrightarrow> r = Inr (a, b) \<and> healthy w'"
    and "r = Inl e \<Longrightarrow> \<exists>c k. e = PgError c k"
proof -
  obtain r1 w1 r2 where c1: "pg_read p w = (r1, w1)" and c2: "pg_read q w1 = (r2, w')"
    and r: "r = (case r1 of Inl e \<Rightarrow> Inl e | Inr a \<Rightarrow> (case r2 of Inl e \<Rightarrow> Inl e | Inr b \<Rightarrow> Inr (a, b)))"
    using assms by (auto simp: promise_all2_def Let_def split: prod.splits)
  note l1 = pg_read_frame [OF c1] and l2 = pg_read_frame [OF c2]
  show "w_pg w' = w_pg w" and "w_redis w' = w_redis w" and "w_now w' = w_now w"
    using l1(1-3) l2(1-3) by simp_all
  show "r = Inr (a, b) \<Longrightarrow> p (w_pg w) = Inr a \<and> q (w_pg w) = Inr b"
    using l1(2,6) l2(6) r by (auto split: sum.splits)
  show "healthy w \<Longrightarrow> p (w_pg w) = Inr a \<Longrightarrow> q (w_pg w) = Inr b \<Longrightarrow> r = Inr (a, b) \<and> healthy w'"
    using l1(2,8,9) l2(8,9) r by simp
  show "r = Inl e \<Longrightarrow> \<exists>c k. e = PgError c k"
    using l1(7) l2(7) r by (auto split: sum.splits)
qed

text \<open>What \<open>create\<close> makes of an error of the insertion.\<close>

fun create_error :: "exn \<Rightarrow> exn" where
  "create_error (PgError c (Some k)) =
     (if c = POSTGRES_UNIQUE_VIOLATION then conflict_of k else PgError c (Some k))"
| "create_error e = e"

lemma create_handler:
  "(if isUniqueViolation e then
      (case e of
         PgError _ (Some constraint) \<Rightarrow>
           if constraint = ''users_username_lower_key'' then raise (ConflictError ''Username already taken.'')
           else if constraint = ''users_email_key'' then raise (ConflictError ''Email already registered.'')
           else raise e
       | _ \<Rightarrow> raise e)
    else raise e) = raise (create_error e)"
  by (cases e rule: create_error.cases) (auto simp: isUniqueViolation_def conflict_of_def)

lemma user_create_apply:
  "user_create P nu w = (case pg_call (\<lambda>s. pq_insert P s nu) w of
     (Inl e, w1) \<Rightarrow> (Inl (create_error e), w1) | (Inr u, w1) \<Rightarrow> (Inr u, w1))"
  unfolding user_create_def attempt_def create_handler by (simp split: prod.split sum.split)

lemma create_error_AppError:
  "is_AppError (create_error (PgError c ko)) \<Longrightarrow>
     \<exists>k. c = POSTGRES_UNIQUE_VIOLATION \<and> ko = Some k \<and> create_error (PgError c ko) = conflict_of k"
  by (cases ko) (auto split: if_splits)

context postgres
begin

lemma create_laws:
  assumes "user_create P nu w = (r, w')"
  shows "w_redis w' = w_redis w" and "w_now w' = w_now w"
    and "r = Inr x \<Longrightarrow> storable pg_text uuid nu \<and> violated lower (rows (w_pg w)) nu = {} \<and>
      (\<exists>xs ys. rows (w_pg w) = xs @ ys \<and> rows (w_pg w') = xs @ inserted_row nu # ys)"
    and "r = Inl e \<Longrightarrow> is_AppError e \<Longrightarrow>
      (\<exists>k \<in> violated lower (rows (w_pg w)) nu. e = conflict_of k) \<and> rows (w_pg w') = rows (w_pg w)"
proof -
  let ?q = "\<lambda>s. pq_insert P s nu"
  obtain r0 where call: "pg_call ?q w = (r0, w')"
    and r: "r = map_sum create_error id r0"
    using assms by (auto simp: user_create_apply split: prod.splits sum.splits)
  show "w_redis w' = w_redis w" and "w_now w' = w_now w"
    using pg_call_frame [OF call] by simp_all
  show "r = Inr x \<Longrightarrow> storable pg_text uuid nu \<and> violated lower (rows (w_pg w)) nu = {} \<and>
      (\<exists>xs ys. rows (w_pg w) = xs @ ys \<and> rows (w_pg w') = xs @ inserted_row nu # ys)"
  proof -
    assume "r = Inr x"
    with r have "r0 = Inr x"
      by (cases r0) simp_all
    with call have q: "?q (w_pg w) = (Inr x, w_pg w')"
      using pg_call_InrD [of ?q w x w'] by simp
    have st: "storable pg_text uuid nu"
    proof (rule ccontr)
      assume "\<not> ?thesis"
      from insert_refused [OF this, of "w_pg w"] q show False by auto
    qed
    have fresh: "violated lower (rows (w_pg w)) nu = {}"
    proof (rule ccontr)
      assume "\<not> ?thesis"
      from insert_clash [OF st this] q show False by auto
    qed
    from insert_new [OF st fresh] q st fresh show ?thesis by auto
  qed
  show "r = Inl e \<Longrightarrow> is_AppError e \<Longrightarrow>
      (\<exists>k \<in> violated lower (rows (w_pg w)) nu. e = conflict_of k) \<and> rows (w_pg w') = rows (w_pg w)"
  proof -
    assume e: "r = Inl e" "is_AppError e"
    with r obtain e0 where r0: "r0 = Inl e0" and e0: "e = create_error e0"
      by (cases r0) auto
    from pg_call_InlD [OF call [unfolded r0]] e(2) e0 obtain c ko where
      c: "e0 = PgError c ko" "?q (w_pg w) = (Inl (c, ko), w_pg w')"
      by auto
    with create_error_AppError [of c ko] e(2) e0 obtain k where
      k: "c = POSTGRES_UNIQUE_VIOLATION" "ko = Some k" "e = conflict_of k"
      "?q (w_pg w) = (Inl (POSTGRES_UNIQUE_VIOLATION, Some k), w_pg w')"
      by blast
    have st: "storable pg_text uuid nu"
    proof (rule ccontr)
      assume "\<not> ?thesis"
      from insert_refused [OF this, of "w_pg w"] k(4) show False
        by (auto simp: POSTGRES_UNIQUE_VIOLATION_def UNIQUE_VIOLATION_def)
    qed
    have "violated lower (rows (w_pg w)) nu \<noteq> {}"
    proof
      assume "violated lower (rows (w_pg w)) nu = {}"
      from insert_new [OF st this] k(4) show False by auto
    qed
    from insert_clash [OF st this] k show ?thesis by auto
  qed
qed

lemma create_healthy:
  assumes "storable pg_text uuid nu" and "healthy w"
  shows "violated lower (rows (w_pg w)) nu = {} \<Longrightarrow> \<exists>w'. user_create P nu w = (Inr (), w') \<and> healthy w'"
    and "violated lower (rows (w_pg w)) nu \<noteq> {} \<Longrightarrow>
      \<exists>k \<in> violated lower (rows (w_pg w)) nu. \<exists>w'. user_create P nu w = (Inl (conflict_of k), w') \<and> healthy w' \<and>
        rows (w_pg w') = rows (w_pg w)"
proof -
  let ?q = "\<lambda>s. pq_insert P s nu"
  show "\<exists>w'. user_create P nu w = (Inr (), w') \<and> healthy w'"
    if fresh: "violated lower (rows (w_pg w)) nu = {}"
  proof -
    obtain s' where "?q (w_pg w) = (Inr (), s')"
      using insert_new [OF assms(1) fresh] by blast
    then show ?thesis
      using assms(2) by (simp add: user_create_apply)
  qed
  show "\<exists>k \<in> violated lower (rows (w_pg w)) nu. \<exists>w'. user_create P nu w = (Inl (conflict_of k), w') \<and> healthy w' \<and>
        rows (w_pg w') = rows (w_pg w)"
    if clash: "violated lower (rows (w_pg w)) nu \<noteq> {}"
  proof -
    obtain s' k where k: "?q (w_pg w) = (Inl (UNIQUE_VIOLATION, Some k), s')"
      "k \<in> violated lower (rows (w_pg w)) nu" "rows s' = rows (w_pg w)"
      using insert_clash [OF assms(1) clash] by blast
    then have "user_create P nu w = (Inl (conflict_of k), w\<lparr>w_pg := s'\<rparr>)"
      using assms(2) by (simp add: user_create_apply POSTGRES_UNIQUE_VIOLATION_def UNIQUE_VIOLATION_def)
    with k(2,3) assms(2) show ?thesis by auto
  qed
qed

end

sublocale postgres \<subseteq> db: user_store "user_repo P :: ('r, 'p) world user_ops"
  "\<lambda>w. rows (w_pg w)" lower pg_text uuid healthy
proof (unfold_locales, simp_all only: user_repo_simps, goal_cases)
  case (1 w)
  then show ?case by (rule constrained)
next
  case (2 n w r w')
  then have "andthen (pg_read (\<lambda>s. pq_by_username P s n)) (\<lambda>a. ret (first_row a)) w = (Inr r, w')"
    by (simp add: user_findByUsername_def)
  from lookup_laws(4) [OF this refl] show ?case
    using by_username_refused [of n "w_pg w"]
    by (cases "pg_text n") (auto simp: by_username first_row_take simp del: One_nat_def)
next
  case (3 n w e w')
  then show ?case using lookup_laws(5) unfolding user_findByUsername_def by fastforce
next
  case (4 i w e w')
  then show ?case using lookup_laws(5) unfolding user_findById_def by fastforce
next
  case (5 l off w e w')
  then show ?case using list_laws(6) unfolding user_listPaginated_def by fastforce
next
  case (6 n w e w')
  then show ?case using lookup_laws(5) unfolding user_existsByUsername_def by fastforce
next
  case (7 m w e w')
  then show ?case using lookup_laws(5) unfolding user_existsByEmail_def by fastforce
next
  case (8 n w)
  obtain r w' where run: "user_existsByUsername P n w = (r, w')"
    by (meson surj_pair)
  from lookup_laws(6) [OF run [unfolded user_existsByUsername_def]] 8 run show ?case
    by (auto simp: username_rows)
next
  case (9 m w)
  obtain r w' where run: "user_existsByEmail P m w = (r, w')"
    by (meson surj_pair)
  from lookup_laws(6) [OF run [unfolded user_existsByEmail_def]] 9 run show ?case
    by (auto simp: email_rows)
next
  case (10 n w r w')
  then show ?case using lookup_laws(1) unfolding user_findByUsername_def by metis
next
  case (11 n w)
  obtain r w' where run: "user_findByUsername P n w = (r, w')"
    by (meson surj_pair)
  from lookup_laws(6) [OF run [unfolded user_findByUsername_def]] 11 run show ?case
    by (auto simp: by_username)
next
  case (12 i w r w')
  then have "andthen (pg_read (\<lambda>s. pq_by_id P s i)) (\<lambda>a. ret (first_row a)) w = (Inr r, w')"
    by (simp add: user_findById_def)
  from lookup_laws(4) [OF this refl] 12(1) show ?case
    by (auto simp: by_id first_row_take simp del: One_nat_def)
next
  case (13 i w r w')
  then show ?case using lookup_laws(1) unfolding user_findById_def by metis
next
  case (14 i w)
  obtain r w' where run: "user_findById P i w = (r, w')"
    by (meson surj_pair)
  from lookup_laws(6) [OF run [unfolded user_findById_def]] 14 run show ?case
    by (auto simp: by_id)
next
  case (15 l off w us n w')
  then show ?case
    using list_laws(4) [of "\<lambda>s. pq_page P s l off" "pq_count P" w "Inr (us, n)" w']
    by (simp add: user_listPaginated_def page count)
next
  case (16 l off w r w')
  then show ?case using list_laws(1) unfolding user_listPaginated_def by metis
next
  case (17 n w b w')
  then have "andthen (pg_read (\<lambda>s. pq_username_rows P s n)) (\<lambda>k. ret (0 < k)) w = (Inr b, w')"
    by (simp add: user_existsByUsername_def)
  from lookup_laws(4) [OF this refl] show ?case
    using username_rows_refused [of n "w_pg w"]
    by (cases "pg_text n") (auto simp: username_rows some_row simp del: One_nat_def min_less_iff_conj)
next
  case (18 n w r w')
  then show ?case using lookup_laws(1) unfolding user_existsByUsername_def by metis
next
  case (19 m w b w')
  then have "andthen (pg_read (\<lambda>s. pq_email_rows P s m)) (\<lambda>k. ret (0 < k)) w = (Inr b, w')"
    by (simp add: user_existsByEmail_def)
  from lookup_laws(4) [OF this refl] show ?case
    using email_rows_refused [of m "w_pg w"]
    by (cases "pg_text m") (auto simp: email_rows some_row simp del: One_nat_def min_less_iff_conj)
next
  case (20 m w r w')
  then show ?case using lookup_laws(1) unfolding user_existsByEmail_def by metis
next
  case (21 nu w x w')
  then show ?case using create_laws(3) by blast
next
  case (22 nu w e w')
  then show ?case using create_laws(4) by blast
next
  case (23 nu w)
  then show ?case using create_healthy(1) by blast
next
  case (24 nu w)
  then show ?case using create_healthy(2) by blast
qed

subsection \<open>Properties\<close>

text \<open>
  The insert decides a race of registrations: against the rows as they are when it runs, a
  storable row is added exactly if no row has its id, its name (in any case) or its address;
  otherwise no row changes and, but for a clash of the random id, the answer is the 409 that
  tells which of the two is taken.
\<close>

theorem insert_decides:
  assumes "postgres P rows lower pg_text uuid" and "storable pg_text uuid nu" and "healthy w"
    and "user_create P nu w = (r, w')"
  shows "if \<forall>u \<in> set (rows (w_pg w)). ur_id u \<noteq> nu_id nu \<and> lower (ur_username u) \<noteq> lower (nu_username nu) \<and>
        ur_email u \<noteq> nu_email nu
    then r = Inr () \<and> (\<exists>xs ys. rows (w_pg w) = xs @ ys \<and> rows (w_pg w') = xs @ inserted_row nu # ys)
    else rows (w_pg w') = rows (w_pg w) \<and>
      ((\<exists>u \<in> set (rows (w_pg w)). ur_id u = nu_id nu) \<or>
       (r = Inl (ConflictError ''Username already taken.'') \<and>
          (\<exists>u \<in> set (rows (w_pg w)). lower (ur_username u) = lower (nu_username nu))) \<or>
       (r = Inl (ConflictError ''Email already registered.'') \<and>
          (\<exists>u \<in> set (rows (w_pg w)). ur_email u = nu_email nu)))"
proof (cases "violated lower (rows (w_pg w)) nu = {}")
  case True
  then have new: "\<forall>u \<in> set (rows (w_pg w)). ur_id u \<noteq> nu_id nu \<and> lower (ur_username u) \<noteq> lower (nu_username nu) \<and>
      ur_email u \<noteq> nu_email nu"
    by (auto simp: violated_def split: if_splits)
  with postgres.create_healthy(1) [OF assms(1-3) True] postgres.create_laws(3) [OF assms(1)] assms(4)
  show ?thesis by fastforce
next
  case False
  from postgres.create_healthy(2) [OF assms(1-3) False] assms(4) obtain k where
    k: "k \<in> violated lower (rows (w_pg w)) nu" "r = Inl (conflict_of k)" "rows (w_pg w') = rows (w_pg w)"
    by auto
  then show ?thesis
    by (auto simp: violated_def conflict_of_def split: if_splits)
qed

lemma insert_decides_witness:
  "let alice = \<lparr>ur_id = ''u1'', ur_name = ''Alice'', ur_username = ''Alice'', ur_passwordHash = ''x'',
         ur_email = ''a@b'', ur_role = User\<rparr>;
       w = \<lparr>w_redis = (), w_pg = [alice], w_now = 0, w_random = (\<lambda>_. []), w_drawn = 0, w_faults = []\<rparr>
   in fst (user_create ref_pg \<lparr>nu_id = ''u2'', nu_name = ''Al'', nu_username = ''aLICE'', nu_passwordHash = ''y'',
         nu_email = ''c@d''\<rparr> w) = Inl (ConflictError ''Username already taken.'')"
proof -
  let ?a = "\<lparr>ur_id = ''u1'', ur_name = ''Alice'', ur_username = ''Alice'', ur_passwordHash = ''x'',
         ur_email = ''a@b'', ur_role = User\<rparr>"
  let ?w = "\<lparr>w_redis = (), w_pg = [?a], w_now = 0, w_random = (\<lambda>_. []), w_drawn = 0, w_faults = []\<rparr>"
  let ?n = "\<lparr>nu_id = ''u2'', nu_name = ''Al'', nu_username = ''aLICE'', nu_passwordHash = ''y'', nu_email = ''c@d''\<rparr>"
  have "ref_rows [?a] = [?a]"
    by (simp add: ref_rows_def table_ok_def)
  moreover have "ref_lower ''Alice'' = ref_lower ''aLICE''"
    by code_simp
  moreover have "storable ref_pg_text ref_uuid ?n"
    by (simp add: storable_def ref_pg_text_def ref_uuid_def)
  ultimately show ?thesis
    using insert_decides [OF ref_postgres.postgres_axioms, of ?n ?w, OF _ _ surjective_pairing]
    by (simp add: healthy_def Let_def)
qed

end
