(* ===== verification/Validation.thy ===== *)
theory Validation
  imports Errors
begin

section \<open>Request validation\<close>

text \<open>
  \<open>src/validation/parse.ts\<close> and the zod schemas of the services. A schema is data: the
  fields of the object in order, each with the message for a value of the wrong type and
  its chain of checks, as the source writes it. Zod itself is a parameter; the locale
  \<open>zod_library\<close> states the documented behaviour the program relies on: an object is
  accepted when every field passes its chain, and the accepted value holds the transformed
  fields; otherwise the first issue is that of the first field that fails.
\<close>

datatype str_check =
    Trim
  | LowerCase
  | MinLength nat string
  | MaxLength nat string
  | EmailFormat string

datatype num_check =
    IsInt string
  | MinValue int string
  | MaxValue int string

text \<open>
  A required string, or a number coerced from the query string with a default for an absent
  field (\<open>z.coerce.number(..)...optional().default(d)\<close>).
\<close>

datatype field_schema =
    StringField string "str_check list"
  | NumberField string "num_check list" int

type_synonym object_schema = "(string \<times> field_schema) list"

text \<open>What \<open>Number(x)\<close> makes of a query value.\<close>

datatype number = NaN | Whole int | Fraction

record zod_lib =
  safeParse :: "object_schema \<Rightarrow> json option \<Rightarrow> string list + (string \<times> json) list"

subsection \<open>The documented result of a schema\<close>

fun run_str :: "(string \<Rightarrow> bool) \<Rightarrow> str_check list \<Rightarrow> string \<Rightarrow> string + string" where
  "run_str email [] s = Inr s"
| "run_str email (Trim # cs) s = run_str email cs (js_trim s)"
| "run_str email (LowerCase # cs) s = run_str email cs (js_toLowerCase s)"
| "run_str email (MinLength n m # cs) s = (if length s < n then Inl m else run_str email cs s)"
| "run_str email (MaxLength n m # cs) s = (if n < length s then Inl m else run_str email cs s)"
| "run_str email (EmailFormat m # cs) s = (if email s then run_str email cs s else Inl m)"

fun run_num :: "num_check list \<Rightarrow> int \<Rightarrow> string + int" where
  "run_num [] n = Inr n"
| "run_num (IsInt m # cs) n = run_num cs n"
| "run_num (MinValue k m # cs) n = (if n < k then Inl m else run_num cs n)"
| "run_num (MaxValue k m # cs) n = (if k < n then Inl m else run_num cs n)"

fun int_message :: "num_check list \<Rightarrow> string" where
  "int_message [] = []"
| "int_message (IsInt m # cs) = m"
| "int_message (_ # cs) = int_message cs"

fun field_result ::
  "(string \<Rightarrow> bool) \<Rightarrow> (json \<Rightarrow> number) \<Rightarrow> field_schema \<Rightarrow> json option \<Rightarrow> string + json" where
  "field_result email num (StringField err cs) (Some (JStr s)) = map_sum id JStr (run_str email cs s)"
| "field_result email num (StringField err cs) _ = Inl err"
| "field_result email num (NumberField err cs d) None = Inr (JNum d)"
| "field_result email num (NumberField err cs d) (Some j) =
     (case num j of NaN \<Rightarrow> Inl err | Fraction \<Rightarrow> Inl (int_message cs) | Whole n \<Rightarrow> map_sum id JNum (run_num cs n))"

fun object_result ::
  "(string \<Rightarrow> bool) \<Rightarrow> (json \<Rightarrow> number) \<Rightarrow> object_schema \<Rightarrow> (string \<times> json) list \<Rightarrow>
   string + (string \<times> json) list" where
  "object_result email num [] ob = Inr []"
| "object_result email num ((k, f) # fs) ob =
     (case field_result email num f (js_field ob k) of
        Inl m \<Rightarrow> Inl m
      | Inr v \<Rightarrow> map_sum id (\<lambda>rest. (k, v) # rest) (object_result email num fs ob))"

locale zod_library =
  fixes Z :: zod_lib
    and email :: "string \<Rightarrow> bool"
    and num :: "json \<Rightarrow> number"
  assumes accepts: "object_result email num sch ob = Inr out \<Longrightarrow> safeParse Z sch (Some (JObj ob)) = Inr out"
    and rejects: "object_result email num sch ob = Inl m \<Longrightarrow>
      \<exists>ms. safeParse Z sch (Some (JObj ob)) = Inl (m # ms)"
    and rejects_others: "(\<And>ob. i \<noteq> Some (JObj ob)) \<Longrightarrow> \<exists>m ms. safeParse Z sch i = Inl (m # ms)"

subsection \<open>\<open>parseOrThrow\<close>\<close>

definition parseOrThrow :: "zod_lib \<Rightarrow> object_schema \<Rightarrow> json option \<Rightarrow> exn + (string \<times> json) list" where
  "parseOrThrow Z sch i = (case safeParse Z sch i of
     Inr d \<Rightarrow> Inr d
   | Inl [] \<Rightarrow> Inl (JsError ''TypeError'')
   | Inl (m # ms) \<Rightarrow> Inl (ValidationError m))"

context zod_library
begin

lemma parse_object:
  "parseOrThrow Z sch (Some (JObj ob)) = map_sum ValidationError id (object_result email num sch ob)"
  using accepts [of sch ob] rejects [of sch ob]
  by (cases "object_result email num sch ob") (auto simp: parseOrThrow_def)

lemma parse_other:
  assumes "\<And>ob. i \<noteq> Some (JObj ob)"
  shows "\<exists>m. parseOrThrow Z sch i = Inl (ValidationError m)"
  using rejects_others [OF assms, of sch] by (auto simp: parseOrThrow_def)

text \<open>Whatever the body, validation fails in one way only: with a 400.\<close>

lemma parse_error:
  assumes "parseOrThrow Z sch i = Inl e"
  shows "\<exists>m. e = ValidationError m"
proof (cases "\<exists>ob. i = Some (JObj ob)")
  case True
  then obtain ob where "i = Some (JObj ob)" by blast
  with assms show ?thesis
    by (cases "object_result email num sch ob") (auto simp: parse_object)
next
  case False
  with parse_other [of i sch] assms show ?thesis by auto
qed

lemma parse_Inr:
  assumes "parseOrThrow Z sch i = Inr out"
  shows "\<exists>ob. i = Some (JObj ob) \<and> object_result email num sch ob = Inr out"
proof (cases "\<exists>ob. i = Some (JObj ob)")
  case True
  then obtain ob where i: "i = Some (JObj ob)" by blast
  with assms have "object_result email num sch ob = Inr out"
    by (cases "object_result email num sch ob") (auto simp: parse_object)
  with i show ?thesis by blast
next
  case False
  with parse_other [of i sch] assms show ?thesis by auto
qed

end

subsection \<open>A reference validator\<close>

text \<open>The documented result, computed; it serves the witnesses.\<close>

definition ref_zod :: "(string \<Rightarrow> bool) \<Rightarrow> (json \<Rightarrow> number) \<Rightarrow> zod_lib" where
  "ref_zod email num = \<lparr>safeParse = (\<lambda>sch i. case i of
      Some (JObj ob) \<Rightarrow> map_sum (\<lambda>m. [m]) id (object_result email num sch ob)
    | _ \<Rightarrow> Inl [''Invalid input''])\<rparr>"

definition ref_email :: "string \<Rightarrow> bool" where
  "ref_email s \<longleftrightarrow> CHR ''@'' \<in> set s"

fun ref_number :: "json \<Rightarrow> number" where
  "ref_number (JNum n) = Whole n"
| "ref_number (JStr s) = (if s = ''5'' then Whole 5 else if s = ''0'' then Whole 0 else NaN)"
| "ref_number _ = NaN"

interpretation ref_zod: zod_library "ref_zod ref_email ref_number" ref_email ref_number
proof unfold_locales
  fix i sch
  assume "\<And>ob. i \<noteq> Some (JObj ob)"
  then show "\<exists>m ms. safeParse (ref_zod ref_email ref_number) sch i = Inl (m # ms)"
    by (cases i rule: option.exhaust; cases "the i") (auto simp: ref_zod_def)
qed (auto simp: ref_zod_def)

end
