(* ===== verification/AuthService.thy ===== *)
theory AuthService
  imports SessionContract LoginThrottle TokenService CacheRepository UserRepository Validation
begin

section \<open>The authentication service\<close>

text \<open>
  \<open>src/services/AuthService.ts\<close>. The constructor's collaborators, and what the service
  imports (\<open>bcryptjs.compare\<close>, \<open>randomUUID\<close>, \<open>Date.now\<close>, zod), are one record
  \<open>auth_deps\<close>; the methods are definitions over it. The locale \<open>auth_backend\<close> is the
  collaborators' contracts together with the independence of their state; the behaviour of
  the service is proved from it.
\<close>

definition CREDENTIALS_REQUIRED_MESSAGE :: string where
  "CREDENTIALS_REQUIRED_MESSAGE = ''Username and password are required.''"

definition INVALID_REFRESH_TOKEN_MESSAGE :: string where
  "INVALID_REFRESH_TOKEN_MESSAGE = ''Invalid refresh token.''"

definition DUMMY_PASSWORD_HASH :: string where
  "DUMMY_PASSWORD_HASH = ''$2b$12$N8DZ7uzc8TAyWiPvYcdXoOWfKC0ALogP42AwN.hdaE9tXoaZqYWUu''"

definition loginSchema :: object_schema where
  "loginSchema =
     [(''username'', StringField CREDENTIALS_REQUIRED_MESSAGE [Trim, MinLength 1 CREDENTIALS_REQUIRED_MESSAGE]),
      (''password'', StringField CREDENTIALS_REQUIRED_MESSAGE [MinLength 1 CREDENTIALS_REQUIRED_MESSAGE])]"

record login_result =
  lr_accessToken :: string
  lr_refreshToken :: string
  lr_user :: user_public

record refresh_result =
  rr_accessToken :: string
  rr_refreshToken :: string

record 'w auth_deps =
  ad_users :: "'w user_ops"
  ad_cache :: "'w cache_ops"
  ad_sessions :: "'w session_ops"
  ad_throttle :: "'w throttle_ops"
  ad_generateRefreshToken :: "('w, exn, refresh_token_pair) act"
  ad_signAccessToken :: "string \<Rightarrow> string \<Rightarrow> user_role \<Rightarrow> ('w, exn, string) act"
  ad_hashRefreshValidator :: "string \<Rightarrow> string"
  ad_compare :: "string \<Rightarrow> string \<Rightarrow> bool"
  ad_randomUUID :: "('w, exn, string) act"
  ad_now :: "('w, exn, int) act"
  ad_zod :: zod_lib

subsection \<open>The methods\<close>

text \<open>\<open>const { username, password } = parseOrThrow(loginSchema, rawInput)\<close>.\<close>

definition login_credentials :: "zod_lib \<Rightarrow> json option \<Rightarrow> exn + string \<times> string" where
  "login_credentials Z rawInput =
     (case parseOrThrow Z loginSchema rawInput of
        Inl e \<Rightarrow> Inl e
      | Inr d \<Rightarrow> (case (as_str (js_field d ''username''), as_str (js_field d ''password'')) of
          (Some u, Some p) \<Rightarrow> Inr (u, p) | _ \<Rightarrow> Inl (JsError ''TypeError'')))"

text \<open>The record a login creates (the optional fields are left out).\<close>

definition new_session :: "user_record \<Rightarrow> string \<Rightarrow> int \<Rightarrow> session" where
  "new_session user hash now =
     \<lparr>se_userId = ur_id user, se_role = ur_role user, se_refreshTokenHash = hash,
      se_previousRefreshTokenHash = None, se_rotatedAt = None, se_createdAt = now,
      se_expiresAt = now + SESSION_IDLE_TTL_SECONDS * 1000,
      se_absoluteExpiresAt = now + SESSION_ABSOLUTE_TTL_SECONDS * 1000\<rparr>"

text \<open>\<open>login\<close> after the password matched: lines 78 to 112.\<close>

definition open_session :: "'w auth_deps \<Rightarrow> string \<Rightarrow> user_record \<Rightarrow> ('w, exn, login_result) act" where
  "open_session D username user =
     andthen (th_reset (ad_throttle D) username) (\<lambda>_.
     andthen (ad_randomUUID D) (\<lambda>sessionId.
     andthen (ad_generateRefreshToken D) (\<lambda>token.
     andthen (ad_now D) (\<lambda>now.
     andthen (so_create (ad_sessions D) sessionId (new_session user (rt_hash token) now)) (\<lambda>_.
     let publicUser = toPublicUser user in
     andthen (attempt (ca_set (ad_cache D) (ur_id user) publicUser) (\<lambda>error. ret ())) (\<lambda>_.
     andthen (ad_signAccessToken D (ur_id user) sessionId (ur_role user)) (\<lambda>accessToken.
       ret \<lparr>lr_accessToken = accessToken,
            lr_refreshToken = sessionId @ ''.'' @ rt_validator token,
            lr_user = publicUser\<rparr>)))))))"

definition auth_login :: "'w auth_deps \<Rightarrow> json option \<Rightarrow> ('w, exn, login_result) act" where
  "auth_login D rawInput =
     andthen (lift_sum (login_credentials (ad_zod D) rawInput)) (\<lambda>(username, password).
     andthen (th_assert (ad_throttle D) username) (\<lambda>_.
     andthen (us_findByUsername (ad_users D) username) (\<lambda>user.
     let passwordMatch = ad_compare D password
           (case user of None \<Rightarrow> DUMMY_PASSWORD_HASH | Some u \<Rightarrow> ur_passwordHash u) in
     (case user of
        Some u \<Rightarrow>
          if \<not> passwordMatch
          then andthen (th_record (ad_throttle D) username) (\<lambda>_.
                 raise (UnauthorizedError ''Invalid credentials.''))
          else open_session D username u
      | None \<Rightarrow>
          andthen (th_record (ad_throttle D) username) (\<lambda>_.
            raise (UnauthorizedError ''Invalid credentials.''))))))"

text \<open>
  \<open>refresh\<close> takes whatever the body holds. \<open>splitRefreshToken\<close> calls \<open>raw.indexOf\<close>,
  which a string and an array have; any other truthy value throws a \<open>TypeError\<close>. From an
  array it slices arrays: the session id then enters the key as its text, and the validator
  (\<open>None\<close>) is no string, so hashing it throws.
\<close>

definition split_value :: "json \<Rightarrow> exn + (string \<times> string option) option" where
  "split_value raw = (case raw of
     JStr s \<Rightarrow> Inr (map_option (\<lambda>x. (sp_sessionId x, Some (sp_validator x))) (splitRefreshToken s))
   | JArr xs \<Rightarrow>
       (let separatorIndex = js_array_indexOf ''.'' xs in
        if separatorIndex \<le> 0 \<or> separatorIndex = int (length xs) - 1 then Inr None
        else Inr (Some (js_to_string (JArr (take (nat separatorIndex) xs)), None)))
   | _ \<Rightarrow> Inl (JsError ''TypeError''))"

definition auth_refresh :: "'w auth_deps \<Rightarrow> json option \<Rightarrow> ('w, exn, refresh_result) act" where
  "auth_refresh D rawRefreshToken =
     (if \<not> js_truthy rawRefreshToken then raise (ValidationError ''Refresh token is required.'')
      else
     andthen (lift_sum (split_value (the rawRefreshToken))) (\<lambda>split.
     case split of
       None \<Rightarrow> raise (UnauthorizedError INVALID_REFRESH_TOKEN_MESSAGE)
     | Some (sessionId, validator) \<Rightarrow>
     andthen (so_get (ad_sessions D) sessionId) (\<lambda>session.
     case session of
       None \<Rightarrow> raise (UnauthorizedError INVALID_REFRESH_TOKEN_MESSAGE)
     | Some s \<Rightarrow>
     andthen (us_findById (ad_users D) (se_userId s)) (\<lambda>user.
     case user of
       None \<Rightarrow> andthen (so_deleteAllForUser (ad_sessions D) (se_userId s)) (\<lambda>_.
                 raise (UnauthorizedError INVALID_REFRESH_TOKEN_MESSAGE))
     | Some u \<Rightarrow>
     andthen (ad_generateRefreshToken D) (\<lambda>nxt.
     case validator of
       None \<Rightarrow> raise (JsError ''TypeError'')
     | Some v \<Rightarrow>
     andthen (ad_now D) (\<lambda>now.
     andthen (so_rotate (ad_sessions D) sessionId (se_userId s)
         \<lparr>rp_presentedHash = ad_hashRefreshValidator D v, rp_newHash = rt_hash nxt,
          rp_role = ur_role u, rp_now = now\<rparr>) (\<lambda>outcome.
     case outcome of
       Rotated \<Rightarrow> andthen (ad_signAccessToken D (ur_id u) sessionId (ur_role u)) (\<lambda>accessToken.
         ret \<lparr>rr_accessToken = accessToken, rr_refreshToken = sessionId @ ''.'' @ rt_validator nxt\<rparr>)
     | Concurrent \<Rightarrow> raise (ConflictError ''Refresh token was already rotated by a concurrent request.'')
     | Reused \<Rightarrow> raise (UnauthorizedError INVALID_REFRESH_TOKEN_MESSAGE)
     | Missing \<Rightarrow> raise (UnauthorizedError INVALID_REFRESH_TOKEN_MESSAGE))))))))"

definition auth_logout :: "'w auth_deps \<Rightarrow> string option \<Rightarrow> string option \<Rightarrow> ('w, exn, unit) act" where
  "auth_logout D sessionId userId =
     (if js_falsy sessionId \<or> js_falsy userId then raise (UnauthorizedError ''Session is required.'')
      else so_delete (ad_sessions D) (the sessionId) (the userId))"

definition auth_logoutAll :: "'w auth_deps \<Rightarrow> string option \<Rightarrow> ('w, exn, nat) act" where
  "auth_logoutAll D userId =
     (if js_falsy userId then raise (UnauthorizedError ''Session is required.'')
      else so_deleteAllForUser (ad_sessions D) (the userId))"

text \<open>The same method with its two branches named.\<close>

definition login_refusal :: "'w auth_deps \<Rightarrow> string \<Rightarrow> ('w, exn, login_result) act" where
  "login_refusal D username = andthen (th_record (ad_throttle D) username) (\<lambda>_.
     raise (UnauthorizedError ''Invalid credentials.''))"

definition login_answer ::
  "'w auth_deps \<Rightarrow> string \<Rightarrow> string \<Rightarrow> user_record option \<Rightarrow> ('w, exn, login_result) act" where
  "login_answer D username password user = (case user of
     None \<Rightarrow> login_refusal D username
   | Some u \<Rightarrow> if ad_compare D password (ur_passwordHash u) then open_session D username u
               else login_refusal D username)"

lemma login_steps:
  assumes "login_credentials (ad_zod D) raw = Inr (n, p)"
  shows "auth_login D raw =
    andthen (th_assert (ad_throttle D) n) (\<lambda>_.
    andthen (us_findByUsername (ad_users D) n) (login_answer D n p))"
proof -
  have "(let passwordMatch = ad_compare D p
           (case user of None \<Rightarrow> DUMMY_PASSWORD_HASH | Some u \<Rightarrow> ur_passwordHash u) in
     (case user of
        Some u \<Rightarrow>
          if \<not> passwordMatch
          then andthen (th_record (ad_throttle D) n) (\<lambda>_.
                 raise (UnauthorizedError ''Invalid credentials.''))
          else open_session D n u
      | None \<Rightarrow>
          andthen (th_record (ad_throttle D) n) (\<lambda>_.
            raise (UnauthorizedError ''Invalid credentials.'')))) = login_answer D n p user" for user
    by (simp add: login_answer_def login_refusal_def split: option.split)
  then show ?thesis
    using assms by (simp add: auth_login_def Let_def)
qed

text \<open>\<open>refresh\<close> from the point where the session was found: lines 133 to 178.\<close>

definition refresh_answer ::
  "'w auth_deps \<Rightarrow> user_record \<Rightarrow> string \<Rightarrow> refresh_token_pair \<Rightarrow> rotate_outcome \<Rightarrow> ('w, exn, refresh_result) act" where
  "refresh_answer D u sessionId nxt outcome = (case outcome of
     Rotated \<Rightarrow> andthen (ad_signAccessToken D (ur_id u) sessionId (ur_role u)) (\<lambda>accessToken.
         ret \<lparr>rr_accessToken = accessToken, rr_refreshToken = sessionId @ ''.'' @ rt_validator nxt\<rparr>)
   | Concurrent \<Rightarrow> raise (ConflictError ''Refresh token was already rotated by a concurrent request.'')
   | _ \<Rightarrow> raise (UnauthorizedError INVALID_REFRESH_TOKEN_MESSAGE))"

definition refresh_user ::
  "'w auth_deps \<Rightarrow> string \<Rightarrow> string option \<Rightarrow> session \<Rightarrow> user_record \<Rightarrow> ('w, exn, refresh_result) act" where
  "refresh_user D sessionId validator s u =
     andthen (ad_generateRefreshToken D) (\<lambda>nxt. case validator of
       None \<Rightarrow> raise (JsError ''TypeError'')
     | Some v \<Rightarrow> andthen (ad_now D) (\<lambda>now.
         andthen (so_rotate (ad_sessions D) sessionId (se_userId s)
           \<lparr>rp_presentedHash = ad_hashRefreshValidator D v, rp_newHash = rt_hash nxt,
            rp_role = ur_role u, rp_now = now\<rparr>) (refresh_answer D u sessionId nxt)))"

definition refresh_session ::
  "'w auth_deps \<Rightarrow> string \<Rightarrow> string option \<Rightarrow> session option \<Rightarrow> ('w, exn, refresh_result) act" where
  "refresh_session D sessionId validator session = (case session of
     None \<Rightarrow> raise (UnauthorizedError INVALID_REFRESH_TOKEN_MESSAGE)
   | Some s \<Rightarrow> andthen (us_findById (ad_users D) (se_userId s)) (\<lambda>user. case user of
       None \<Rightarrow> andthen (so_deleteAllForUser (ad_sessions D) (se_userId s)) (\<lambda>_.
                 raise (UnauthorizedError INVALID_REFRESH_TOKEN_MESSAGE))
     | Some u \<Rightarrow> refresh_user D sessionId validator s u))"

lemma refresh_steps:
  assumes "js_truthy (Some raw)" and "split_value raw = Inr (Some (i, v))"
  shows "auth_refresh D (Some raw) = andthen (so_get (ad_sessions D) i) (refresh_session D i v)"
  using assms
  by (cases v) (simp_all add: auth_refresh_def refresh_session_def [abs_def] refresh_user_def [abs_def]
      refresh_answer_def [abs_def])

text \<open>Every token the service hands out goes through this path.\<close>

lemma refresh_steps_token:
  assumes "CHR ''.'' \<notin> set i" "i \<noteq> []" "v \<noteq> []"
  shows "auth_refresh D (Some (JStr (refresh_token i v))) =
    andthen (so_get (ad_sessions D) i) (refresh_session D i (Some v))"
  by (rule refresh_steps) (simp_all add: split_value_def split_refresh_token [OF assms], simp add: refresh_token_def)

subsection \<open>What the service relies on\<close>

text \<open>\<open>keeps ok V m\<close>: the action \<open>m\<close> does not change the view \<open>V\<close>, whatever its outcome.\<close>

definition keeps :: "('w \<Rightarrow> bool) \<Rightarrow> ('w \<Rightarrow> 'v) \<Rightarrow> ('w, 'e, 'a) act \<Rightarrow> bool" where
  "keeps ok V m \<longleftrightarrow> (\<forall>w r w'. ok w \<longrightarrow> m w = (r, w') \<longrightarrow> V w' = V w)"

lemma keepsD: "keeps ok V m \<Longrightarrow> ok w \<Longrightarrow> m w = (r, w') \<Longrightarrow> V w' = V w"
  by (auto simp: keeps_def)

text \<open>
  The contracts of the four collaborators, on one world; each keeps what the others show,
  and drawing random values or reading the clock keeps everything. \<open>sha\<close> hashes the
  validator of a new token as the service hashes a presented one.
\<close>

locale auth_backend =
  sessions: session_store "ad_sessions D" sess idx sok up clock +
  throttle: login_throttle "ad_throttle D" th fails lock tok up tclock +
  cache: profile_cache "ad_cache D" cached cok up +
  accounts: user_store "ad_users D" users lower pg_text uuid up
  for D :: "'w auth_deps"
    and sess :: "'w \<Rightarrow> string \<Rightarrow> session option"
    and idx :: "'w \<Rightarrow> string \<Rightarrow> string set"
    and sok :: "'w \<Rightarrow> bool" and up :: "'w \<Rightarrow> bool" and clock :: "'w \<Rightarrow> int"
    and th :: throttle and fails :: "'w \<Rightarrow> string \<Rightarrow> int" and lock :: "'w \<Rightarrow> string \<Rightarrow> int option"
    and tok :: "'w \<Rightarrow> bool" and tclock :: "'w \<Rightarrow> int"
    and cached :: "'w \<Rightarrow> string \<Rightarrow> user_public option" and cok :: "'w \<Rightarrow> bool"
    and users :: "'w \<Rightarrow> user_record list" and lower :: "string \<Rightarrow> string"
    and pg_text :: "string \<Rightarrow> bool" and uuid :: "string \<Rightarrow> bool" +
  assumes get_keeps: "keeps sok (\<lambda>w. (fails w, lock w, tok w, tclock w, cached w, cok w, users w))
            (so_get (ad_sessions D) i)"
    and create_keeps: "keeps sok (\<lambda>w. (fails w, lock w, tok w, tclock w, cached w, cok w, users w))
            (so_create (ad_sessions D) i s)"
    and rotate_keeps: "keeps sok (\<lambda>w. (fails w, lock w, tok w, tclock w, cached w, cok w, users w))
            (so_rotate (ad_sessions D) i uid p)"
    and delete_keeps: "keeps sok (\<lambda>w. (fails w, lock w, tok w, tclock w, cached w, cok w, users w))
            (so_delete (ad_sessions D) i uid)"
    and delete_all_keeps: "keeps sok (\<lambda>w. (fails w, lock w, tok w, tclock w, cached w, cok w, users w))
            (so_deleteAllForUser (ad_sessions D) uid)"
    and assert_keeps: "keeps tok (\<lambda>w. (sess w, idx w, sok w, clock w, cached w, cok w, users w))
            (th_assert (ad_throttle D) n)"
    and record_keeps: "keeps tok (\<lambda>w. (sess w, idx w, sok w, clock w, cached w, cok w, users w))
            (th_record (ad_throttle D) n)"
    and reset_keeps: "keeps tok (\<lambda>w. (sess w, idx w, sok w, clock w, cached w, cok w, users w))
            (th_reset (ad_throttle D) n)"
    and cache_keeps: "keeps cok (\<lambda>w. (sess w, idx w, sok w, clock w, fails w, lock w, tok w, tclock w, users w))
            (ca_set (ad_cache D) i pr)"
    and find_name_keeps: "keeps (\<lambda>w. True)
            (\<lambda>w. (sess w, idx w, sok w, clock w, fails w, lock w, tok w, tclock w, cached w, cok w))
            (us_findByUsername (ad_users D) n)"
    and find_id_keeps: "keeps (\<lambda>w. True)
            (\<lambda>w. (sess w, idx w, sok w, clock w, fails w, lock w, tok w, tclock w, cached w, cok w))
            (us_findById (ad_users D) i)"
    and uuid_draw: "\<exists>i w'. ad_randomUUID D w = (Inr i, w') \<and> (sess w', idx w', sok w', clock w', fails w', lock w', tok w', tclock w', cached w', cok w', users w') =
            (sess w, idx w, sok w, clock w, fails w, lock w, tok w, tclock w, cached w, cok w, users w)
            \<and> (up w \<longrightarrow> up w')"
    and token_draw: "\<exists>v w'. ad_generateRefreshToken D w =
              (Inr \<lparr>rt_validator = v, rt_hash = ad_hashRefreshValidator D v\<rparr>, w') \<and> (sess w', idx w', sok w', clock w', fails w', lock w', tok w', tclock w', cached w', cok w', users w') =
            (sess w, idx w, sok w, clock w, fails w, lock w, tok w, tclock w, cached w, cok w, users w)
            \<and> (up w \<longrightarrow> up w')"
    and now_reads: "ad_now D w = (Inr (clock w), w)"
    and sign_reads: "\<exists>r. ad_signAccessToken D i sid role w = (r, w)"
    and sign_err: "ad_signAccessToken D i sid role w = (Inl e, w') \<Longrightarrow> \<not> is_AppError e"
begin

text \<open>What every step leaves alone, spelled out.\<close>

lemma session_steps:
  assumes "sok w" and "so_get (ad_sessions D) i w = (r1, w') \<or> so_create (ad_sessions D) i s w = (r2, w') \<or>
    so_rotate (ad_sessions D) i uid p w = (r3, w') \<or> so_delete (ad_sessions D) i uid w = (r2, w') \<or>
    so_deleteAllForUser (ad_sessions D) uid w = (r4, w')"
  shows "fails w' = fails w" "lock w' = lock w" "tok w' = tok w" "tclock w' = tclock w"
    "cached w' = cached w" "cok w' = cok w" "users w' = users w" "sok w'" "clock w' = clock w"
proof -
  have "(fails w', lock w', tok w', tclock w', cached w', cok w', users w') =
      (fails w, lock w, tok w, tclock w, cached w, cok w, users w)"
    using assms(2) keepsD [OF get_keeps assms(1)] keepsD [OF create_keeps assms(1)]
      keepsD [OF rotate_keeps assms(1)] keepsD [OF delete_keeps assms(1)]
      keepsD [OF delete_all_keeps assms(1)] by blast
  then show "fails w' = fails w" "lock w' = lock w" "tok w' = tok w" "tclock w' = tclock w"
    "cached w' = cached w" "cok w' = cok w" "users w' = users w"
    by simp_all
  have "sok w' \<and> clock w' = clock w"
    using assms(2) sessions.get_frame [OF assms(1)] sessions.create_ok [OF assms(1)]
      sessions.rotate_ok [OF assms(1)] sessions.delete_ok [OF assms(1)]
      sessions.delete_all_ok [OF assms(1)] by blast
  then show "sok w'" "clock w' = clock w"
    by simp_all
qed

lemma throttle_steps:
  assumes "tok w" and "th_assert (ad_throttle D) n w = (r, w') \<or> th_record (ad_throttle D) n w = (r, w') \<or>
    th_reset (ad_throttle D) n w = (r, w')"
  shows "sess w' = sess w" "idx w' = idx w" "sok w' = sok w" "clock w' = clock w"
    "cached w' = cached w" "cok w' = cok w" "users w' = users w" "tok w'" "tclock w' = tclock w"
proof -
  have "(sess w', idx w', sok w', clock w', cached w', cok w', users w') =
      (sess w, idx w, sok w, clock w, cached w, cok w, users w)"
    using assms(2) keepsD [OF assert_keeps assms(1)] keepsD [OF record_keeps assms(1)]
      keepsD [OF reset_keeps assms(1)] by blast
  then show "sess w' = sess w" "idx w' = idx w" "sok w' = sok w" "clock w' = clock w"
    "cached w' = cached w" "cok w' = cok w" "users w' = users w"
    by simp_all
  have "tok w' \<and> tclock w' = tclock w"
    using assms(2) throttle.assert_frame [OF assms(1)] throttle.rec_ok [OF assms(1)]
      throttle.reset_ok [OF assms(1)] by blast
  then show "tok w'" "tclock w' = tclock w"
    by simp_all
qed

lemma user_steps:
  assumes "us_findByUsername (ad_users D) n w = (r, w') \<or> us_findById (ad_users D) i w = (r, w')"
  shows "sess w' = sess w" "idx w' = idx w" "sok w' = sok w" "clock w' = clock w"
    "fails w' = fails w" "lock w' = lock w" "tok w' = tok w" "tclock w' = tclock w"
    "cached w' = cached w" "cok w' = cok w" "users w' = users w"
proof -
  have "(sess w', idx w', sok w', clock w', fails w', lock w', tok w', tclock w', cached w', cok w') =
      (sess w, idx w, sok w, clock w, fails w, lock w, tok w, tclock w, cached w, cok w)"
    using assms keepsD [OF find_name_keeps TrueI] keepsD [OF find_id_keeps TrueI] by blast
  then show "sess w' = sess w" "idx w' = idx w" "sok w' = sok w" "clock w' = clock w"
    "fails w' = fails w" "lock w' = lock w" "tok w' = tok w" "tclock w' = tclock w"
    "cached w' = cached w" "cok w' = cok w"
    by simp_all
  show "users w' = users w"
    using assms accounts.find_name_frame accounts.find_id_frame by blast
qed

lemma cache_step:
  assumes "cok w" and "ca_set (ad_cache D) i pr w = (r, w')"
  shows "sess w' = sess w" "idx w' = idx w" "sok w' = sok w" "clock w' = clock w"
    "fails w' = fails w" "lock w' = lock w" "tok w' = tok w" "tclock w' = tclock w"
    "users w' = users w" "cok w'"
proof -
  have "(sess w', idx w', sok w', clock w', fails w', lock w', tok w', tclock w', users w') =
      (sess w, idx w, sok w, clock w, fails w, lock w, tok w, tclock w, users w)"
    using keepsD [OF cache_keeps assms(1,2)] by simp
  then show "sess w' = sess w" "idx w' = idx w" "sok w' = sok w" "clock w' = clock w"
    "fails w' = fails w" "lock w' = lock w" "tok w' = tok w" "tclock w' = tclock w"
    "users w' = users w"
    by simp_all
  show "cok w'"
    using cache.cache_put_ok [OF assms] by blast
qed

text \<open>A drawn identifier and a drawn token: everything else stays.\<close>

lemma draw_steps:
  assumes "ad_randomUUID D w = (r1, w') \<or> ad_generateRefreshToken D w = (r2, w')"
  shows "sess w' = sess w" "idx w' = idx w" "sok w' = sok w" "clock w' = clock w"
    "fails w' = fails w" "lock w' = lock w" "tok w' = tok w" "tclock w' = tclock w"
    "cached w' = cached w" "cok w' = cok w" "users w' = users w" "up w \<Longrightarrow> up w'"
proof -
  have all: "(sess w', idx w', sok w', clock w', fails w', lock w', tok w', tclock w', cached w', cok w', users w') =
      (sess w, idx w, sok w, clock w, fails w, lock w, tok w, tclock w, cached w, cok w, users w)
      \<and> (up w \<longrightarrow> up w')"
  proof -
    obtain i wa where a: "ad_randomUUID D w = (Inr i, wa)"
      and va: "(sess wa, idx wa, sok wa, clock wa, fails wa, lock wa, tok wa, tclock wa, cached wa, cok wa, users wa) =
        (sess w, idx w, sok w, clock w, fails w, lock w, tok w, tclock w, cached w, cok w, users w) \<and> (up w \<longrightarrow> up wa)"
      using uuid_draw [of w] by blast
    obtain t wb where b: "ad_generateRefreshToken D w = (Inr t, wb)"
      and vb: "(sess wb, idx wb, sok wb, clock wb, fails wb, lock wb, tok wb, tclock wb, cached wb, cok wb, users wb) =
        (sess w, idx w, sok w, clock w, fails w, lock w, tok w, tclock w, cached w, cok w, users w) \<and> (up w \<longrightarrow> up wb)"
      using token_draw [of w] by blast
    have "w' = wa \<or> w' = wb"
      using assms unfolding a b by blast
    with va vb show ?thesis by blast
  qed
  then show "sess w' = sess w" "idx w' = idx w" "sok w' = sok w" "clock w' = clock w"
    "fails w' = fails w" "lock w' = lock w" "tok w' = tok w" "tclock w' = tclock w"
    "cached w' = cached w" "cok w' = cok w" "users w' = users w" "up w \<Longrightarrow> up w'"
    by simp_all
qed

lemma token_hash: "ad_generateRefreshToken D w = (Inr t, w') \<Longrightarrow>
    rt_hash t = ad_hashRefreshValidator D (rt_validator t)"
  using token_draw [of w] by auto

text \<open>The cache write inside its \<open>try\<close>: it never throws and changes the cache only.\<close>

lemma cache_try:
  assumes "cok w" and "attempt (ca_set (ad_cache D) i pr) (\<lambda>_. ret ()) w = (r, w')"
  shows "r = Inr ()" "sess w' = sess w" "idx w' = idx w" "sok w' = sok w" "clock w' = clock w"
    "fails w' = fails w" "lock w' = lock w" "tok w' = tok w" "tclock w' = tclock w"
    "users w' = users w" "cok w'"
proof -
  obtain r0 where call: "ca_set (ad_cache D) i pr w = (r0, w')" and r: "r = Inr ()"
    using assms(2) by (auto simp: attempt_def split: prod.splits sum.splits)
  from r show "r = Inr ()" .
  show "sess w' = sess w" "idx w' = idx w" "sok w' = sok w" "clock w' = clock w"
    "fails w' = fails w" "lock w' = lock w" "tok w' = tok w" "tclock w' = tclock w"
    "users w' = users w" "cok w'"
    using cache_step [OF assms(1) call] by simp_all
qed

text \<open>A session record a login creates is alive when it is created.\<close>

lemma new_session_alive: "now < se_absoluteExpiresAt (new_session u h now)"
  by (simp add: new_session_def session_constants)

text \<open>
  \<open>open_session\<close>: a result means the failures are forgotten and the session exists; an
  error is never an \<open>AppError\<close>.
\<close>

lemma open_session_Inr:
  assumes "sok w" "tok w" "cok w" and "open_session D n u w = (Inr res, w')"
  shows "\<exists>i v tk. res = \<lparr>lr_accessToken = tk, lr_refreshToken = refresh_token i v, lr_user = toPublicUser u\<rparr> \<and>
    sess w' = (sess w)(i \<mapsto> new_session u (ad_hashRefreshValidator D v) (clock w)) \<and>
    idx w' = (idx w)(ur_id u := insert i (idx w (ur_id u))) \<and>
    fails w' = (fails w)(normalize n := 0) \<and> lock w' = (lock w)(normalize n := None) \<and>
    users w' = users w \<and> sok w' \<and> tok w' \<and> cok w' \<and> clock w' = clock w \<and>
    (\<exists>w0. ad_signAccessToken D (ur_id u) i (ur_role u) w0 = (Inr tk, w0) \<and> w0 = w')"
proof -
  from assms(4) obtain x w1 i w2 t w3 x4 w4 w5 tk where
    s1: "th_reset (ad_throttle D) n w = (Inr x, w1)"
    and s2: "ad_randomUUID D w1 = (Inr i, w2)"
    and s3: "ad_generateRefreshToken D w2 = (Inr t, w3)"
    and s4: "so_create (ad_sessions D) i (new_session u (rt_hash t) (clock w3)) w3 = (Inr x4, w4)"
    and s5: "attempt (ca_set (ad_cache D) (ur_id u) (toPublicUser u)) (\<lambda>_. ret ()) w4 = (Inr (), w5)"
    and s6: "ad_signAccessToken D (ur_id u) i (ur_role u) w5 = (Inr tk, w')"
    and res: "res = \<lparr>lr_accessToken = tk, lr_refreshToken = i @ ''.'' @ rt_validator t, lr_user = toPublicUser u\<rparr>"
    by (auto simp: open_session_def andthen_eq_Inr_iff now_reads Let_def)
  note f1 = throttle_steps [OF assms(2), of n "Inr x" w1] throttle.reset [OF assms(2) s1]
  note f2 = draw_steps [of w1 "Inr i" w2] draw_steps [of w2 _ w3 "Inr t"]
  have ok3: "sok w3" "tok w3" "cok w3" "clock w3 = clock w"
    using f1 f2 s1 s2 s3 assms(1,3) by simp_all
  note f4 = session_steps [OF ok3(1), of _ _ w4] sessions.create [OF ok3(1) new_session_alive s4]
  have ok4: "cok w4"
    using f4(6) s4 ok3 by blast
  note f5 = cache_try [OF ok4 s5]
  have same: "w' = w5"
    using sign_reads [of "ur_id u" i "ur_role u" w5] s6 by auto
  have h: "rt_hash t = ad_hashRefreshValidator D (rt_validator t)"
    using token_hash [OF s3] .
  have "sess w' = (sess w)(i \<mapsto> new_session u (ad_hashRefreshValidator D (rt_validator t)) (clock w)) \<and>
    idx w' = (idx w)(ur_id u := insert i (idx w (ur_id u)))"
    using f5 f4(10) f2 f1 s1 s2 s3 ok3(4) h by (simp add: same new_session_def)
  moreover have "fails w' = (fails w)(normalize n := 0) \<and> lock w' = (lock w)(normalize n := None) \<and>
    users w' = users w \<and> sok w' \<and> tok w' \<and> cok w' \<and> clock w' = clock w"
    using f5 f4(1-9) [OF disjI2, OF disjI1, OF s4] f2 f1 s1 s2 s3 ok3 by (simp add: same)
  ultimately show ?thesis
    using res s6 unfolding same refresh_token_def by blast
qed

lemma backend_errs:
  "errs (\<lambda>e. \<not> is_AppError e) (th_reset (ad_throttle D) n)"
  "errs (\<lambda>e. \<not> is_AppError e) (th_record (ad_throttle D) n)"
  "errs (\<lambda>e. \<not> is_AppError e) (so_create (ad_sessions D) i s)"
  "errs (\<lambda>e. \<not> is_AppError e) (so_rotate (ad_sessions D) i uid p)"
  "errs (\<lambda>e. \<not> is_AppError e) (so_delete (ad_sessions D) i uid)"
  "errs (\<lambda>e. \<not> is_AppError e) (so_deleteAllForUser (ad_sessions D) uid)"
  "errs (\<lambda>e. \<not> is_AppError e) (us_findByUsername (ad_users D) n)"
  "errs (\<lambda>e. \<not> is_AppError e) (us_findById (ad_users D) i)"
  "errs (\<lambda>e. \<not> is_AppError e) (ad_randomUUID D)"
  "errs (\<lambda>e. \<not> is_AppError e) (ad_generateRefreshToken D)"
  "errs (\<lambda>e. \<not> is_AppError e) (ad_now D)"
  "errs (\<lambda>e. \<not> is_AppError e) (ad_signAccessToken D i sid r)"
proof -
  show "errs (\<lambda>e. \<not> is_AppError e) (th_reset (ad_throttle D) n)"
    by (rule errsI) (rule throttle.reset_err)
  show "errs (\<lambda>e. \<not> is_AppError e) (th_record (ad_throttle D) n)"
    by (rule errsI) (rule throttle.rec_err)
  show "errs (\<lambda>e. \<not> is_AppError e) (so_create (ad_sessions D) i s)"
    by (rule errsI) (rule sessions.create_err)
  show "errs (\<lambda>e. \<not> is_AppError e) (so_rotate (ad_sessions D) i uid p)"
    by (rule errsI) (rule sessions.rotate_err)
  show "errs (\<lambda>e. \<not> is_AppError e) (so_delete (ad_sessions D) i uid)"
    by (rule errsI) (rule sessions.delete_err)
  show "errs (\<lambda>e. \<not> is_AppError e) (so_deleteAllForUser (ad_sessions D) uid)"
    by (rule errsI) (rule sessions.delete_all_err)
  show "errs (\<lambda>e. \<not> is_AppError e) (us_findByUsername (ad_users D) n)"
    by (rule errsI) (rule accounts.find_name_err)
  show "errs (\<lambda>e. \<not> is_AppError e) (us_findById (ad_users D) i)"
    by (rule errsI) (rule accounts.find_id_err)
  show "errs (\<lambda>e. \<not> is_AppError e) (ad_signAccessToken D i sid r)"
    by (rule errsI) (rule sign_err)
  show "errs (\<lambda>e. \<not> is_AppError e) (ad_now D)"
    by (simp add: errs_def now_reads)
  have "ad_randomUUID D w \<noteq> (Inl e, w')" "ad_generateRefreshToken D w \<noteq> (Inl e, w')" for w w' e
    using uuid_draw [of w] token_draw [of w] by auto
  then show "errs (\<lambda>e. \<not> is_AppError e) (ad_randomUUID D)" "errs (\<lambda>e. \<not> is_AppError e) (ad_generateRefreshToken D)"
    by (simp_all add: errs_def)
qed

lemma open_session_err:
  assumes "open_session D n u w = (Inl e, w')"
  shows "\<not> is_AppError e"
proof -
  have "errs (\<lambda>e. \<not> is_AppError e) (open_session D n u)"
    unfolding open_session_def Let_def by (intro errs_intros backend_errs)
  then show ?thesis
    using assms by (rule errsD)
qed

lemma open_session_up:
  assumes "sok w" "tok w" "cok w" "up w" and "\<And>i w. \<exists>tk. ad_signAccessToken D (ur_id u) i (ur_role u) w = (Inr tk, w)"
  shows "\<exists>res w'. open_session D n u w = (Inr res, w')"
proof -
  obtain w1 where s1: "th_reset (ad_throttle D) n w = (Inr (), w1)" "up w1"
    using throttle.reset_up [OF assms(2,4)] by blast
  obtain i w2 where s2: "ad_randomUUID D w1 = (Inr i, w2)"
    using uuid_draw [of w1] by blast
  obtain t w3 where s3: "ad_generateRefreshToken D w2 = (Inr t, w3)"
    using token_draw [of w2] by blast
  have "sok w3" "up w3"
    using throttle_steps [OF assms(2), of n "Inr ()" w1] draw_steps [of w1 "Inr i" w2] draw_steps [of w2 _ w3 "Inr t"]
      s1 s2 s3 assms(1) by simp_all
  then obtain w4 where s4: "so_create (ad_sessions D) i (new_session u (rt_hash t) (clock w3)) w3 = (Inr (), w4)"
    using sessions.up_create new_session_alive by blast
  obtain w5 where s5: "attempt (ca_set (ad_cache D) (ur_id u) (toPublicUser u)) (\<lambda>_. ret ()) w4 = (Inr (), w5)"
    by (cases "ca_set (ad_cache D) (ur_id u) (toPublicUser u) w4" rule: prod.exhaust; cases "fst (ca_set (ad_cache D) (ur_id u) (toPublicUser u) w4)")
      (auto simp: attempt_def)
  obtain tk where s6: "ad_signAccessToken D (ur_id u) i (ur_role u) w5 = (Inr tk, w5)"
    using assms(5) by blast
  show ?thesis
    by (simp add: open_session_def act_simps s1 s2 s3 now_reads s4 s5 s6 Let_def)
qed

subsection \<open>Login\<close>

text \<open>
  Safety: a login that answers with tokens found the account, matched the password against
  its stored hash and was not locked; and the tokens are those of a new session of the user.
\<close>

lemma login_Inr:
  assumes "sok w" "tok w" "cok w" and "auth_login D raw w = (Inr res, w')"
  shows "\<exists>n p u i v tk. login_credentials (ad_zod D) raw = Inr (n, p) \<and>
    u \<in> set (users w) \<and> lower (ur_username u) = lower n \<and> ad_compare D p (ur_passwordHash u) \<and>
    (\<forall>d. lock w (normalize n) = Some d \<longrightarrow> d < tclock w + 1000) \<and>
    res = \<lparr>lr_accessToken = tk, lr_refreshToken = refresh_token i v, lr_user = toPublicUser u\<rparr> \<and>
    ad_signAccessToken D (ur_id u) i (ur_role u) w' = (Inr tk, w') \<and>
    sess w' = (sess w)(i \<mapsto> new_session u (ad_hashRefreshValidator D v) (clock w)) \<and>
    idx w' = (idx w)(ur_id u := insert i (idx w (ur_id u))) \<and>
    fails w' = (fails w)(normalize n := 0) \<and> lock w' = (lock w)(normalize n := None) \<and>
    users w' = users w \<and> sok w' \<and> tok w' \<and> cok w' \<and> clock w' = clock w"
proof -
  obtain n p where c: "login_credentials (ad_zod D) raw = Inr (n, p)"
    using assms(4) by (cases "login_credentials (ad_zod D) raw") (auto simp: auth_login_def)
  from assms(4) obtain x w1 ru w2 where s1: "th_assert (ad_throttle D) n w = (Inr x, w1)"
    and s2: "us_findByUsername (ad_users D) n w1 = (Inr ru, w2)"
    and "login_answer D n p ru w2 = (Inr res, w')"
    by (auto simp: login_steps [OF c] andthen_eq_Inr_iff)
  then obtain u where u: "ru = Some u" "ad_compare D p (ur_passwordHash u)"
    and s3: "open_session D n u w2 = (Inr res, w')"
    by (auto simp: login_answer_def login_refusal_def andthen_eq_Inr_iff split: option.splits if_splits)
  note f1 = throttle_steps [OF assms(2), of n "Inr x" w1] throttle.assert_frame [OF assms(2) s1]
  note f2 = user_steps [of n w1 "Inr ru" w2]
  have w2: "sok w2" "tok w2" "cok w2" "sess w2 = sess w" "idx w2 = idx w" "clock w2 = clock w"
    "fails w2 = fails w" "lock w2 = lock w" "users w2 = users w"
    using f1 f2 s1 s2 assms(1-3) by simp_all
  have "find (\<lambda>v. lower (ur_username v) = lower n) (users w) = Some u"
    using accounts.find_name [OF s2] f1 s1 u(1) by simp
  then have "u \<in> set (users w)" "lower (ur_username u) = lower n"
    by (auto simp: find_Some_iff)
  moreover have "\<forall>d. lock w (normalize n) = Some d \<longrightarrow> d < tclock w + 1000"
    using throttle.assert_pass [OF assms(2) s1] by blast
  ultimately show ?thesis
    using open_session_Inr [OF w2(1-3) s3] c u(2) unfolding w2 by blast
qed

text \<open>
  A login answered with a client error (400, 401 or 429) leaves every session as it was.
\<close>

lemma login_rejected:
  assumes "sok w" "tok w" and "auth_login D raw w = (Inl e, w')" and "is_AppError e"
  shows "sess w' = sess w" and "idx w' = idx w"
proof -
  have "sess w' = sess w \<and> idx w' = idx w"
  proof (cases "login_credentials (ad_zod D) raw")
    case (Inl e0)
    with assms(3) show ?thesis by (simp add: auth_login_def)
  next
    case (Inr np)
    then obtain n p where c: "login_credentials (ad_zod D) raw = Inr (n, p)" by (cases np) auto
    note f1 = throttle_steps [OF assms(2), of n]
    from assms(3) have run: "andthen (th_assert (ad_throttle D) n) (\<lambda>_.
        andthen (us_findByUsername (ad_users D) n) (login_answer D n p)) w = (Inl e, w')"
      by (simp add: login_steps [OF c])
    then show ?thesis
    proof (rule andthen_InlE)
      assume "th_assert (ad_throttle D) n w = (Inl e, w')"
      with f1 show ?thesis by blast
    next
      fix x w1
      assume s1: "th_assert (ad_throttle D) n w = (Inr x, w1)"
        and "andthen (us_findByUsername (ad_users D) n) (login_answer D n p) w1 = (Inl e, w')"
      from this(2) show ?thesis
      proof (rule andthen_InlE)
        assume "us_findByUsername (ad_users D) n w1 = (Inl e, w')"
        with accounts.find_name_err assms(4) show ?thesis by blast
      next
        fix ru w2
        assume s2: "us_findByUsername (ad_users D) n w1 = (Inr ru, w2)"
          and a: "login_answer D n p ru w2 = (Inl e, w')"
        have w2: "sess w2 = sess w" "idx w2 = idx w" "tok w2"
          using f1 [of "Inr x" w1] user_steps [of n w1 "Inr ru" w2] s1 s2 by simp_all
        from a open_session_err assms(4) have "login_refusal D n w2 = (Inl e, w')"
          by (auto simp: login_answer_def split: option.splits if_splits)
        then obtain r3 where "th_record (ad_throttle D) n w2 = (r3, w')"
          by (auto simp: login_refusal_def andthen_def split: prod.splits sum.splits)
        with throttle_steps [OF w2(3), of n r3 w'] w2 show ?thesis by simp
      qed
    qed
  qed
  then show "sess w' = sess w" and "idx w' = idx w" by simp_all
qed

text \<open>Progress: with both servers reachable the answer is determined by the data alone.\<close>

lemma login_reaches_answer:
  assumes "sok w" "tok w" "cok w" "up w" and "login_credentials (ad_zod D) raw = Inr (n, p)"
    and "lock w (normalize n) = None" and "pg_text n"
  shows "\<exists>w2. auth_login D raw w =
      login_answer D n p (find (\<lambda>u. lower (ur_username u) = lower n) (users w)) w2 \<and>
    up w2 \<and> sok w2 \<and> tok w2 \<and> cok w2 \<and> sess w2 = sess w \<and> idx w2 = idx w \<and> users w2 = users w \<and>
    fails w2 = fails w \<and> lock w2 = lock w \<and> tclock w2 = tclock w \<and> clock w2 = clock w"
proof -
  obtain w1 where s1: "th_assert (ad_throttle D) n w = (Inr (), w1)" "up w1"
    using throttle.assert_open [OF assms(2,4,6)] by blast
  obtain ru w2 where s2: "us_findByUsername (ad_users D) n w1 = (Inr ru, w2)" "up w2"
    using accounts.find_name_up [OF assms(7) s1(2)] by blast
  note f1 = throttle_steps [OF assms(2), of n "Inr ()" w1] throttle.assert_frame [OF assms(2) s1(1)]
  note f2 = user_steps [of n w1 "Inr ru" w2]
  have "ru = find (\<lambda>u. lower (ur_username u) = lower n) (users w)"
    using accounts.find_name [OF s2(1)] f1 s1(1) by simp
  then have "auth_login D raw w = login_answer D n p (find (\<lambda>u. lower (ur_username u) = lower n) (users w)) w2"
    by (simp add: login_steps [OF assms(5)] act_simps s1(1) s2(1))
  then show ?thesis
    using f1 f2 s1 s2 assms(1,2,3) by (intro exI [of _ w2]) simp
qed

text \<open>
  An unknown name and a wrong password get the same answer, and each counts as one failure.
\<close>

lemma login_refused:
  assumes "sok w" "tok w" "cok w" "up w" and "login_credentials (ad_zod D) raw = Inr (n, p)"
    and "lock w (normalize n) = None" and "pg_text n"
    and "\<And>u. find (\<lambda>u. lower (ur_username u) = lower n) (users w) = Some u \<Longrightarrow>
      \<not> ad_compare D p (ur_passwordHash u)"
  shows "\<exists>w'. auth_login D raw w = (Inl (UnauthorizedError ''Invalid credentials.''), w') \<and> up w' \<and>
    fails w' = (fails w)(normalize n := fails w (normalize n) + 1) \<and>
    lock w' = (lock w)(normalize n := lock_after th (fails w (normalize n) + 1) (tclock w) None) \<and>
    sess w' = sess w \<and> idx w' = idx w"
proof -
  obtain w2 where a: "auth_login D raw w =
      login_answer D n p (find (\<lambda>u. lower (ur_username u) = lower n) (users w)) w2"
    and w2: "up w2" "tok w2" "sess w2 = sess w" "idx w2 = idx w" "fails w2 = fails w"
    "lock w2 = lock w" "tclock w2 = tclock w"
    using login_reaches_answer [OF assms(1-7)] by blast
  have "login_answer D n p (find (\<lambda>u. lower (ur_username u) = lower n) (users w)) = login_refusal D n"
    using assms(8) by (auto simp: login_answer_def split: option.split)
  moreover obtain w3 where s3: "th_record (ad_throttle D) n w2 = (Inr (), w3)" "up w3"
    using throttle.rec_up [OF w2(2,1)] by blast
  ultimately have "auth_login D raw w = (Inl (UnauthorizedError ''Invalid credentials.''), w3)"
    by (simp add: a login_refusal_def act_simps s3)
  then show ?thesis
    using s3 w2 throttle.rec [OF w2(2) s3(1)] throttle_steps [OF w2(2), of n "Inr ()" w3] assms(6)
    by (intro exI [of _ w3]) simp
qed

lemma login_accepted:
  assumes "sok w" "tok w" "cok w" "up w" and "login_credentials (ad_zod D) raw = Inr (n, p)"
    and "lock w (normalize n) = None" and "pg_text n"
    and "u \<in> set (users w)" "lower (ur_username u) = lower n" "ad_compare D p (ur_passwordHash u)"
    and "\<And>i w. \<exists>tk. ad_signAccessToken D (ur_id u) i (ur_role u) w = (Inr tk, w)"
  shows "\<exists>res w'. auth_login D raw w = (Inr res, w')"
proof -
  have "find (\<lambda>v. lower (ur_username v) = lower n) (users w) = Some u"
    using accounts.find_unique(1) [OF assms(8)] assms(9) by simp
  with login_reaches_answer [OF assms(1-7)] assms(10) obtain w2 where
    "auth_login D raw w = open_session D n u w2" "up w2" "sok w2" "tok w2" "cok w2"
    by (auto simp: login_answer_def)
  with open_session_up [of w2 u n] assms(11) show ?thesis by auto
qed

text \<open>A locked account answers 429 before the password is looked at.\<close>

lemma login_locked:
  assumes "sok w" "tok w" "up w" and "login_credentials (ad_zod D) raw = Inr (n, p)"
    and "lock w (normalize n) = Some d" and "tclock w + 1000 \<le> d"
  shows "\<exists>m t w'. auth_login D raw w = (Inl (TooManyRequestsError m t), w') \<and> 0 < t \<and>
    fails w' = fails w \<and> lock w' = lock w \<and> sess w' = sess w \<and> idx w' = idx w"
proof -
  obtain m t w1 where s1: "th_assert (ad_throttle D) n w = (Inl (TooManyRequestsError m t), w1)" "0 < t"
    using throttle.assert_fail [OF assms(2,3,5,6)] by blast
  then have "auth_login D raw w = (Inl (TooManyRequestsError m t), w1)"
    by (simp add: login_steps [OF assms(4)] act_simps)
  with s1 throttle.assert_frame [OF assms(2) s1(1)] throttle_steps [OF assms(2), of n _ w1] show ?thesis
    by blast
qed

subsection \<open>Refresh\<close>

text \<open>
  Safety: new tokens are given only for a token whose validator hashes to the current hash
  of a live session before its absolute expiry, whose user still exists; the session is
  rotated to the new token and takes the user's present role.
\<close>

lemma refresh_Inr:
  assumes "sok w" and "auth_refresh D raw w = (Inr res, w')" and "\<And>i s. sess w i = Some s \<Longrightarrow> uuid (se_userId s)"
  shows "\<exists>i v s u v' tk. raw = Some (JStr (refresh_token i v)) \<and> CHR ''.'' \<notin> set i \<and> sess w i = Some s \<and>
    se_refreshTokenHash s = ad_hashRefreshValidator D v \<and> clock w < se_absoluteExpiresAt s \<and>
    u \<in> set (users w) \<and> ur_id u = se_userId s \<and>
    res = \<lparr>rr_accessToken = tk, rr_refreshToken = refresh_token i v'\<rparr> \<and>
    ad_signAccessToken D (ur_id u) i (ur_role u) w' = (Inr tk, w') \<and>
    sess w' = (sess w)(i \<mapsto> rotated_session s
      \<lparr>rp_presentedHash = ad_hashRefreshValidator D v, rp_newHash = ad_hashRefreshValidator D v',
       rp_role = ur_role u, rp_now = clock w\<rparr>) \<and> idx w' = idx w \<and> sok w'"
proof -
  from assms(2) obtain rv where rv: "raw = Some rv" "js_truthy (Some rv)"
    by (cases raw) (auto simp: auth_refresh_def split: if_splits)
  with assms(2) obtain i vo where sp: "split_value rv = Inr (Some (i, vo))"
    by (cases "split_value rv") (auto simp: auth_refresh_def split: option.splits if_splits)
  from assms(2) obtain so w1 where s1: "so_get (ad_sessions D) i w = (Inr so, w1)"
    and "refresh_session D i vo so w1 = (Inr res, w')"
    by (auto simp: rv(1) refresh_steps [OF rv(2) sp] andthen_eq_Inr_iff)
  then obtain s ru w2 where s: "so = Some s" and s2: "us_findById (ad_users D) (se_userId s) w1 = (Inr ru, w2)"
    and "(case ru of None \<Rightarrow> andthen (so_deleteAllForUser (ad_sessions D) (se_userId s)) (\<lambda>_.
                 raise (UnauthorizedError INVALID_REFRESH_TOKEN_MESSAGE))
     | Some u \<Rightarrow> refresh_user D i vo s u) w2 = (Inr res, w')"
    by (auto simp: refresh_session_def andthen_eq_Inr_iff split: option.splits)
  then obtain u where u: "ru = Some u" and "refresh_user D i vo s u w2 = (Inr res, w')"
    by (auto simp: andthen_eq_Inr_iff split: option.splits)
  then obtain t w3 v out w4 where s3: "ad_generateRefreshToken D w2 = (Inr t, w3)" and v: "vo = Some v"
    and s4: "so_rotate (ad_sessions D) i (se_userId s) \<lparr>rp_presentedHash = ad_hashRefreshValidator D v,
       rp_newHash = rt_hash t, rp_role = ur_role u, rp_now = clock w3\<rparr> w3 = (Inr out, w4)"
    and a: "refresh_answer D u i t out w4 = (Inr res, w')"
    by (auto simp: refresh_user_def andthen_eq_Inr_iff now_reads split: option.splits)
  then obtain tk where out: "out = Rotated" and s5: "ad_signAccessToken D (ur_id u) i (ur_role u) w4 = (Inr tk, w')"
    and res: "res = \<lparr>rr_accessToken = tk, rr_refreshToken = refresh_token i (rt_validator t)\<rparr>"
    by (auto simp: refresh_answer_def andthen_eq_Inr_iff refresh_token_def split: rotate_outcome.splits)
  note f1 = session_steps [OF assms(1) disjI1 [OF s1]] sessions.get_frame [OF assms(1) s1]
  note f2 = user_steps [OF disjI2 [OF s2]] draw_steps [OF disjI2 [OF s3]]
  have w3: "sok w3" "sess w3 = sess w" "idx w3 = idx w" "clock w3 = clock w" "users w1 = users w"
    using f1 f2 s1 s2 s3 assms(1) by simp_all
  have live: "sess w i = Some s"
    using sessions.get [OF assms(1) s1] s by simp
  have "find (\<lambda>u. ur_id u = se_userId s) (users w) = Some u"
    using accounts.find_id [OF assms(3) [OF live] s2] u w3(5) by simp
  then have user: "u \<in> set (users w)" "ur_id u = se_userId s"
    by (auto simp: find_Some_iff)
  have same: "w' = w4"
    using sign_reads [of "ur_id u" i "ur_role u" w4] s5 by auto
  note rot = sessions.rotate [OF w3(1) s4]
  have "fst (rotate_spec (sess w i) \<lparr>rp_presentedHash = ad_hashRefreshValidator D v,
       rp_newHash = rt_hash t, rp_role = ur_role u, rp_now = clock w\<rparr>) = Rotated"
    using rot out w3 by simp
  then have cur: "se_refreshTokenHash s = ad_hashRefreshValidator D v" "clock w < se_absoluteExpiresAt s"
    unfolding rotate_spec_Rotated live by simp_all
  have sess': "sess w' = (sess w)(i \<mapsto> rotated_session s
      \<lparr>rp_presentedHash = ad_hashRefreshValidator D v, rp_newHash = ad_hashRefreshValidator D (rt_validator t),
       rp_role = ur_role u, rp_now = clock w\<rparr>)"
    using rot live w3 cur token_hash [OF s3] by (simp add: same rotate_spec_def rotate_decision_def)
  moreover have "idx w' = idx w"
    using rot sess' live w3 by (simp add: same)
  moreover have "sok w'"
    using sessions.rotate_ok [OF w3(1) s4] by (simp add: same)
  moreover from sp v rv(2) have "rv = JStr (refresh_token i v)" "CHR ''.'' \<notin> set i"
    using splitRefreshToken_Some by (auto simp: split_value_def Let_def split: json.splits if_splits)
  ultimately show ?thesis
    using rv(1) live cur user res s5 unfolding same by blast
qed

text \<open>
  Progress: with both servers reachable, a refresh on a live session of an existing user is
  the rotation's decision, and the session is afterwards what the specification says.
\<close>

lemma refresh_decided:
  assumes "sok w" "up w" and tok: "CHR ''.'' \<notin> set i" "i \<noteq> []" "v \<noteq> []"
    and live: "sess w i = Some s" and user: "u \<in> set (users w)" "ur_id u = se_userId s" "uuid (se_userId s)"
    and sign: "\<And>w. \<exists>tk. ad_signAccessToken D (ur_id u) i (ur_role u) w = (Inr tk, w)"
  shows "\<exists>h p r w'. p = \<lparr>rp_presentedHash = ad_hashRefreshValidator D v, rp_newHash = h,
      rp_role = ur_role u, rp_now = clock w\<rparr> \<and>
    auth_refresh D (Some (JStr (refresh_token i v))) w = (r, w') \<and>
    (case rotate_decision s p of
       Rotated \<Rightarrow> \<exists>res. r = Inr res
     | Concurrent \<Rightarrow> r = Inl (ConflictError ''Refresh token was already rotated by a concurrent request.'')
     | _ \<Rightarrow> r = Inl (UnauthorizedError INVALID_REFRESH_TOKEN_MESSAGE)) \<and>
    sess w' = (sess w)(i := snd (rotate_spec (Some s) p))"
proof -
  obtain w1 where s1: "so_get (ad_sessions D) i w = (Inr (Some s), w1)" "up w1"
    using sessions.up_get [OF assms(1,2), of i] live by auto
  note f1 = session_steps [OF assms(1) disjI1 [OF s1(1)]] sessions.get_frame [OF assms(1) s1(1)]
  obtain ru w2 where s2: "us_findById (ad_users D) (se_userId s) w1 = (Inr ru, w2)" "up w2"
    using accounts.find_id_up [OF user(3) s1(2)] by blast
  have "find (\<lambda>v. ur_id v = se_userId s) (users w1) = Some u"
    using accounts.find_unique(2) [of u w1] user f1(7) by simp
  with accounts.find_id [OF user(3) s2(1)] have ru: "ru = Some u"
    by simp
  obtain t w3 where s3: "ad_generateRefreshToken D w2 = (Inr t, w3)"
    using token_draw [of w2] by blast
  note f2 = user_steps [OF disjI2 [OF s2(1)]] and f3 = draw_steps [OF disjI2 [OF s3]]
  have w3: "sok w3" "up w3" "sess w3 = sess w" "clock w3 = clock w"
    using f1(8,9,10) f2(1,3,4) f3 s2(2) by simp_all
  define p where "p = \<lparr>rp_presentedHash = ad_hashRefreshValidator D v, rp_newHash = rt_hash t,
    rp_role = ur_role u, rp_now = clock w\<rparr>"
  obtain out w4 where s4: "so_rotate (ad_sessions D) i (se_userId s) p w3 = (Inr out, w4)"
    using sessions.up_rotate [OF w3(1,2)] by blast
  note rot = sessions.rotate [OF w3(1) s4, unfolded w3 live]
  obtain tk where s5: "ad_signAccessToken D (ur_id u) i (ur_role u) w4 = (Inr tk, w4)"
    using sign by blast
  have run: "auth_refresh D (Some (JStr (refresh_token i v))) w = refresh_answer D u i t out w4"
    using s4 by (simp add: refresh_steps_token [OF tok] act_simps s1(1) s2(1) s3 ru refresh_session_def
        refresh_user_def now_reads w3(4) p_def)
  have "out = rotate_decision s p" "sess w4 = (sess w)(i := snd (rotate_spec (Some s) p))"
    using rot by (auto simp: rotate_spec_def split: rotate_outcome.splits)
  with s5 have "(case rotate_decision s p of
       Rotated \<Rightarrow> \<exists>res. fst (refresh_answer D u i t out w4) = Inr res
     | Concurrent \<Rightarrow> fst (refresh_answer D u i t out w4) = Inl (ConflictError ''Refresh token was already rotated by a concurrent request.'')
     | _ \<Rightarrow> fst (refresh_answer D u i t out w4) = Inl (UnauthorizedError INVALID_REFRESH_TOKEN_MESSAGE)) \<and>
    sess (snd (refresh_answer D u i t out w4)) = (sess w)(i := snd (rotate_spec (Some s) p))"
    by (auto simp: refresh_answer_def act_simps split: rotate_outcome.split)
  then show ?thesis
    using run by (intro exI [of _ "rt_hash t"] exI [of _ p] exI [of _ "fst (refresh_answer D u i t out w4)"]
        exI [of _ "snd (refresh_answer D u i t out w4)"]) (simp add: p_def)
qed

text \<open>A refresh for an account that is gone revokes every indexed session of it.\<close>

lemma refresh_deleted_account:
  assumes "sok w" "up w" and tok: "CHR ''.'' \<notin> set i" "i \<noteq> []" "v \<noteq> []"
    and live: "sess w i = Some s" and gone: "\<forall>u \<in> set (users w). ur_id u \<noteq> se_userId s" "uuid (se_userId s)"
  shows "\<exists>w'. auth_refresh D (Some (JStr (refresh_token i v))) w =
      (Inl (UnauthorizedError INVALID_REFRESH_TOKEN_MESSAGE), w') \<and>
    idx w' = (idx w)(se_userId s := {}) \<and> (\<forall>j \<in> idx w (se_userId s). sess w' j = None)"
proof -
  obtain w1 where s1: "so_get (ad_sessions D) i w = (Inr (Some s), w1)" "up w1"
    using sessions.up_get [OF assms(1,2), of i] live by auto
  note f1 = session_steps [OF assms(1) disjI1 [OF s1(1)]] sessions.get_frame [OF assms(1) s1(1)]
  obtain ru w2 where s2: "us_findById (ad_users D) (se_userId s) w1 = (Inr ru, w2)" "up w2"
    using accounts.find_id_up [OF gone(2) s1(2)] by blast
  have "find (\<lambda>v. ur_id v = se_userId s) (users w1) = None"
    using gone(1) f1(7) by (simp add: find_None_iff)
  with accounts.find_id [OF gone(2) s2(1)] have ru: "ru = None"
    by simp
  note f2 = user_steps [OF disjI2 [OF s2(1)]]
  have w2: "sok w2" "sess w2 = sess w" "idx w2 = idx w"
    using f1(8,10) f2(1-3) by simp_all
  obtain n w3 where s3: "so_deleteAllForUser (ad_sessions D) (se_userId s) w2 = (Inr n, w3)"
    using sessions.up_delete_all [OF w2(1) s2(2)] by blast
  have "auth_refresh D (Some (JStr (refresh_token i v))) w =
      (Inl (UnauthorizedError INVALID_REFRESH_TOKEN_MESSAGE), w3)"
    by (simp add: refresh_steps_token [OF tok] act_simps s1(1) s2(1) s3 ru refresh_session_def)
  then show ?thesis
    using sessions.delete_all [OF w2(1) s3] w2 by simp
qed

subsection \<open>Logout\<close>

lemma logout_Inr:
  assumes "sok w" and "auth_logout D si ui w = (Inr x, w')"
  shows "\<exists>i u. si = Some i \<and> ui = Some u \<and> i \<noteq> [] \<and> u \<noteq> [] \<and>
    sess w' = (sess w)(i := None) \<and> idx w' = (idx w)(u := idx w u - {i})"
  using assms sessions.delete by (cases si; cases ui) (auto simp: auth_logout_def split: if_splits)

lemma logoutAll_Inr:
  assumes "sok w" and "auth_logoutAll D ui w = (Inr n, w')"
  shows "\<exists>u. ui = Some u \<and> u \<noteq> [] \<and> n = card (idx w u) \<and> idx w' = (idx w)(u := {}) \<and>
    sess w' = (\<lambda>i. if i \<in> idx w u then None else sess w i)"
  using assms sessions.delete_all by (cases ui) (auto simp: auth_logoutAll_def split: if_splits)

end

end
