(* ===== verification/UserService.thy ===== *)
theory UserService
  imports AuthService
begin

section \<open>The user service\<close>

text \<open>
  \<open>src/services/UserService.ts\<close>: registration, the read-through profile cache, the admin
  listing. As for the authentication service, the collaborators and imports are one record,
  and the behaviour is proved in a locale \<open>user_backend\<close> of their contracts.
\<close>

definition BCRYPT_SALT_ROUNDS :: int where
  "BCRYPT_SALT_ROUNDS = 12"

definition MAX_PASSWORD_LENGTH :: nat where
  "MAX_PASSWORD_LENGTH = 72"

definition DEFAULT_PAGE_LIMIT :: int where
  "DEFAULT_PAGE_LIMIT = 20"

definition MAX_PAGE_LIMIT :: int where
  "MAX_PAGE_LIMIT = 100"

definition createUserSchema :: object_schema where
  "createUserSchema =
     [(''username'', StringField ''Username is required.''
        [Trim, MinLength 3 ''Username must be at least 3 characters.'',
         MaxLength 30 ''Username must be at most 30 characters.'']),
      (''name'', StringField ''Name is required.''
        [Trim, MinLength 2 ''Name must be at least 2 characters.'',
         MaxLength 100 ''Name must be at most 100 characters.'']),
      (''email'', StringField ''Email is required.''
        [Trim, LowerCase, EmailFormat ''Email must be a valid email address.'']),
      (''password'', StringField ''Password is required.''
        [MinLength 12 ''Password must be at least 12 characters.'',
         MaxLength MAX_PASSWORD_LENGTH
           (''Password must be at most '' @ js_digits MAX_PASSWORD_LENGTH @ '' characters.'')])]"

definition listUsersQuerySchema :: object_schema where
  "listUsersQuerySchema =
     [(''limit'', NumberField ''limit must be a number.''
        [IsInt ''limit must be an integer.'', MinValue 1 ''limit must be at least 1.'',
         MaxValue MAX_PAGE_LIMIT (''limit must be at most '' @ js_digits (nat MAX_PAGE_LIMIT) @ ''.'')]
        DEFAULT_PAGE_LIMIT),
      (''offset'', NumberField ''offset must be a number.''
        [IsInt ''offset must be an integer.'', MinValue 0 ''offset must be at least 0.''] 0)]"

record list_result =
  ls_items :: "user_public list"
  ls_total :: nat
  ls_limit :: int
  ls_offset :: int

record 'w user_deps =
  ud_users :: "'w user_ops"
  ud_cache :: "'w cache_ops"
  ud_hash :: "string \<Rightarrow> int \<Rightarrow> ('w, exn, string) act"
  ud_randomUUID :: "('w, exn, string) act"
  ud_zod :: zod_lib

subsection \<open>The methods\<close>

text \<open>The two destructurings of a parsed input.\<close>

definition create_fields :: "zod_lib \<Rightarrow> json option \<Rightarrow> exn + string \<times> string \<times> string \<times> string" where
  "create_fields Z rawInput =
     (case parseOrThrow Z createUserSchema rawInput of
        Inl e \<Rightarrow> Inl e
      | Inr d \<Rightarrow> (case (as_str (js_field d ''username''), as_str (js_field d ''name''),
                        as_str (js_field d ''password''), as_str (js_field d ''email'')) of
          (Some u, Some n, Some p, Some m) \<Rightarrow> Inr (u, n, p, m) | _ \<Rightarrow> Inl (JsError ''TypeError'')))"

definition page_fields :: "zod_lib \<Rightarrow> json option \<Rightarrow> exn + int \<times> int" where
  "page_fields Z rawQuery =
     (case parseOrThrow Z listUsersQuerySchema rawQuery of
        Inl e \<Rightarrow> Inl e
      | Inr d \<Rightarrow> (case (as_num (js_field d ''limit''), as_num (js_field d ''offset'')) of
          (Some l, Some k) \<Rightarrow> Inr (l, k) | _ \<Rightarrow> Inl (JsError ''TypeError'')))"

definition service_createUser :: "'w user_deps \<Rightarrow> json option \<Rightarrow> ('w, exn, string) act" where
  "service_createUser D rawInput =
     andthen (lift_sum (create_fields (ud_zod D) rawInput)) (\<lambda>(username, name, password, email).
     andthen (us_existsByUsername (ud_users D) username) (\<lambda>usernameTaken.
     if usernameTaken then raise (ConflictError ''Username already taken.'')
     else
     andthen (us_existsByEmail (ud_users D) email) (\<lambda>emailTaken.
     if emailTaken then raise (ConflictError ''Email already registered.'')
     else
     andthen (ud_hash D password BCRYPT_SALT_ROUNDS) (\<lambda>passwordHash.
     andthen (ud_randomUUID D) (\<lambda>i.
     andthen (us_create (ud_users D)
       \<lparr>nu_id = i, nu_name = name, nu_username = username, nu_passwordHash = passwordHash,
        nu_email = email\<rparr>) (\<lambda>_.
       ret i))))))"

text \<open>The same method with its last three steps named.\<close>

definition register_user ::
  "'w user_deps \<Rightarrow> string \<Rightarrow> string \<Rightarrow> string \<Rightarrow> string \<Rightarrow> ('w, exn, string) act" where
  "register_user D username name password email =
     andthen (ud_hash D password BCRYPT_SALT_ROUNDS) (\<lambda>passwordHash.
     andthen (ud_randomUUID D) (\<lambda>i.
     andthen (us_create (ud_users D)
       \<lparr>nu_id = i, nu_name = name, nu_username = username, nu_passwordHash = passwordHash,
        nu_email = email\<rparr>) (\<lambda>_. ret i)))"

lemma createUser_steps:
  assumes "create_fields (ud_zod D) raw = Inr (n, name, p, m)"
  shows "service_createUser D raw =
    andthen (us_existsByUsername (ud_users D) n) (\<lambda>taken.
      if taken then raise (ConflictError ''Username already taken.'')
      else andthen (us_existsByEmail (ud_users D) m) (\<lambda>taken.
        if taken then raise (ConflictError ''Email already registered.'')
        else register_user D n name p m))"
  unfolding service_createUser_def register_user_def using assms by simp

definition readCachedProfile :: "'w user_deps \<Rightarrow> string \<Rightarrow> ('w, exn, json) act" where
  "readCachedProfile D userId = attempt (ca_get (ud_cache D) userId) (\<lambda>error. ret JNull)"

definition service_getUserProfile :: "'w user_deps \<Rightarrow> string \<Rightarrow> ('w, exn, json) act" where
  "service_getUserProfile D userId =
     andthen (readCachedProfile D userId) (\<lambda>cached.
     if js_truthy (Some cached) then ret cached
     else
     andthen (us_findById (ud_users D) userId) (\<lambda>user.
     case user of
       None \<Rightarrow> raise (NotFoundError ''User not found.'')
     | Some u \<Rightarrow>
         let profile = toPublicUser u in
         andthen (attempt (ca_set (ud_cache D) userId profile) (\<lambda>error. ret ())) (\<lambda>_.
         ret (public_json profile))))"

definition service_listUsers :: "'w user_deps \<Rightarrow> json option \<Rightarrow> ('w, exn, list_result) act" where
  "service_listUsers D rawQuery =
     andthen (lift_sum (page_fields (ud_zod D) rawQuery)) (\<lambda>(limit, offset).
     andthen (us_listPaginated (ud_users D) (nat limit) (nat offset)) (\<lambda>(items, total).
       ret \<lparr>ls_items = map toPublicUser items, ls_total = total, ls_limit = limit, ls_offset = offset\<rparr>))"

subsection \<open>What the schemas let through\<close>

context zod_library
begin

text \<open>Accepted registrations obey the documented bounds.\<close>

lemma create_fields_bounds:
  assumes "create_fields Z raw = Inr (u, n, p, m)"
  shows "3 \<le> length u \<and> length u \<le> 30 \<and> 2 \<le> length n \<and> length n \<le> 100 \<and>
    12 \<le> length p \<and> length p \<le> MAX_PASSWORD_LENGTH \<and> email m \<and> js_toLowerCase m = m"
proof -
  from assms obtain d where d: "parseOrThrow Z createUserSchema raw = Inr d"
    and f: "as_str (js_field d ''username'') = Some u" "as_str (js_field d ''name'') = Some n"
      "as_str (js_field d ''password'') = Some p" "as_str (js_field d ''email'') = Some m"
    by (auto simp: create_fields_def split: sum.splits option.splits)
  from parse_Inr [OF d] obtain ob where "object_result email num createUserSchema ob = Inr d"
    by blast
  then show ?thesis using f
    by (auto simp: createUserSchema_def split: sum.splits if_splits elim!: field_result.elims)
qed

lemma page_fields_bounds:
  assumes "page_fields Z raw = Inr (l, k)"
  shows "1 \<le> l \<and> l \<le> MAX_PAGE_LIMIT \<and> 0 \<le> k"
proof -
  from assms obtain d where d: "parseOrThrow Z listUsersQuerySchema raw = Inr d"
    and f: "as_num (js_field d ''limit'') = Some l" "as_num (js_field d ''offset'') = Some k"
    by (auto simp: page_fields_def split: sum.splits option.splits)
  from parse_Inr [OF d] obtain ob where "object_result email num listUsersQuerySchema ob = Inr d"
    by blast
  then show ?thesis using f
    by (auto simp: listUsersQuerySchema_def DEFAULT_PAGE_LIMIT_def MAX_PAGE_LIMIT_def
        split: sum.splits if_splits number.splits elim!: field_result.elims)
qed

text \<open>So the checks that the parsed value has its fields never fail.\<close>

lemma create_fields_error:
  assumes "create_fields Z raw = Inl e"
  shows "\<exists>m. e = ValidationError m"
proof (cases "parseOrThrow Z createUserSchema raw")
  case (Inl e0)
  with assms parse_error [OF Inl] show ?thesis by (simp add: create_fields_def)
next
  case (Inr d)
  from parse_Inr [OF Inr] obtain ob where "object_result email num createUserSchema ob = Inr d"
    by blast
  with assms Inr show ?thesis
    by (auto simp: create_fields_def createUserSchema_def split: sum.splits if_splits elim!: field_result.elims)
qed

end

subsection \<open>Behaviour\<close>

text \<open>
  The cache and the accounts on one world, each leaving the other alone; hashing and
  drawing an identifier change neither, and \<open>compare\<close> accepts a password against its hash.
\<close>

locale user_backend =
  cache: profile_cache "ud_cache D" cached cok up +
  accounts: user_store "ud_users D" users lower pg_text uuid up
  for D :: "'w user_deps"
    and cached :: "'w \<Rightarrow> string \<Rightarrow> user_public option" and cok :: "'w \<Rightarrow> bool" and up :: "'w \<Rightarrow> bool"
    and users :: "'w \<Rightarrow> user_record list" and lower :: "string \<Rightarrow> string"
    and pg_text :: "string \<Rightarrow> bool" and uuid :: "string \<Rightarrow> bool" +
  fixes compare :: "string \<Rightarrow> string \<Rightarrow> bool"
  assumes cache_get_users: "cok w \<Longrightarrow> ca_get (ud_cache D) i w = (r1, w') \<Longrightarrow> users w' = users w \<and> (up w \<longrightarrow> up w')"
    and cache_set_users: "cok w \<Longrightarrow> ca_set (ud_cache D) i p w = (r2, w') \<Longrightarrow> users w' = users w"
    and find_id_cache: "us_findById (ud_users D) i w = (r3, w') \<Longrightarrow> cached w' = cached w \<and> cok w' = cok w"
    and hash_keeps: "ud_hash D pw rounds w = (r4, w') \<Longrightarrow> users w' = users w"
    and hash_compare: "ud_hash D pw rounds w = (Inr h, w') \<Longrightarrow> compare pw h"
    and hash_err: "ud_hash D pw rounds w = (Inl e, w') \<Longrightarrow> \<not> is_AppError e"
    and uuid_keeps: "ud_randomUUID D w = (r4, w') \<Longrightarrow> users w' = users w"
    and uuid_err: "ud_randomUUID D w = (Inl e, w') \<Longrightarrow> \<not> is_AppError e"
begin

text \<open>A registration that answers with an identifier added exactly the new row.\<close>

lemma createUser_Inr:
  assumes "service_createUser D raw w = (Inr i, w')"
  shows "\<exists>n name p m h xs ys. create_fields (ud_zod D) raw = Inr (n, name, p, m) \<and> compare p h \<and>
    users w = xs @ ys \<and>
    users w' = xs @ \<lparr>ur_id = i, ur_name = name, ur_username = n, ur_passwordHash = h, ur_email = m,
      ur_role = User\<rparr> # ys \<and>
    (\<forall>u \<in> set (users w). lower (ur_username u) \<noteq> lower n \<and> ur_email u \<noteq> m)"
proof -
  from assms obtain n name p m where c: "create_fields (ud_zod D) raw = Inr (n, name, p, m)"
    by (cases "create_fields (ud_zod D) raw") (auto simp: service_createUser_def)
  with assms obtain w1 w2 h w3 w4 where
    s1: "us_existsByUsername (ud_users D) n w = (Inr False, w1)"
    and s2: "us_existsByEmail (ud_users D) m w1 = (Inr False, w2)"
    and s3: "ud_hash D p BCRYPT_SALT_ROUNDS w2 = (Inr h, w3)"
    and s4: "ud_randomUUID D w3 = (Inr i, w4)"
    and s5: "us_create (ud_users D) \<lparr>nu_id = i, nu_name = name, nu_username = n,
      nu_passwordHash = h, nu_email = m\<rparr> w4 = (Inr (), w')"
    by (auto simp: service_createUser_def andthen_eq_Inr_iff split: if_splits)
  have same: "users w4 = users w"
    using accounts.exists_name_frame [OF s1] accounts.exists_email_frame [OF s2] hash_keeps [OF s3]
      uuid_keeps [OF s4] by simp
  let ?nu = "\<lparr>nu_id = i, nu_name = name, nu_username = n, nu_passwordHash = h, nu_email = m\<rparr>"
  from accounts.create_done [OF s5] obtain xs ys where
    v: "violated lower (users w) ?nu = {}" and t: "users w = xs @ ys" "users w' = xs @ inserted_row ?nu # ys"
    by (auto simp: same)
  from v have "\<forall>u \<in> set (users w). lower (ur_username u) \<noteq> lower n \<and> ur_email u \<noteq> m"
    by (auto simp: violated_def split: if_splits)
  with c hash_compare [OF s3] t show ?thesis
    by (auto simp: inserted_row_def)
qed

text \<open>
  A registration refused with a domain error changed nothing, and the conflict it reports
  is real: some account has that name or that address.
\<close>

definition clash :: "string \<Rightarrow> user_record list \<Rightarrow> string \<Rightarrow> string \<Rightarrow> bool" where
  "clash msg us n m \<longleftrightarrow>
     msg = ''Username already taken.'' \<and> (\<exists>u \<in> set us. lower (ur_username u) = lower n) \<or>
     msg = ''Email already registered.'' \<and> (\<exists>u \<in> set us. ur_email u = m)"

lemma backend_errs:
  "errs (\<lambda>e. \<not> is_AppError e) (us_existsByUsername (ud_users D) n)"
  "errs (\<lambda>e. \<not> is_AppError e) (us_existsByEmail (ud_users D) n)"
  "errs (\<lambda>e. \<not> is_AppError e) (ud_hash D pw rounds)"
  "errs (\<lambda>e. \<not> is_AppError e) (ud_randomUUID D)"
  by (rule errsI, erule accounts.exists_name_err accounts.exists_email_err hash_err uuid_err)+

lemma register_conflict:
  assumes "register_user D n name p m w = (Inl (ConflictError msg), w')"
  shows "users w' = users w \<and> clash msg (users w) n m"
proof -
  have e: "\<not> \<not> is_AppError (ConflictError msg)" by simp
  from assms obtain h w3 where s3: "ud_hash D p BCRYPT_SALT_ROUNDS w = (Inr h, w3)"
    and r3: "andthen (ud_randomUUID D) (\<lambda>i. andthen (us_create (ud_users D)
       \<lparr>nu_id = i, nu_name = name, nu_username = n, nu_passwordHash = h, nu_email = m\<rparr>) (\<lambda>_. ret i)) w3
       = (Inl (ConflictError msg), w')"
    unfolding register_user_def by (rule andthen_Inl_later [OF _ backend_errs(3) e])
  from r3 obtain i w4 where s4: "ud_randomUUID D w3 = (Inr i, w4)"
    and r4: "andthen (us_create (ud_users D) \<lparr>nu_id = i, nu_name = name, nu_username = n,
            nu_passwordHash = h, nu_email = m\<rparr>) (\<lambda>_. ret i) w4 = (Inl (ConflictError msg), w')"
    by (rule andthen_Inl_later [OF _ backend_errs(4) e])
  from r4 have "us_create (ud_users D) \<lparr>nu_id = i, nu_name = name, nu_username = n,
            nu_passwordHash = h, nu_email = m\<rparr> w4 = (Inl (ConflictError msg), w')"
    by (auto elim!: andthen_InlE)
  from accounts.create_conflict [OF this] hash_keeps [OF s3] uuid_keeps [OF s4] show ?thesis
    by (auto simp: clash_def violated_def conflict_of_def split: if_splits)
qed

lemma createUser_conflict:
  assumes "create_fields (ud_zod D) raw = Inr (n, name, p, m)"
    and "service_createUser D raw w = (Inl (ConflictError msg), w')"
  shows "users w' = users w \<and> clash msg (users w) n m"
proof -
  have e: "\<not> \<not> is_AppError (ConflictError msg)" by simp
  obtain b w1 where s1: "us_existsByUsername (ud_users D) n w = (Inr b, w1)"
    and r1: "(if b then raise (ConflictError ''Username already taken.'')
      else andthen (us_existsByEmail (ud_users D) m) (\<lambda>taken.
        if taken then raise (ConflictError ''Email already registered.'')
        else register_user D n name p m)) w1 = (Inl (ConflictError msg), w')"
    by (rule andthen_Inl_later [OF assms(2) [unfolded createUser_steps [OF assms(1)]] backend_errs(1) e])
  have u1: "users w1 = users w" "b = (\<exists>u \<in> set (users w). lower (ur_username u) = lower n)"
    using accounts.exists_name_frame [OF s1] accounts.exists_name [OF s1] by simp_all
  show ?thesis
  proof (cases b)
    case True
    with r1 u1 show ?thesis by (simp add: clash_def)
  next
    case False
    with r1 obtain b2 w2 where s2: "us_existsByEmail (ud_users D) m w1 = (Inr b2, w2)"
      and r2: "(if b2 then raise (ConflictError ''Email already registered.'')
        else register_user D n name p m) w2 = (Inl (ConflictError msg), w')"
      by (auto elim: andthen_Inl_later [OF _ backend_errs(2) e])
    have u2: "users w2 = users w" "b2 = (\<exists>u \<in> set (users w). ur_email u = m)"
      using accounts.exists_email_frame [OF s2] accounts.exists_email [OF s2] u1 by simp_all
    with r2 register_conflict [of n name p m w2 msg w'] show ?thesis
      by (cases b2) (simp_all add: clash_def)
  qed
qed

text \<open>
  The profile: a cached one is returned as it is; otherwise the database decides, and no
  failure of the cache shows.
\<close>

lemma getUserProfile_hit:
  assumes "cok w" "up w" and "cached w i = Some p"
  shows "\<exists>w'. service_getUserProfile D i w = (Inr (public_json p), w') \<and> users w' = users w"
proof -
  obtain j w1 where s1: "ca_get (ud_cache D) i w = (Inr j, w1)"
    using cache.cache_get_up [OF assms(1,2)] by blast
  then have "j = public_json p"
    using cache.cache_hit [OF assms(1) s1] assms(3) by simp
  then show ?thesis
    using cache_get_users [OF assms(1) s1] s1
    by (auto simp: service_getUserProfile_def readCachedProfile_def act_simps public_json_def)
qed

lemma getUserProfile_database:
  assumes "cok w" and "(\<exists>e. fst (ca_get (ud_cache D) i w) = Inl e) \<or> cached w i = None"
    and "service_getUserProfile D i w = (r, w')" and "uuid i"
  shows "r = Inr j \<Longrightarrow> \<exists>u \<in> set (users w). ur_id u = i \<and> j = public_json (toPublicUser u)"
    and "r = Inl e \<Longrightarrow> is_AppError e \<Longrightarrow> e = NotFoundError ''User not found.'' \<and> (\<forall>u \<in> set (users w). ur_id u \<noteq> i)"
    and "users w' = users w"
proof -
  obtain r0 w1 where s1: "ca_get (ud_cache D) i w = (r0, w1)"
    by (meson surj_pair)
  have c1: "readCachedProfile D i w = (Inr JNull, w1)"
    using assms(2) s1 cache.cache_hit [OF assms(1), of i]
    by (cases r0) (auto simp: readCachedProfile_def attempt_def split: option.splits)
  have u1: "users w1 = users w" "cok w1"
    using cache_get_users [OF assms(1) s1] cache.cache_get_frame [OF assms(1) s1] by simp_all
  obtain ru w2 where s2: "us_findById (ud_users D) i w1 = (ru, w2)"
    by (meson surj_pair)
  have u2: "users w2 = users w" "cok w2"
    using accounts.find_id_frame [OF s2] find_id_cache [OF s2] u1 by simp_all
  define rest where "rest = (\<lambda>user. case user of
       None \<Rightarrow> raise (NotFoundError ''User not found.'')
     | Some u \<Rightarrow> andthen (attempt (ca_set (ud_cache D) i (toPublicUser u)) (\<lambda>error. ret ()))
         (\<lambda>_. ret (public_json (toPublicUser u))))"
  have run: "andthen (us_findById (ud_users D) i) rest w1 = (r, w')"
    using assms(3) c1 by (simp add: service_getUserProfile_def act_simps rest_def Let_def)
  have hit: "users w' = users w \<and> r = Inr (public_json (toPublicUser u))" if "ru = Inr (Some u)" for u
  proof -
    obtain r3 w3 where s3: "ca_set (ud_cache D) i (toPublicUser u) w2 = (r3, w3)"
      by (meson surj_pair)
    then have "rest (Some u) w2 = (Inr (public_json (toPublicUser u)), w3)"
      by (cases r3) (simp_all add: rest_def andthen_def attempt_def)
    with run s2 that cache_set_users [OF u2(2) s3] u2(1) show ?thesis
      by (simp add: act_simps)
  qed
  have found: "so = find (\<lambda>u. ur_id u = i) (users w)" if "ru = Inr so" for so
    using accounts.find_id [OF assms(4), of w1 so w2] s2 that u1 by simp
  have err: "r = Inl e \<and> w' = w2" if "ru = Inl e" for e
    using run s2 that by (simp add: act_simps)
  have miss: "r = Inl (NotFoundError ''User not found.'') \<and> w' = w2" if "ru = Inr None"
    using run s2 that by (simp add: act_simps rest_def)
  show "r = Inr j \<Longrightarrow> \<exists>u \<in> set (users w). ur_id u = i \<and> j = public_json (toPublicUser u)"
    using hit found err miss
    by (cases ru; cases "projr ru") (auto simp: find_Some_iff dest!: sym [of "Some _"])
  show "r = Inl e \<Longrightarrow> is_AppError e \<Longrightarrow> e = NotFoundError ''User not found.'' \<and> (\<forall>u \<in> set (users w). ur_id u \<noteq> i)"
    using hit found err miss accounts.find_id_err s2
    by (cases ru; cases "projr ru") (auto simp: find_None_iff dest!: sym [of None])
  show "users w' = users w"
    using hit err miss u2 by (cases ru; cases "projr ru") auto
qed

text \<open>A page of the listing is that slice of the table, without the hashes.\<close>

lemma listUsers_Inr:
  assumes "service_listUsers D raw w = (Inr res, w')"
  shows "\<exists>l k. page_fields (ud_zod D) raw = Inr (l, k) \<and> ls_limit res = l \<and> ls_offset res = k \<and>
    ls_items res = map toPublicUser (take (nat l) (drop (nat k) (users w))) \<and> ls_total res = length (users w)"
proof -
  from assms obtain l k where f: "page_fields (ud_zod D) raw = Inr (l, k)"
    by (cases "page_fields (ud_zod D) raw") (auto simp: service_listUsers_def)
  with assms obtain us cnt where "us_listPaginated (ud_users D) (nat l) (nat k) w = (Inr (us, cnt), w')"
    and "res = \<lparr>ls_items = map toPublicUser us, ls_total = cnt, ls_limit = l, ls_offset = k\<rparr>"
    by (auto simp: service_listUsers_def andthen_eq_Inr_iff)
  with accounts.list_page f show ?thesis by force
qed

end

subsection \<open>Properties\<close>

text \<open>
  What a registration accepts is within its documented bounds, whatever the body: a name of 3 to
  30 characters, a full name of 2 to 100, a password of 12 to 72, an address of the e-mail
  format and in lower case; anything else is answered with a 400.
\<close>

theorem registration_bounds:
  assumes "zod_library Z email num"
  shows "case create_fields Z raw of
      Inr (u, n, p, m) \<Rightarrow> 3 \<le> length u \<and> length u \<le> 30 \<and> 2 \<le> length n \<and> length n \<le> 100 \<and>
        12 \<le> length p \<and> length p \<le> 72 \<and> email m \<and> js_toLowerCase m = m
    | Inl e \<Rightarrow> statusCode e = Some 400"
  using zod_library.create_fields_bounds [OF assms] zod_library.create_fields_error [OF assms]
  by (fastforce simp: MAX_PASSWORD_LENGTH_def split: sum.split)

lemma registration_bounds_witness:
  "case create_fields (ref_zod ref_email ref_number) (Some JNull) of Inr f \<Rightarrow> False | Inl e \<Rightarrow> statusCode e = Some 400"
  using registration_bounds [OF ref_zod.zod_library_axioms, of "Some JNull"]
  by (simp add: create_fields_def parseOrThrow_def ref_zod_def)



end
