(* ===== verification/KeySpaces.thy ===== *)
theory KeySpaces
  imports SessionContract LoginThrottle CacheRepository
begin

section \<open>Key spaces\<close>

text \<open>
  The sessions, the throttle, the profile cache and the rate limiters share one Redis
  server. Each component writes only keys of its own prefix, so none can disturb what
  another one stores. \<open>unchanged K st st'\<close>: the two states agree outside the keys \<open>K\<close>,
  and no time passed.
\<close>

definition session_key :: "string \<Rightarrow> bool" where
  "session_key k \<longleftrightarrow> (\<exists>i. k = sessionKey i) \<or> (\<exists>u. k = userSessionsKey u)"

definition throttle_key :: "string \<Rightarrow> bool" where
  "throttle_key k \<longleftrightarrow> (\<exists>b. k = ''login:failures:'' @ b) \<or> (\<exists>b. k = ''login:lock:'' @ b)"

definition profile_key :: "string \<Rightarrow> bool" where
  "profile_key k \<longleftrightarrow> (\<exists>i. k = profileKey i)"

lemmas key_defs = sessionKey_def userSessionsKey_def SESSION_PREFIX_def profileKey_def

lemma key_spaces [simp]:
  "session_key (sessionKey i)" "session_key (userSessionsKey u)"
  "\<not> session_key (''login:failures:'' @ b)" "\<not> session_key (''login:lock:'' @ b)"
  "\<not> session_key (profileKey i)"
  "throttle_key (failuresKey n)" "throttle_key (lockKey n)"
  "\<not> throttle_key (sessionKey i)" "\<not> throttle_key (userSessionsKey u)" "\<not> throttle_key (profileKey i)"
  "profile_key (profileKey i)" "\<not> profile_key (sessionKey i)" "\<not> profile_key (userSessionsKey u)"
  "\<not> profile_key (''login:failures:'' @ b)" "\<not> profile_key (''login:lock:'' @ b)"
  by (auto simp: session_key_def throttle_key_def profile_key_def key_defs failuresKey_def lockKey_def)

definition unchanged ::
  "('r \<Rightarrow> int) \<Rightarrow> ('r \<Rightarrow> string \<Rightarrow> rval option) \<Rightarrow> ('r \<Rightarrow> string \<Rightarrow> int option) \<Rightarrow> (string \<Rightarrow> bool) \<Rightarrow>
   'r \<Rightarrow> 'r \<Rightarrow> bool" where
  "unchanged now val dl K st st' \<longleftrightarrow>
     now st' = now st \<and> (\<forall>k. \<not> K k \<longrightarrow> val st' k = val st k \<and> dl st' k = dl st k)"

lemma unchanged_refl [simp]: "unchanged now val dl K st st"
  by (simp add: unchanged_def)

lemma unchanged_trans:
  "unchanged now val dl K a b \<Longrightarrow> unchanged now val dl K b c \<Longrightarrow> unchanged now val dl K a c"
  by (simp add: unchanged_def)

lemma unchangedD:
  assumes "unchanged now val dl K st st'" and "\<not> K k"
  shows "val st' k = val st k" "dl st' k = dl st k"
  using assms by (simp_all add: unchanged_def)

text \<open>What the other components see.\<close>

lemma throttle_view:
  assumes "unchanged now val dl K st st'" and "\<And>b. \<not> K (''login:failures:'' @ b)" "\<And>b. \<not> K (''login:lock:'' @ b)"
  shows "failures_at val st' = failures_at val st" "lock_at dl st' = lock_at dl st"
    "throttle_ok val dl st' = throttle_ok val dl st"
proof -
  note same = unchangedD [OF assms(1) assms(2)] unchangedD [OF assms(1) assms(3)]
  show "failures_at val st' = failures_at val st" "lock_at dl st' = lock_at dl st"
    "throttle_ok val dl st' = throttle_ok val dl st"
    unfolding failures_at_def [abs_def] lock_at_def [abs_def] throttle_ok_def same by (rule refl)+
qed

lemma session_view:
  assumes "unchanged now val dl K st st'" and "\<And>i. \<not> K (sessionKey i)" "\<And>u. \<not> K (userSessionsKey u)"
  shows "session_at val st' = session_at val st" "index_at val st' = index_at val st"
    "sessions_ok val st' = sessions_ok val st"
proof -
  note same = unchangedD [OF assms(1) assms(2)] unchangedD [OF assms(1) assms(3)]
  show "session_at val st' = session_at val st" "index_at val st' = index_at val st"
    "sessions_ok val st' = sessions_ok val st"
    unfolding session_at_def [abs_def] index_at_def [abs_def] sessions_ok_def same by (rule refl)+
qed

lemma profile_view:
  assumes "unchanged now val dl K st st'" and "\<And>i. \<not> K (profileKey i)"
  shows "profile_at val st' = profile_at val st" "cache_ok val st' = cache_ok val st"
proof -
  note same = unchangedD [OF assms]
  show "profile_at val st' = profile_at val st" "cache_ok val st' = cache_ok val st"
    unfolding profile_at_def [abs_def] cache_ok_def same by (rule refl)+
qed

lemma now_view: "unchanged now val dl K st st' \<Longrightarrow> now st' = now st"
  by (simp add: unchanged_def)

lemma session_keys_views:
  assumes "unchanged now val dl session_key st st'"
  shows "failures_at val st' = failures_at val st" "lock_at dl st' = lock_at dl st"
    "throttle_ok val dl st' = throttle_ok val dl st" "profile_at val st' = profile_at val st"
    "cache_ok val st' = cache_ok val st" "now st' = now st"
  by ((rule throttle_view [OF assms] profile_view [OF assms] now_view [OF assms]; rule key_spaces)+)

lemma throttle_keys_views:
  assumes "unchanged now val dl throttle_key st st'"
  shows "session_at val st' = session_at val st" "index_at val st' = index_at val st"
    "sessions_ok val st' = sessions_ok val st" "profile_at val st' = profile_at val st"
    "cache_ok val st' = cache_ok val st" "now st' = now st"
  by ((rule session_view [OF assms] profile_view [OF assms] now_view [OF assms]; rule key_spaces)+)

lemma profile_keys_views:
  assumes "unchanged now val dl profile_key st st'"
  shows "session_at val st' = session_at val st" "index_at val st' = index_at val st"
    "sessions_ok val st' = sessions_ok val st" "failures_at val st' = failures_at val st"
    "lock_at dl st' = lock_at dl st" "throttle_ok val dl st' = throttle_ok val dl st" "now st' = now st"
  by ((rule session_view [OF assms] throttle_view [OF assms] now_view [OF assms]; rule key_spaces)+)

context redis_server
begin

text \<open>One command on an own key.\<close>

lemma unchanged_commands:
  assumes "K k"
  shows "0 < n \<Longrightarrow> unchanged (rd_now R) val dl K st (rd_set R st k t n)"
    and "unchanged (rd_now R) val dl K st (rd_del R st k)"
    and "0 < n \<Longrightarrow> unchanged (rd_now R) val dl K st (rd_expire R st k n)"
    and "\<not> is_text (val st k) \<Longrightarrow> unchanged (rd_now R) val dl K st (rd_sadd R st k m)"
    and "\<not> is_text (val st k) \<Longrightarrow> unchanged (rd_now R) val dl K st (rd_srem R st k m)"
  using assms by (auto simp: unchanged_def views)

lemma cmd_set_unchanged:
  "K k \<Longrightarrow> unchanged (rd_now R) val dl K st (snd (cmd_set R k t n st))"
  by (simp add: cmd_set_def unchanged_commands)

text \<open>The scripts and transactions of the sessions.\<close>

lemma rotate_script_unchanged:
  assumes "sessions_ok val st"
  shows "unchanged (rd_now R) val dl session_key st
    (snd (rotate_script R (sessionKey i) (userSessionsKey u) h h' r now g idle sid st))"
proof -
  have "unchanged (rd_now R) val dl session_key st (rd_del R st (sessionKey i))"
    by (simp add: unchanged_commands)
  moreover have "unchanged (rd_now R) val dl session_key (rd_del R st (sessionKey i))
      (rd_srem R (rd_del R st (sessionKey i)) (userSessionsKey u) sid)"
    using sessions_okD(2) [OF sessions_ok_updates(2) [OF assms]] by (simp add: unchanged_commands)
  ultimately have "unchanged (rd_now R) val dl session_key st
      (rd_srem R (rd_del R st (sessionKey i)) (userSessionsKey u) sid)"
    by (rule unchanged_trans)
  moreover have "unchanged (rd_now R) val dl session_key st
      (snd (case cmd_set R (sessionKey i) t n st of
        (Inl e, s) \<Rightarrow> (Inl e, s) | (Inr v, s) \<Rightarrow> (Inr Rotated, s)))" for t n
    using cmd_set_unchanged [of session_key "sessionKey i" st t n] by (auto split: prod.split sum.split)
  ultimately show ?thesis
    by (auto simp: rotate_script_def Let_def split: option.split sum.split)
qed

lemma del_each_unchanged:
  "unchanged (rd_now R) val dl session_key st (del_each R SESSION_PREFIX ids st)"
proof (induction ids arbitrary: st)
  case Nil
  then show ?case by simp
next
  case (Cons a ids)
  have "unchanged (rd_now R) val dl session_key st (rd_del R st (sessionKey a))"
    by (simp add: unchanged_commands)
  with Cons [of "rd_del R st (sessionKey a)"] show ?case
    by (auto simp: sessionKey_def intro: unchanged_trans)
qed

lemma delete_all_script_unchanged:
  "unchanged (rd_now R) val dl session_key st
     (snd (delete_all_script R (userSessionsKey u) SESSION_PREFIX st))"
  unfolding delete_all_script_def Let_def snd_conv
  by (rule unchanged_trans [OF del_each_unchanged unchanged_commands(2)]) simp

lemma multi_unchanged:
  assumes "execOrThrow cs w = (r, w')" and "sessions_ok val (w_redis w)"
    and "\<And>c s. c \<in> set cs \<Longrightarrow> sessions_ok val s \<Longrightarrow>
      sessions_ok val (snd (c s)) \<and> unchanged (rd_now R) val dl session_key s (snd (c s))"
  shows "unchanged (rd_now R) val dl session_key (w_redis w) (w_redis w')"
proof -
  have "(\<lambda>s. sessions_ok val s \<and> unchanged (rd_now R) val dl session_key (w_redis w) s) (w_redis w')"
  proof (rule execOrThrow_invariant [OF assms(1)])
    show "sessions_ok val (snd (c s)) \<and> unchanged (rd_now R) val dl session_key (w_redis w) (snd (c s))"
      if "c \<in> set cs" "sessions_ok val s \<and> unchanged (rd_now R) val dl session_key (w_redis w) s" for c s
      using assms(3) [OF that(1), of s] that(2)
        unchanged_trans [of "rd_now R" val dl session_key "w_redis w" s "snd (c s)"] by simp
  qed (simp add: assms(2))
  then show ?thesis by simp
qed

lemma session_ops_unchanged:
  assumes "sessions_ok val (w_redis w)"
  shows "session_get R i w = (r1, w') \<Longrightarrow> unchanged (rd_now R) val dl session_key (w_redis w) (w_redis w')"
    and "session_create R i s w = (r2, w') \<Longrightarrow> unchanged (rd_now R) val dl session_key (w_redis w) (w_redis w')"
    and "session_rotate R i u p w = (r3, w') \<Longrightarrow> unchanged (rd_now R) val dl session_key (w_redis w) (w_redis w')"
    and "session_delete R i u w = (r2, w') \<Longrightarrow> unchanged (rd_now R) val dl session_key (w_redis w) (w_redis w')"
    and "session_deleteAllForUser R u w = (r4, w') \<Longrightarrow> unchanged (rd_now R) val dl session_key (w_redis w) (w_redis w')"
proof -
  show "unchanged (rd_now R) val dl session_key (w_redis w) (w_redis w')" if run: "session_get R i w = (r1, w')"
  proof -
    obtain r0 where "redis_call (\<lambda>st. (Inr (rd_get R st (sessionKey i)), st)) w = (r0, w')"
      using run by (auto simp: session_get_def andthen_def
          split: prod.splits sum.splits option.splits if_splits)
    from redis_call_state [OF this] show ?thesis by auto
  qed
  show "unchanged (rd_now R) val dl session_key (w_redis w) (w_redis w')" if created: "session_create R i s w = (r2, w')"
  proof -
    obtain ttl where run: "execOrThrow (create_queue R i s ttl) w = (r2, w')"
      using created by (simp add: session_create_def Let_def act_simps)
    have pos: "0 < SESSION_ABSOLUTE_TTL_SECONDS"
      by (simp add: session_constants)
    show ?thesis
      by (rule multi_unchanged [OF run assms])
        (auto simp: create_queue_def JSON_stringify_def unchanged_commands sessions_okD pos session_views
          cmd_set_def not_le)
  qed
  show "unchanged (rd_now R) val dl session_key (w_redis w) (w_redis w')" if "session_rotate R i u p w = (r3, w')"
    using redis_call_state [OF that [unfolded session_rotate_def]] rotate_script_unchanged [OF assms]
    by auto
  show "unchanged (rd_now R) val dl session_key (w_redis w) (w_redis w')" if "session_delete R i u w = (r2, w')"
    by (rule multi_unchanged [OF that [unfolded session_delete_def] assms])
      (auto simp: delete_queue_def unchanged_commands sessions_okD session_views)
  show "unchanged (rd_now R) val dl session_key (w_redis w) (w_redis w')"
    if "session_deleteAllForUser R u w = (r4, w')"
    using redis_call_state [OF that [unfolded session_deleteAllForUser_def]]
      delete_all_script_unchanged [of "w_redis w" u] by auto
qed

text \<open>The throttle.\<close>

lemma record_script_unchanged:
  assumes "throttle_ok val dl st" and "0 < win"
  shows "unchanged (rd_now R) val dl throttle_key st
    (snd (record_failure_script R (failuresKey n) (lockKey n) win f b m st))"
proof -
  let ?st1 = "snd (rd_incr R st (failuresKey n))"
  have "counter_ok (val st (failuresKey n)) (dl st (failuresKey n))"
    using assms(1) by (simp add: throttle_ok_def failuresKey_def)
  then have one: "unchanged (rd_now R) val dl throttle_key st ?st1"
    using incr_new [of st "failuresKey n"] incr_old [of st "failuresKey n"]
    by (auto simp: counter_ok_def unchanged_def now_incr dl_incr)
  have "unchanged (rd_now R) val dl throttle_key ?st1 (rd_expire R ?st1 (failuresKey n) win)"
    using assms(2) by (simp add: unchanged_commands)
  with one have two: "unchanged (rd_now R) val dl throttle_key st (rd_expire R ?st1 (failuresKey n) win)"
    by (rule unchanged_trans)
  have "unchanged (rd_now R) val dl throttle_key s (snd (cmd_set R (lockKey n) t d s))" for s t d
    by (simp add: cmd_set_unchanged)
  note three = unchanged_trans [OF one this] unchanged_trans [OF two this]
  show ?thesis
    using one two three
    by (auto simp: record_failure_script_def Let_def case_prod_unfold split: sum.split)
qed

lemma throttle_ops_unchanged:
  assumes "throttle_ok val dl (w_redis w)" and "throttle_valid th"
  shows "assertNotThrottled R n w = (r, w') \<Longrightarrow> unchanged (rd_now R) val dl throttle_key (w_redis w) (w_redis w')"
    and "recordFailure R th n w = (r, w') \<Longrightarrow> unchanged (rd_now R) val dl throttle_key (w_redis w) (w_redis w')"
    and "throttle_reset R n w = (r, w') \<Longrightarrow> unchanged (rd_now R) val dl throttle_key (w_redis w) (w_redis w')"
proof -
  show "unchanged (rd_now R) val dl throttle_key (w_redis w) (w_redis w')" if "assertNotThrottled R n w = (r, w')"
    using assert_laws(1) [OF assms(1) that] by simp
  show "unchanged (rd_now R) val dl throttle_key (w_redis w) (w_redis w')" if run: "recordFailure R th n w = (r, w')"
  proof -
    obtain r0 where "redis_call (record_failure_script R (failuresKey n) (lockKey n)
        (failureWindowSeconds th) (freeAttempts th) (baseDelaySeconds th) (maxDelaySeconds th)) w = (r0, w')"
      using run by (auto simp: recordFailure_def andthen_def split: prod.splits sum.splits)
    from redis_call_state [OF this] record_script_unchanged [OF assms(1)] assms(2) show ?thesis
      by (auto simp: throttle_valid_def)
  qed
  show "unchanged (rd_now R) val dl throttle_key (w_redis w) (w_redis w')" if "throttle_reset R n w = (r, w')"
  proof -
    have "unchanged (rd_now R) val dl throttle_key s (rd_del R (rd_del R s (failuresKey n)) (lockKey n))" for s
      by (rule unchanged_trans [OF unchanged_commands(2) unchanged_commands(2)]) simp_all
    with redis_call_state [OF that [unfolded throttle_reset_def]] show ?thesis by auto
  qed
qed

text \<open>The cache.\<close>

lemma cache_set_unchanged:
  assumes "cache_setUserProfile R i p t w = (r, w')"
  shows "unchanged (rd_now R) val dl profile_key (w_redis w) (w_redis w')"
  using redis_call_state [OF assms [unfolded cache_setUserProfile_def]]
  by (auto simp: cmd_set_unchanged)

end

text \<open>None of these calls touches the database or the clock of the process.\<close>

lemma session_ops_frame:
  shows "session_get R i w = (r1, w') \<Longrightarrow> w_pg w' = w_pg w \<and> w_now w' = w_now w"
    and "session_create R i s w = (r2, w') \<Longrightarrow> w_pg w' = w_pg w \<and> w_now w' = w_now w"
    and "session_rotate R i u p w = (r3, w') \<Longrightarrow> w_pg w' = w_pg w \<and> w_now w' = w_now w"
    and "session_delete R i u w = (r2, w') \<Longrightarrow> w_pg w' = w_pg w \<and> w_now w' = w_now w"
    and "session_deleteAllForUser R u w = (r4, w') \<Longrightarrow> w_pg w' = w_pg w \<and> w_now w' = w_now w"
proof -
  show "w_pg w' = w_pg w \<and> w_now w' = w_now w" if run: "session_get R i w = (r1, w')"
  proof -
    obtain r0 where "redis_call (\<lambda>st. (Inr (rd_get R st (sessionKey i)), st)) w = (r0, w')"
      using run by (auto simp: session_get_def andthen_def
          split: prod.splits sum.splits option.splits if_splits)
    from redis_call_frame [OF this] show ?thesis by simp
  qed
  show "w_pg w' = w_pg w \<and> w_now w' = w_now w" if "session_create R i s w = (r2, w')"
    using that execOrThrow_frame by (fastforce simp: session_create_def Let_def act_simps)
  show "w_pg w' = w_pg w \<and> w_now w' = w_now w" if "session_rotate R i u p w = (r3, w')"
    using redis_call_frame [OF that [unfolded session_rotate_def]] by simp
  show "w_pg w' = w_pg w \<and> w_now w' = w_now w" if "session_delete R i u w = (r2, w')"
    using execOrThrow_frame [OF that [unfolded session_delete_def]] by simp
  show "w_pg w' = w_pg w \<and> w_now w' = w_now w" if "session_deleteAllForUser R u w = (r4, w')"
    using redis_call_frame [OF that [unfolded session_deleteAllForUser_def]] by simp
qed

lemma throttle_ops_frame:
  shows "assertNotThrottled R n w = (r, w') \<Longrightarrow> w_pg w' = w_pg w \<and> w_now w' = w_now w"
    and "recordFailure R th n w = (r, w') \<Longrightarrow> w_pg w' = w_pg w \<and> w_now w' = w_now w"
    and "throttle_reset R n w = (r, w') \<Longrightarrow> w_pg w' = w_pg w \<and> w_now w' = w_now w"
proof -
  show "w_pg w' = w_pg w \<and> w_now w' = w_now w" if run: "assertNotThrottled R n w = (r, w')"
  proof -
    obtain r0 where "redis_call (\<lambda>st. (Inr (rd_ttl R st (lockKey n)), st)) w = (r0, w')"
      using run by (auto simp: assertNotThrottled_def andthen_def split: prod.splits sum.splits if_splits)
    from redis_call_frame [OF this] show ?thesis by simp
  qed
  show "w_pg w' = w_pg w \<and> w_now w' = w_now w" if run: "recordFailure R th n w = (r, w')"
  proof -
    obtain r0 where "redis_call (record_failure_script R (failuresKey n) (lockKey n)
        (failureWindowSeconds th) (freeAttempts th) (baseDelaySeconds th) (maxDelaySeconds th)) w = (r0, w')"
      using run by (auto simp: recordFailure_def andthen_def split: prod.splits sum.splits)
    from redis_call_frame [OF this] show ?thesis by simp
  qed
  show "w_pg w' = w_pg w \<and> w_now w' = w_now w" if "throttle_reset R n w = (r, w')"
    using redis_call_frame [OF that [unfolded throttle_reset_def]] by simp
qed

subsection \<open>Properties\<close>



end
