(* ===== verification/Token_Reference.thy ===== *)
theory Token_Reference
  imports TokenService
begin

section \<open>A reference token library\<close>

text \<open>
  An executable token format on which the laws of \<open>jwt_library\<close> hold, for the witnesses:
  a token is the list of its fields, each field written character by character with a
  marker, so that reading is the exact inverse of writing. (It hides nothing; secrecy is not
  among the laws.)
\<close>

fun quote_field :: "string \<Rightarrow> string" where
  "quote_field [] = ''e''"
| "quote_field (c # cs) = CHR ''c'' # c # quote_field cs"

fun write_fields :: "string list \<Rightarrow> string" where
  "write_fields [] = []"
| "write_fields (f # fs) = quote_field f @ write_fields fs"

text \<open>The reader: the field being read (reversed) and the text that is left.\<close>

fun read_fields :: "string \<Rightarrow> string \<Rightarrow> string list option" where
  "read_fields acc [] = (if acc = [] then Some [] else None)"
| "read_fields acc [x] = (if x = CHR ''e'' then Some [rev acc] else None)"
| "read_fields acc (x # y # cs) =
     (if x = CHR ''e'' then map_option (\<lambda>fs. rev acc # fs) (read_fields [] (y # cs))
      else if x = CHR ''c'' then read_fields (y # acc) cs else None)"

lemma read_quote: "read_fields acc (quote_field f @ rest) = map_option (\<lambda>fs. (rev acc @ f) # fs) (read_fields [] rest)"
proof (induction f arbitrary: acc)
  case Nil
  then show ?case by (cases rest) simp_all
next
  case (Cons c f)
  then show ?case by simp
qed

lemma read_write [simp]: "read_fields [] (write_fields fs) = Some fs"
  by (induction fs) (simp_all add: read_quote)

text \<open>Only what was written can be read.\<close>

fun open_field :: "string \<Rightarrow> string" where
  "open_field [] = []"
| "open_field (c # cs) = CHR ''c'' # c # open_field cs"

lemma open_field_append: "open_field (a @ b) = open_field a @ open_field b"
  by (induction a) simp_all

lemma quote_open: "quote_field f = open_field f @ ''e''"
  by (induction f) simp_all

lemma read_only_written:
  "read_fields acc s = Some fs \<Longrightarrow> open_field (rev acc) @ s = write_fields fs"
proof (induction acc s arbitrary: fs rule: read_fields.induct)
  case (1 acc)
  then show ?case by (simp split: if_splits)
next
  case (2 acc x)
  then show ?case by (auto simp: quote_open split: if_splits)
next
  case (3 acc x y cs)
  then show ?case
    by (auto simp: quote_open open_field_append split: if_splits)
qed

text \<open>The time of issue, in seconds, as a field.\<close>

definition write_time :: "int \<Rightarrow> string" where
  "write_time n = (if n < 0 then CHR ''m'' else CHR ''p'') # replicate (nat \<bar>n\<bar>) (CHR ''1'')"

fun read_time :: "string \<Rightarrow> int option" where
  "read_time [] = None"
| "read_time (x # ds) =
     (if ds = replicate (length ds) (CHR ''1'') then
        (if x = CHR ''p'' then Some (int (length ds))
         else if x = CHR ''m'' \<and> ds \<noteq> [] then Some (- int (length ds)) else None)
      else None)"

lemma read_write_time [simp]: "read_time (write_time n) = Some n"
  by (auto simp: write_time_def)

lemma read_time_written: "read_time s = Some n \<Longrightarrow> s = write_time n"
proof (cases s)
  case Nil
  then show "read_time s = Some n \<Longrightarrow> s = write_time n" by simp
next
  case (Cons x ds)
  assume r: "read_time s = Some n"
  then have ds: "ds = replicate (length ds) (CHR ''1'')"
    by (simp add: Cons split: if_splits)
  have "(x = CHR ''p'' \<and> n = int (length ds)) \<or> (x = CHR ''m'' \<and> ds \<noteq> [] \<and> n = - int (length ds))"
    using r by (simp add: Cons split: if_splits)
  then have "write_time n = x # replicate (length ds) (CHR ''1'')"
    by (auto simp: write_time_def)
  with ds Cons show "s = write_time n" by simp
qed

definition ref_jwt_verify :: "string \<Rightarrow> string \<Rightarrow> jwt_checks \<Rightarrow> int \<Rightarrow> string + jwt_claims" where
  "ref_jwt_verify token secret ks t = (case read_fields [] token of
     Some [sid, role, sec, sub, ex, alg, iss, aud, tm] \<Rightarrow>
       (case read_time tm of
          None \<Rightarrow> Inl ''jwt malformed''
        | Some n \<Rightarrow>
            if sec = secret \<and> alg \<in> set (jk_algorithms ks) \<and> iss = jk_issuer ks \<and> aud = jk_audience ks
               \<and> (ex = ''15m'' \<longrightarrow> t div 1000 < n + 900)
            then Inr \<lparr>jc_sub = Some sub, jc_sid = Some sid, jc_role = Some role\<rparr>
            else Inl ''jwt rejected'')
   | _ \<Rightarrow> Inl ''jwt malformed'')"

definition ref_jwt :: jwt_lib where
  "ref_jwt = \<lparr>
     jwt_sign = (\<lambda>sid role secret opts t. write_fields
        [sid, role, secret, jo_subject opts, jo_expiresIn opts, jo_algorithm opts, jo_issuer opts,
         jo_audience opts, write_time (t div 1000)]),
     jwt_verify = ref_jwt_verify\<rparr>"

lemma ref_verify_fields:
  assumes "ref_jwt_verify token secret ks t = Inr c"
  obtains sid role sub ex alg iss aud n where
    "token = write_fields [sid, role, secret, sub, ex, alg, iss, aud, write_time n]"
    "alg \<in> set (jk_algorithms ks)" "iss = jk_issuer ks" "aud = jk_audience ks"
    "ex = ''15m'' \<longrightarrow> t div 1000 < n + 900"
    "c = \<lparr>jc_sub = Some sub, jc_sid = Some sid, jc_role = Some role\<rparr>"
proof -
  from assms obtain sid role sec sub ex alg iss aud tm n where
    r: "read_fields [] token = Some [sid, role, sec, sub, ex, alg, iss, aud, tm]"
    and n: "read_time tm = Some n" and "sec = secret" "alg \<in> set (jk_algorithms ks)"
    "iss = jk_issuer ks" "aud = jk_audience ks" "ex = ''15m'' \<longrightarrow> t div 1000 < n + 900"
    "c = \<lparr>jc_sub = Some sub, jc_sid = Some sid, jc_role = Some role\<rparr>"
    unfolding ref_jwt_verify_def by (auto split: option.splits list.splits if_splits)
  moreover have "token = write_fields [sid, role, sec, sub, ex, alg, iss, aud, tm]"
    using read_only_written [OF r] by simp
  ultimately show thesis
    using that read_time_written [OF n] by auto
qed

interpretation ref_jwt: jwt_library ref_jwt
proof unfold_locales
  fix opts ks t0 t sid role secret
  assume "jwt_passes opts ks t0 t"
  then show "jwt_verify ref_jwt (jwt_sign ref_jwt sid role secret opts t0) secret ks t =
      Inr \<lparr>jc_sub = Some (jo_subject opts), jc_sid = Some sid, jc_role = Some role\<rparr>"
    using read_write [of "[sid, role, secret, jo_subject opts, jo_expiresIn opts, jo_algorithm opts,
        jo_issuer opts, jo_audience opts, write_time (t0 div 1000)]"]
    by (simp add: ref_jwt_def ref_jwt_verify_def jwt_passes_def del: write_fields.simps)
next
  fix token secret ks t c
  assume "jwt_verify ref_jwt token secret ks t = Inr c"
  then have "ref_jwt_verify token secret ks t = Inr c"
    by (simp add: ref_jwt_def)
  then obtain sid role sub ex alg iss aud n where
    f: "token = write_fields [sid, role, secret, sub, ex, alg, iss, aud, write_time n]"
    "alg \<in> set (jk_algorithms ks)" "iss = jk_issuer ks" "aud = jk_audience ks"
    "ex = ''15m'' \<longrightarrow> t div 1000 < n + 900"
    "c = \<lparr>jc_sub = Some sub, jc_sid = Some sid, jc_role = Some role\<rparr>"
    by (rule ref_verify_fields)
  let ?opts = "\<lparr>jo_subject = sub, jo_expiresIn = ex, jo_algorithm = alg, jo_issuer = iss, jo_audience = aud\<rparr>"
  have "token = jwt_sign ref_jwt sid role secret ?opts (n * 1000) \<and> jwt_passes ?opts ks (n * 1000) t"
    using f by (simp add: ref_jwt_def jwt_passes_def)
  with f(6) show "\<exists>sub sid role opts t0. token = jwt_sign ref_jwt sid role secret opts t0 \<and>
      jwt_passes opts ks t0 t \<and> jo_subject opts = sub \<and>
      c = \<lparr>jc_sub = Some sub, jc_sid = Some sid, jc_role = Some role\<rparr>"
    by (metis jwt_options.select_convs(1))
qed

subsection \<open>Properties\<close>

text \<open>
  C20. Access tokens round trip: with a secret of at least 32 characters, the token that
  \<open>signAccessToken\<close> gives for a user, a session and a role is accepted by
  \<open>verifyAccessToken\<close> for 15 minutes, with exactly that user, session and role.
\<close>

theorem access_token_roundtrip:
  assumes "jwt_library J" and "signAccessToken J env u i r w = (Inr token, w1)"
    and "u \<noteq> []" and "i \<noteq> []" and "w_now w2 div 1000 < w_now w div 1000 + 15 * 60"
  shows "w1 = w \<and> verifyAccessToken J env token w2 =
    (Inr \<lparr>at_subject = u, at_sessionId = i, at_role = role_string r\<rparr>, w2)"
  using jwt_library.own_token_accepted [OF assms(1) _ assms(3,4), of env] assms(2,5)
  by (auto simp: signAccessToken_apply split: sum.splits)

lemma access_token_roundtrip_witness:
  "let w = \<lparr>w_redis = (), w_pg = (), w_now = 5000, w_random = (\<lambda>_. []), w_drawn = 0, w_faults = []\<rparr>;
       secret = Some (replicate 32 (CHR ''k''))
   in fst (verifyAccessToken ref_jwt secret
        (projr (fst (signAccessToken ref_jwt secret ''u1'' ''s1'' Admin w))) (w\<lparr>w_now := 800000\<rparr>)) =
      Inr \<lparr>at_subject = ''u1'', at_sessionId = ''s1'', at_role = ''admin''\<rparr>"
proof -
  let ?w = "\<lparr>w_redis = (), w_pg = (), w_now = 5000, w_random = (\<lambda>_. []), w_drawn = 0, w_faults = []\<rparr>"
  let ?s = "Some (replicate 32 (CHR ''k''))"
  obtain token where run: "signAccessToken ref_jwt ?s ''u1'' ''s1'' Admin ?w = (Inr token, ?w)"
    by (simp add: signAccessToken_apply getSecret_def MIN_SECRET_LENGTH_def)
  from access_token_roundtrip [OF ref_jwt.jwt_library_axioms run, of "?w\<lparr>w_now := 800000\<rparr>"] show ?thesis
    unfolding Let_def by (simp add: run)
qed

text \<open>
  C21. A weak or missing secret fails closed: without a \<open>JWT_SECRET\<close> of at least 32 characters no
  access token is ever signed (the login or refresh fails with a server error), and none is
  accepted.
\<close>

theorem weak_secret_fails_closed:
  assumes "env = None \<or> (\<exists>s. env = Some s \<and> length s < 32)"
  shows "\<exists>m. signAccessToken J env u i r w = (Inl (JsError m), w) \<and>
    verifyAccessToken J env token w = (Inl (UnauthorizedError ''Invalid token''), w)"
  using assms
  by (auto simp: signAccessToken_apply verifyAccessToken_apply getSecret_def MIN_SECRET_LENGTH_def)

lemma weak_secret_fails_closed_witness:
  "fst (verifyAccessToken ref_jwt (Some ''secret'') ''token''
     \<lparr>w_redis = (), w_pg = (), w_now = 0, w_random = (\<lambda>_. []), w_drawn = 0, w_faults = []\<rparr>) =
   Inl (UnauthorizedError ''Invalid token'')"
  using weak_secret_fails_closed [of "Some ''secret''" ref_jwt "''u1''" "''s1''" User
      "\<lparr>w_redis = (), w_pg = (), w_now = 0, w_random = (\<lambda>_. []), w_drawn = 0, w_faults = []\<rparr>" "''token''"]
  by simp

text \<open>
  Splitting a presented refresh token is exact: \<open>splitRefreshToken\<close> succeeds with a session id
  and a validator if and only if the text is that id, a dot and that validator, the id has no
  dot, and neither is empty.
\<close>

theorem split_refresh_token_iff:
  "splitRefreshToken raw = Some \<lparr>sp_sessionId = i, sp_validator = v\<rparr> \<longleftrightarrow>
     raw = i @ ''.'' @ v \<and> CHR ''.'' \<notin> set i \<and> i \<noteq> [] \<and> v \<noteq> []"
  using split_refresh_token [of i v] splitRefreshToken_Some [of raw "\<lparr>sp_sessionId = i, sp_validator = v\<rparr>"]
  by (auto simp: refresh_token_def)

end
