(* ===== verification/Backend.thy ===== *)
theory Backend
  imports UserService KeySpaces Token_Reference
begin

section \<open>The services on the two servers\<close>

text \<open>
  The composition root of \<open>src/routes.ts\<close> (\<open>createRouter\<close>): \<open>auth_service\<close> wires the
  authentication service to the repositories on one Redis server and one PostgreSQL server.
  The locale \<open>backend\<close> is these two servers; in it the wired service is an
  \<open>auth_backend\<close>, so every lemma of \<open>AuthService\<close> holds of the program.
\<close>

definition auth_service ::
  "'r redis \<Rightarrow> 'p postgres \<Rightarrow> throttle \<Rightarrow> jwt_lib \<Rightarrow> string option \<Rightarrow> (string \<Rightarrow> string) \<Rightarrow>
   (string \<Rightarrow> string \<Rightarrow> bool) \<Rightarrow> zod_lib \<Rightarrow> ('r, 'p) world auth_deps" where
  "auth_service R P th J env sha compare Z =
     \<lparr>ad_users = user_repo P, ad_cache = cache_repo R, ad_sessions = session_repo R,
      ad_throttle = throttle_service R th,
      ad_generateRefreshToken = generateRefreshToken sha,
      ad_signAccessToken = signAccessToken J env,
      ad_hashRefreshValidator = hashRefreshValidator sha,
      ad_compare = compare, ad_randomUUID = draw, ad_now = date_now, ad_zod = Z\<rparr>"

lemma auth_service_simps [simp]:
  "ad_users (auth_service R P th J env sha compare Z) = user_repo P"
  "ad_cache (auth_service R P th J env sha compare Z) = cache_repo R"
  "ad_sessions (auth_service R P th J env sha compare Z) = session_repo R"
  "ad_throttle (auth_service R P th J env sha compare Z) = throttle_service R th"
  "ad_generateRefreshToken (auth_service R P th J env sha compare Z) = generateRefreshToken sha"
  "ad_signAccessToken (auth_service R P th J env sha compare Z) = signAccessToken J env"
  "ad_hashRefreshValidator (auth_service R P th J env sha compare Z) = hashRefreshValidator sha"
  "ad_compare (auth_service R P th J env sha compare Z) = compare"
  "ad_randomUUID (auth_service R P th J env sha compare Z) = draw"
  "ad_now (auth_service R P th J env sha compare Z) = date_now"
  "ad_zod (auth_service R P th J env sha compare Z) = Z"
  by (simp_all add: auth_service_def)

locale backend = redis_throttle R val dl th + postgres P rows lower pg_text uuid
  for R :: "'r redis" and val and dl and th and P :: "'p postgres" and rows and lower and pg_text and uuid +
  fixes J :: jwt_lib and env :: "string option" and sha :: "string \<Rightarrow> string"
    and compare :: "string \<Rightarrow> string \<Rightarrow> bool" and Z :: zod_lib

lemma lookup_frame:
  shows "user_findByUsername P n w = (r, w') \<Longrightarrow> w_redis w' = w_redis w \<and> w_now w' = w_now w"
    and "user_findById P n w = (r, w') \<Longrightarrow> w_redis w' = w_redis w \<and> w_now w' = w_now w"
  using lookup_laws(2,3) unfolding user_findByUsername_def user_findById_def by metis+

text \<open>Signing fails with an error of the configuration only.\<close>

lemma signAccessToken_err:
  assumes "signAccessToken J env i sid role w = (Inl e, w')"
  shows "\<not> is_AppError e"
  using assms by (auto simp: signAccessToken_apply getSecret_def split: sum.splits option.splits if_splits)

lemma cache_set_frame:
  "cache_setUserProfile R i p t w = (r, w') \<Longrightarrow> w_pg w' = w_pg w \<and> w_now w' = w_now w"
  unfolding cache_setUserProfile_def using redis_call_frame by blast

context backend
begin

text \<open>Agreement outside the own keys is what the other components ask for.\<close>

lemma keeps_sessions:
  assumes "\<And>w r w'. sessions_ok val (w_redis w) \<Longrightarrow> m w = (r, w') \<Longrightarrow>
    unchanged (rd_now R) val dl session_key (w_redis w) (w_redis w')"
    and "\<And>w r w'. m w = (r, w') \<Longrightarrow> w_pg w' = w_pg w \<and> w_now w' = w_now w"
  shows "keeps (\<lambda>w. sessions_ok val (w_redis w)) (\<lambda>w. (failures_at val (w_redis w),
    lock_at dl (w_redis w), throttle_ok val dl (w_redis w), rd_now R (w_redis w),
    profile_at val (w_redis w), cache_ok val (w_redis w), rows (w_pg w))) m"
  unfolding keeps_def
proof (intro allI impI)
  fix w r w'
  assume "sessions_ok val (w_redis w)" and m: "m w = (r, w')"
  from session_keys_views [OF assms(1) [OF this]] assms(2) [OF m]
  show "(failures_at val (w_redis w'), lock_at dl (w_redis w'), throttle_ok val dl (w_redis w'),
      rd_now R (w_redis w'), profile_at val (w_redis w'), cache_ok val (w_redis w'), rows (w_pg w')) =
    (failures_at val (w_redis w), lock_at dl (w_redis w), throttle_ok val dl (w_redis w),
      rd_now R (w_redis w), profile_at val (w_redis w), cache_ok val (w_redis w), rows (w_pg w))"
    by simp
qed

lemma keeps_throttle:
  assumes "\<And>w r w'. throttle_ok val dl (w_redis w) \<Longrightarrow> m w = (r, w') \<Longrightarrow>
    unchanged (rd_now R) val dl throttle_key (w_redis w) (w_redis w')"
    and "\<And>w r w'. m w = (r, w') \<Longrightarrow> w_pg w' = w_pg w \<and> w_now w' = w_now w"
  shows "keeps (\<lambda>w. throttle_ok val dl (w_redis w)) (\<lambda>w. (session_at val (w_redis w),
    index_at val (w_redis w), sessions_ok val (w_redis w), w_now w,
    profile_at val (w_redis w), cache_ok val (w_redis w), rows (w_pg w))) m"
  unfolding keeps_def
proof (intro allI impI)
  fix w r w'
  assume "throttle_ok val dl (w_redis w)" and m: "m w = (r, w')"
  from throttle_keys_views [OF assms(1) [OF this]] assms(2) [OF m]
  show "(session_at val (w_redis w'), index_at val (w_redis w'), sessions_ok val (w_redis w'), w_now w',
      profile_at val (w_redis w'), cache_ok val (w_redis w'), rows (w_pg w')) =
    (session_at val (w_redis w), index_at val (w_redis w), sessions_ok val (w_redis w), w_now w,
      profile_at val (w_redis w), cache_ok val (w_redis w), rows (w_pg w))"
    by simp
qed

lemma keeps_cache:
  "keeps (\<lambda>w. cache_ok val (w_redis w)) (\<lambda>w. (session_at val (w_redis w), index_at val (w_redis w),
    sessions_ok val (w_redis w), w_now w, failures_at val (w_redis w), lock_at dl (w_redis w),
    throttle_ok val dl (w_redis w), rd_now R (w_redis w), rows (w_pg w)))
    (cache_setUserProfile R i p t)"
  unfolding keeps_def
proof (intro allI impI)
  fix r and w w' :: "('r, 'p) world"
  assume m: "cache_setUserProfile R i p t w = (r, w')"
  from profile_keys_views [OF cache_set_unchanged [OF this]] cache_set_frame [OF m]
  show "(session_at val (w_redis w'), index_at val (w_redis w'), sessions_ok val (w_redis w'), w_now w',
      failures_at val (w_redis w'), lock_at dl (w_redis w'), throttle_ok val dl (w_redis w'),
      rd_now R (w_redis w'), rows (w_pg w')) =
    (session_at val (w_redis w), index_at val (w_redis w), sessions_ok val (w_redis w), w_now w,
      failures_at val (w_redis w), lock_at dl (w_redis w), throttle_ok val dl (w_redis w),
      rd_now R (w_redis w), rows (w_pg w))"
    by simp
qed

end

sublocale backend \<subseteq> auth: auth_backend "auth_service R P th J env sha compare Z"
  "\<lambda>w. session_at val (w_redis w)" "\<lambda>w. index_at val (w_redis w)" "\<lambda>w. sessions_ok val (w_redis w)"
  healthy w_now th "\<lambda>w. failures_at val (w_redis w)" "\<lambda>w. lock_at dl (w_redis w)"
  "\<lambda>w. throttle_ok val dl (w_redis w)" "\<lambda>w. rd_now R (w_redis w)"
  "\<lambda>w. profile_at val (w_redis w)" "\<lambda>w. cache_ok val (w_redis w)"
  "\<lambda>w. rows (w_pg w)" lower pg_text uuid
proof -
  show "auth_backend (auth_service R P th J env sha compare Z)
    (\<lambda>w. session_at val (w_redis w)) (\<lambda>w. index_at val (w_redis w)) (\<lambda>w. sessions_ok val (w_redis w))
    healthy w_now th (\<lambda>w. failures_at val (w_redis w)) (\<lambda>w. lock_at dl (w_redis w))
    (\<lambda>w. throttle_ok val dl (w_redis w)) (\<lambda>w. rd_now R (w_redis w))
    (\<lambda>w. profile_at val (w_redis w)) (\<lambda>w. cache_ok val (w_redis w))
    (\<lambda>w. rows (w_pg w)) lower pg_text uuid"
    unfolding auth_backend_def auth_backend_axioms_def auth_service_simps session_repo_simps
      throttle_service_simps cache_repo_simps user_repo_simps
  proof (intro conjI allI impI)
    show "session_store (session_repo R) (\<lambda>w. session_at val (w_redis w)) (\<lambda>w. index_at val (w_redis w))
      (\<lambda>w. sessions_ok val (w_redis w)) healthy w_now"
      by (rule sess_repo.session_store_axioms)
    show "login_throttle (throttle_service R th) th (\<lambda>w. failures_at val (w_redis w))
      (\<lambda>w. lock_at dl (w_redis w)) (\<lambda>w. throttle_ok val dl (w_redis w)) healthy (\<lambda>w. rd_now R (w_redis w))"
      by (rule thr.login_throttle_axioms)
    show "profile_cache (cache_repo R) (\<lambda>w. profile_at val (w_redis w)) (\<lambda>w. cache_ok val (w_redis w)) healthy"
      by (rule cache_store.profile_cache_axioms)
    show "user_store (user_repo P) (\<lambda>w. rows (w_pg w)) lower pg_text uuid healthy"
      by (rule db.user_store_axioms)
  next
    fix i uid s p n pr w sid role e w'
    note sk = keeps_sessions [OF session_ops_unchanged(1) session_ops_frame(1)]
      keeps_sessions [OF session_ops_unchanged(2) session_ops_frame(2)]
      keeps_sessions [OF session_ops_unchanged(3) session_ops_frame(3)]
      keeps_sessions [OF session_ops_unchanged(4) session_ops_frame(4)]
      keeps_sessions [OF session_ops_unchanged(5) session_ops_frame(5)]
    note tk = keeps_throttle [OF throttle_ops_unchanged(1) [OF _ valid] throttle_ops_frame(1)]
      keeps_throttle [OF throttle_ops_unchanged(2) [OF _ valid] throttle_ops_frame(2)]
      keeps_throttle [OF throttle_ops_unchanged(3) [OF _ valid] throttle_ops_frame(3)]
    let ?others = "\<lambda>w. (failures_at val (w_redis w), lock_at dl (w_redis w), throttle_ok val dl (w_redis w),
      rd_now R (w_redis w), profile_at val (w_redis w), cache_ok val (w_redis w), rows (w_pg w))"
    show "keeps (\<lambda>w. sessions_ok val (w_redis w)) ?others (session_get R i)" by (rule sk(1))
    show "keeps (\<lambda>w. sessions_ok val (w_redis w)) ?others (session_create R i s)" by (rule sk(2))
    show "keeps (\<lambda>w. sessions_ok val (w_redis w)) ?others (session_rotate R i uid p)" by (rule sk(3))
    show "keeps (\<lambda>w. sessions_ok val (w_redis w)) ?others (session_delete R i uid)" by (rule sk(4))
    show "keeps (\<lambda>w. sessions_ok val (w_redis w)) ?others (session_deleteAllForUser R uid)" by (rule sk(5))
    let ?rest = "\<lambda>w. (session_at val (w_redis w), index_at val (w_redis w), sessions_ok val (w_redis w),
      w_now w, profile_at val (w_redis w), cache_ok val (w_redis w), rows (w_pg w))"
    show "keeps (\<lambda>w. throttle_ok val dl (w_redis w)) ?rest (assertNotThrottled R n)" by (rule tk(1))
    show "keeps (\<lambda>w. throttle_ok val dl (w_redis w)) ?rest (recordFailure R th n)" by (rule tk(2))
    show "keeps (\<lambda>w. throttle_ok val dl (w_redis w)) ?rest (throttle_reset R n)" by (rule tk(3))
    show "keeps (\<lambda>w. cache_ok val (w_redis w)) (\<lambda>w. (session_at val (w_redis w), index_at val (w_redis w),
      sessions_ok val (w_redis w), w_now w, failures_at val (w_redis w), lock_at dl (w_redis w),
      throttle_ok val dl (w_redis w), rd_now R (w_redis w), rows (w_pg w)))
      (cache_setUserProfile R i pr DEFAULT_TTL_SECONDS)" by (rule keeps_cache)
    let ?redis = "\<lambda>w. (session_at val (w_redis w), index_at val (w_redis w), sessions_ok val (w_redis w),
      w_now w, failures_at val (w_redis w), lock_at dl (w_redis w), throttle_ok val dl (w_redis w),
      rd_now R (w_redis w), profile_at val (w_redis w), cache_ok val (w_redis w))"
    show "keeps (\<lambda>w. True) ?redis (user_findByUsername P n)"
      using lookup_frame(1) unfolding keeps_def by fastforce
    show "keeps (\<lambda>w. True) ?redis (user_findById P i)"
      using lookup_frame(2) unfolding keeps_def by fastforce
  next
    fix i sid role e and w w' :: "('r, 'p) world"
    show "\<not> is_AppError e" if "signAccessToken J env i sid role w = (Inl e, w')"
      using that by (rule signAccessToken_err)
  qed (auto simp: generateRefreshToken_def andthen_def hashRefreshValidator_def signAccessToken_apply
        split: sum.split)
qed

subsection \<open>The user service\<close>

text \<open>
  \<open>bcryptjs\<close>: \<open>bcrypt p rounds salt\<close> is the hash of a password under a random salt,
  and \<open>compare\<close> accepts a password against a hash of it.
\<close>

locale bcrypt_library =
  fixes bcrypt :: "string \<Rightarrow> int \<Rightarrow> string \<Rightarrow> string" and compare :: "string \<Rightarrow> string \<Rightarrow> bool"
  assumes compare_hash: "compare p (bcrypt p rounds salt)"

definition user_service ::
  "'r redis \<Rightarrow> 'p postgres \<Rightarrow> (string \<Rightarrow> int \<Rightarrow> string \<Rightarrow> string) \<Rightarrow> zod_lib \<Rightarrow> ('r, 'p) world user_deps" where
  "user_service R P bcrypt Z =
     \<lparr>ud_users = user_repo P, ud_cache = cache_repo R,
      ud_hash = (\<lambda>password rounds. andthen draw (\<lambda>salt. ret (bcrypt password rounds salt))),
      ud_randomUUID = draw, ud_zod = Z\<rparr>"

lemma user_service_simps [simp]:
  "ud_users (user_service R P bcrypt Z) = user_repo P"
  "ud_cache (user_service R P bcrypt Z) = cache_repo R"
  "ud_hash (user_service R P bcrypt Z) password rounds =
     andthen draw (\<lambda>salt. ret (bcrypt password rounds salt))"
  "ud_randomUUID (user_service R P bcrypt Z) = draw"
  "ud_zod (user_service R P bcrypt Z) = Z"
  by (simp_all add: user_service_def)

locale account_backend = redis_server R val dl + postgres P rows lower pg_text uuid + bcrypt_library bcrypt compare
  for R :: "'r redis" and val and dl and P :: "'p postgres" and rows and lower and pg_text and uuid
    and bcrypt and compare +
  fixes Z :: zod_lib

lemma cache_get_frame_pg:
  assumes "cache_getUserProfile R i w = (r, w')"
  shows "w_pg w' = w_pg w" and "healthy w \<Longrightarrow> healthy w'"
proof -
  let ?c = "\<lambda>st. (Inr (rd_get R st (profileKey i)), st)"
  obtain r0 where call: "redis_call ?c w = (r0, w')"
    using assms by (auto simp: cache_getUserProfile_def andthen_def
        split: prod.splits sum.splits option.splits if_splits)
  from redis_call_frame [OF call] show "w_pg w' = w_pg w" by simp
  from call show "healthy w \<Longrightarrow> healthy w'" by auto
qed

sublocale account_backend \<subseteq> members: user_backend "user_service R P bcrypt Z"
  "\<lambda>w. profile_at val (w_redis w)" "\<lambda>w. cache_ok val (w_redis w)" healthy
  "\<lambda>w. rows (w_pg w)" lower pg_text uuid compare
  unfolding user_backend_def user_backend_axioms_def user_service_simps cache_repo_simps user_repo_simps
proof (intro conjI allI impI)
  show "profile_cache (cache_repo R) (\<lambda>w. profile_at val (w_redis w)) (\<lambda>w. cache_ok val (w_redis w)) healthy"
    by (rule cache_store.profile_cache_axioms)
  show "user_store (user_repo P) (\<lambda>w. rows (w_pg w)) lower pg_text uuid healthy"
    by (rule db.user_store_axioms)
qed (auto simp: andthen_def compare_hash dest: cache_get_frame_pg cache_set_frame lookup_frame)

text \<open>The three parts of the Redis store are well formed.\<close>

definition stores_ok ::
  "('r \<Rightarrow> string \<Rightarrow> rval option) \<Rightarrow> ('r \<Rightarrow> string \<Rightarrow> int option) \<Rightarrow> ('r, 'p) world \<Rightarrow> bool" where
  "stores_ok val dl w \<longleftrightarrow>
     sessions_ok val (w_redis w) \<and> throttle_ok val dl (w_redis w) \<and> cache_ok val (w_redis w)"

lemma stores_okD:
  assumes "stores_ok val dl w"
  shows "sessions_ok val (w_redis w)" "throttle_ok val dl (w_redis w)" "cache_ok val (w_redis w)"
  using assms by (simp_all add: stores_ok_def)

text \<open>The behaviour of the wired services, ready to be applied to given servers.\<close>

context backend
begin

lemmas service_login = auth.login_Inr [unfolded auth_service_simps, OF stores_okD(1) stores_okD(2) stores_okD(3)]
lemmas service_login_rejected = auth.login_rejected [OF stores_okD(1) stores_okD(2)]
lemmas service_login_refused = auth.login_refused [unfolded auth_service_simps, OF stores_okD(1) stores_okD(2) stores_okD(3)]
lemmas service_login_accepted = auth.login_accepted [unfolded auth_service_simps, OF stores_okD(1) stores_okD(2) stores_okD(3)]
lemmas service_login_locked = auth.login_locked [unfolded auth_service_simps, OF stores_okD(1) stores_okD(2)]
lemmas service_refresh = auth.refresh_Inr [unfolded auth_service_simps]
lemmas service_refresh_decided = auth.refresh_decided [unfolded auth_service_simps]
lemmas service_refresh_deleted = auth.refresh_deleted_account
lemmas service_logout = auth.logout_Inr
lemmas service_logoutAll = auth.logoutAll_Inr

end

context account_backend
begin

lemmas service_register = members.createUser_Inr [unfolded user_service_simps]
lemmas service_register_conflict = members.createUser_conflict [unfolded user_service_simps members.clash_def]
lemmas service_profile_hit = members.getUserProfile_hit
lemmas service_profile = members.getUserProfile_database [unfolded user_service_simps cache_repo_simps]
lemmas service_list = members.listUsers_Inr [unfolded user_service_simps]

end

end
