(* ===== verification/Middleware.thy ===== *)
theory Middleware
  imports Backend
begin

section \<open>Middleware\<close>

text \<open>
  \<open>src/middleware/\<close>: authentication, role check, metrics guard, rate limiters. A request
  is what the handlers read of it; \<open>next()\<close> is the return of the request with what the
  middleware added to it (\<open>@types/express\<close>: \<open>userId\<close>, \<open>sessionId\<close>, \<open>userRole\<close>).
\<close>

record request =
  rq_authorization :: "string option"
  rq_body :: "json option"
  rq_query :: "json option"
  rq_ip :: "string option"
  rq_userId :: "string option"
  rq_sessionId :: "string option"
  rq_userRole :: "string option"

subsection \<open>Authentication and roles\<close>

text \<open>\<open>authHeader.split(' ')\<close>: the scheme and, if there is one, the token.\<close>

definition auth_header_parts :: "string \<Rightarrow> string \<times> string option" where
  "auth_header_parts authHeader = (case js_split (CHR '' '') authHeader of
     [] \<Rightarrow> ([], None) | [s] \<Rightarrow> (s, None) | s # t # _ \<Rightarrow> (s, Some t))"

definition authentication ::
  "(string \<Rightarrow> ('w, exn, access_token_payload) act) \<Rightarrow> (string \<Rightarrow> ('w, exn, session option) act) \<Rightarrow>
   request \<Rightarrow> ('w, exn, request) act" where
  "authentication verify get request =
     (if js_falsy (rq_authorization request) then raise (UnauthorizedError ''Token missing'')
      else
        let (scheme, token) = auth_header_parts (the (rq_authorization request)) in
        if scheme \<noteq> ''Bearer'' \<or> js_falsy token then raise (UnauthorizedError ''Invalid token'')
        else
        andthen (verify (the token)) (\<lambda>p.
        andthen (get (at_sessionId p)) (\<lambda>session.
        case session of
          None \<Rightarrow> raise (UnauthorizedError ''Session expired or revoked'')
        | Some s \<Rightarrow>
            if se_userId s \<noteq> at_subject p then raise (UnauthorizedError ''Session expired or revoked'')
            else ret (request\<lparr>rq_userId := Some (at_subject p), rq_sessionId := Some (at_sessionId p),
                             rq_userRole := Some (at_role p)\<rparr>))))"

definition requireRole :: "user_role \<Rightarrow> request \<Rightarrow> ('w, exn, request) act" where
  "requireRole role request =
     (if rq_userRole request \<noteq> Some (role_string role)
      then raise (ForbiddenError ''You do not have access to this resource.'')
      else ret request)"

lemma requireRole_Inr:
  "requireRole role request w = (Inr request', w') \<longleftrightarrow>
     rq_userRole request = Some (role_string role) \<and> request' = request \<and> w' = w"
  by (auto simp: requireRole_def)

text \<open>
  What passes authentication carried a token the verifier accepts, for a session that is
  alive and belongs to the token's subject.
\<close>

lemma authentication_Inr:
  assumes "authentication verify get rq w = (Inr rq', w')"
  shows "\<exists>tok p w1 s. js_split (CHR '' '') (the (rq_authorization rq)) \<noteq> [] \<and>
    auth_header_parts (the (rq_authorization rq)) = (''Bearer'', Some tok) \<and>
    verify tok w = (Inr p, w1) \<and> get (at_sessionId p) w1 = (Inr (Some s), w') \<and>
    se_userId s = at_subject p \<and>
    rq' = rq\<lparr>rq_userId := Some (at_subject p), rq_sessionId := Some (at_sessionId p),
             rq_userRole := Some (at_role p)\<rparr>"
proof -
  obtain tok where tok: "auth_header_parts (the (rq_authorization rq)) = (''Bearer'', Some tok)"
    using assms
    by (cases "auth_header_parts (the (rq_authorization rq))"; cases "snd (auth_header_parts (the (rq_authorization rq)))")
      (auto simp: authentication_def split: if_splits)
  then have "js_split (CHR '' '') (the (rq_authorization rq)) \<noteq> []"
    by (auto simp: auth_header_parts_def)
  with tok assms show ?thesis
    by (fastforce simp: authentication_def andthen_eq_Inr_iff split: if_splits option.splits)
qed

text \<open>
  Over the token service and the session repository: the token was signed with the service's
  secret for that user, session and role, and the session is alive.
\<close>

definition signed_for ::
  "jwt_lib \<Rightarrow> string option \<Rightarrow> int \<Rightarrow> string \<Rightarrow> string \<Rightarrow> string \<Rightarrow> string \<Rightarrow> bool" where
  "signed_for J env now token u i r \<longleftrightarrow> (\<exists>secret opts t0. getSecret env = Inr secret \<and>
     token = jwt_sign J i r secret opts t0 \<and> jo_subject opts = u \<and> jo_algorithm opts = JWT_ALGORITHM \<and>
     jo_issuer opts = JWT_ISSUER \<and> jo_audience opts = JWT_AUDIENCE \<and>
     (jo_expiresIn opts = ACCESS_TOKEN_EXPIRES_IN \<longrightarrow> now div 1000 < t0 div 1000 + 15 * 60))"

lemma authenticated_session:
  assumes "redis_server R val dl" and "jwt_library J" and "sessions_ok val (w_redis w)"
    and "authentication (verifyAccessToken J env) (session_get R) rq w = (Inr rq', w')"
  shows "\<exists>token u i r s. auth_header_parts (the (rq_authorization rq)) = (''Bearer'', Some token) \<and>
    signed_for J env (w_now w) token u i r \<and> session_at val (w_redis w) i = Some s \<and> se_userId s = u \<and>
    rq' = rq\<lparr>rq_userId := Some u, rq_sessionId := Some i, rq_userRole := Some r\<rparr>"
proof -
  from authentication_Inr [OF assms(4)] obtain token p w1 s where
    hdr: "auth_header_parts (the (rq_authorization rq)) = (''Bearer'', Some token)"
    and ver: "verifyAccessToken J env token w = (Inr p, w1)"
    and got: "session_get R (at_sessionId p) w1 = (Inr (Some s), w')" and owner: "se_userId s = at_subject p"
    and rq': "rq' = rq\<lparr>rq_userId := Some (at_subject p), rq_sessionId := Some (at_sessionId p),
      rq_userRole := Some (at_role p)\<rparr>"
    by (elim exE conjE)
  have w1: "w1 = w"
    using ver by (simp add: verifyAccessToken_apply split: sum.splits)
  have live: "session_at val (w_redis w) (at_sessionId p) = Some s"
    using redis_server.session_get_laws(5) [OF assms(1,3) got [unfolded w1] refl] by simp
  have "signed_for J env (w_now w) token (at_subject p) (at_sessionId p) (at_role p)"
    using jwt_library.accepted_was_signed [OF assms(2) ver] by (simp add: signed_for_def)
  with live hdr owner rq' show ?thesis
    by blast
qed

text \<open>A rejection is a 401, or an error of the session store.\<close>

lemma authentication_Inl:
  assumes "authentication verify get rq w = (Inl e, w')"
    and "\<And>t w e w'. verify t w = (Inl e, w') \<Longrightarrow> statusCode e = Some 401"
    and "\<And>i w e w'. get i w = (Inl e, w') \<Longrightarrow> \<not> is_AppError e"
  shows "statusCode e = Some 401 \<or> \<not> is_AppError e"
proof -
  have "errs (\<lambda>e. statusCode e = Some 401 \<or> \<not> is_AppError e) (verify t)" for t
    by (rule errsI) (use assms(2) in blast)
  moreover have "errs (\<lambda>e. statusCode e = Some 401 \<or> \<not> is_AppError e) (get i)" for i
    by (rule errsI) (use assms(3) in blast)
  ultimately have "errs (\<lambda>e. statusCode e = Some 401 \<or> \<not> is_AppError e) (authentication verify get rq)"
    unfolding authentication_def Let_def case_prod_unfold by (intro errs_intros) simp_all
  with assms(1) show ?thesis by (rule errsD [rotated])
qed

subsection \<open>The metrics guard\<close>

text \<open>
  \<open>createMetricsGuard\<close>: \<open>None\<close> is \<open>next()\<close>. The digests of the presented and the
  expected header are compared; \<open>timingSafeEqual\<close> is equality.
\<close>

definition metricsGuard ::
  "(string \<Rightarrow> string) \<Rightarrow> string option \<Rightarrow> string option \<Rightarrow> request \<Rightarrow> response option" where
  "metricsGuard sha token nodeEnv request =
     (if js_falsy token then
        (if nodeEnv = Some ''production'' then Some (json_response 404 (error_body ''Not found.'')) else None)
      else
        let presented = (case rq_authorization request of None \<Rightarrow> [] | Some h \<Rightarrow> h) in
        if sha presented \<noteq> sha (''Bearer '' @ the token)
        then Some (json_response 401 (error_body ''Invalid metrics token.'')) else None)"

lemma metricsGuard_open:
  "metricsGuard sha token env rq = None \<longleftrightarrow>
     (if js_falsy token then env \<noteq> Some ''production''
      else sha (case rq_authorization rq of None \<Rightarrow> [] | Some h \<Rightarrow> h) = sha (''Bearer '' @ the token))"
  by (simp add: metricsGuard_def Let_def)

subsection \<open>Rate limiters\<close>

text \<open>
  \<open>express-rate-limit\<close> with its Redis store is a parameter \<open>hit\<close>: \<open>hit key windowMs max\<close>
  counts one request and answers whether it is within the limit. What the program decides
  is the configuration, the key and the answer to a refused request.
\<close>

definition DEFAULT_WINDOW_MS :: int where
  "DEFAULT_WINDOW_MS = 15 * 60 * 1000"

definition DEFAULT_MAX_ATTEMPTS :: int where
  "DEFAULT_MAX_ATTEMPTS = 10"

definition MAX_SESSION_ID_LENGTH :: int where
  "MAX_SESSION_ID_LENGTH = 64"

record limiter_overrides =
  lo_windowMs :: "int option"
  lo_max :: "int option"
  lo_keyGenerator :: "(request \<Rightarrow> string) option"
  lo_message :: "string option"

record limiter =
  li_prefix :: string
  li_windowMs :: int
  li_max :: int
  li_key :: "request \<Rightarrow> string"
  li_message :: string

text \<open>\<open>ipKey\<close> is \<open>ipKeyGenerator\<close>, the key of an address; it is the default key too.\<close>

definition ip_of :: "request \<Rightarrow> string" where
  "ip_of request = (case rq_ip request of None \<Rightarrow> [] | Some a \<Rightarrow> a)"

definition createRedisRateLimiter ::
  "(string \<Rightarrow> string) \<Rightarrow> limiter_overrides \<Rightarrow> string \<Rightarrow> limiter" where
  "createRedisRateLimiter ipKey overrides storePrefix =
     \<lparr>li_prefix = storePrefix,
      li_windowMs = js_default (lo_windowMs overrides) DEFAULT_WINDOW_MS,
      li_max = js_default (lo_max overrides) DEFAULT_MAX_ATTEMPTS,
      li_key = js_default (lo_keyGenerator overrides) (\<lambda>request. ipKey (ip_of request)),
      li_message = js_default (lo_message overrides) ''Too many requests. Please try again later.''\<rparr>"

text \<open>\<open>request.body?.refreshToken\<close>.\<close>

definition optional_refreshToken :: "request \<Rightarrow> json option" where
  "optional_refreshToken request = (case rq_body request of
     Some (JObj ob) \<Rightarrow> js_field ob ''refreshToken'' | _ \<Rightarrow> None)"

definition refreshTokenSessionKey :: "(string \<Rightarrow> string) \<Rightarrow> request \<Rightarrow> string" where
  "refreshTokenSessionKey ipKey request =
     (case optional_refreshToken request of
        Some (JStr token) \<Rightarrow>
          let separatorIndex = js_indexOf (CHR ''.'') token in
          if 0 < separatorIndex \<and> separatorIndex \<le> MAX_SESSION_ID_LENGTH
          then ''session:'' @ js_slice token 0 separatorIndex
          else ''ip:'' @ ipKey (ip_of request)
      | _ \<Rightarrow> ''ip:'' @ ipKey (ip_of request))"

text \<open>A limiter in front of the rest of a chain.\<close>

definition rate_limited ::
  "(string \<Rightarrow> int \<Rightarrow> int \<Rightarrow> ('w, exn, bool) act) \<Rightarrow> limiter \<Rightarrow> (request \<Rightarrow> ('w, exn, response) act) \<Rightarrow>
   request \<Rightarrow> ('w, exn, response) act" where
  "rate_limited hit l rest request =
     andthen (hit (li_prefix l @ li_key l request) (li_windowMs l) (li_max l)) (\<lambda>within.
       if within then rest request else ret (json_response 429 (error_body (li_message l))))"

text \<open>
  The refresh limiter counts per session: the token of a session the service issued has
  the key of that session, whatever its validator, and the key is never longer than the
  bound plus the prefix.
\<close>

lemma refresh_key_session:
  assumes "rq_body rq = Some (JObj ob)" "js_field ob ''refreshToken'' = Some (JStr (refresh_token i v))"
    and "CHR ''.'' \<notin> set i" "i \<noteq> []" "int (length i) \<le> MAX_SESSION_ID_LENGTH"
  shows "refreshTokenSessionKey ipKey rq = ''session:'' @ i"
proof -
  have "js_indexOf (CHR ''.'') (refresh_token i v) = int (length i)"
    unfolding refresh_token_def using js_indexOf_append [OF assms(3)] by simp
  moreover have "js_slice (refresh_token i v) 0 (int (length i)) = i"
    by (simp add: js_slice_def refresh_token_def)
  ultimately show ?thesis
    using assms by (simp add: refreshTokenSessionKey_def optional_refreshToken_def Let_def)
qed

lemma refresh_key_shape:
  "refreshTokenSessionKey ipKey rq = ''ip:'' @ ipKey (ip_of rq) \<or>
     (\<exists>i. refreshTokenSessionKey ipKey rq = ''session:'' @ i \<and> i \<noteq> [] \<and> CHR ''.'' \<notin> set i \<and>
        int (length i) \<le> MAX_SESSION_ID_LENGTH)"
proof (cases "optional_refreshToken rq")
  case None
  then show ?thesis by (simp add: refreshTokenSessionKey_def)
next
  case (Some j)
  show ?thesis
  proof (cases j)
    case (JStr t)
    show ?thesis
    proof (cases "0 < js_indexOf (CHR ''.'') t \<and> js_indexOf (CHR ''.'') t \<le> MAX_SESSION_ID_LENGTH")
      case True
      then obtain a b where "t = a @ CHR ''.'' # b" "CHR ''.'' \<notin> set a" "js_indexOf (CHR ''.'') t = int (length a)"
        using js_indexOf_decomp [of "CHR ''.''" t] by auto
      with True Some JStr show ?thesis
        by (auto simp: refreshTokenSessionKey_def Let_def js_slice_def)
    qed (use Some JStr in \<open>auto simp: refreshTokenSessionKey_def Let_def\<close>)
  qed (use Some in \<open>simp_all add: refreshTokenSessionKey_def\<close>)
qed

subsection \<open>Properties\<close>

text \<open>
  C33. The metrics endpoint fails closed: in production a request passes exactly if a token is
  configured and the digest of its \<open>Authorization\<close> header (the empty text if there is none)
  is that of \<open>Bearer <token>\<close>; without a configured token everybody gets a 404, as if the
  endpoint did not exist, and with one a wrong header gets a 401.
\<close>

theorem metrics_fail_closed:
  "(case metricsGuard sha token (Some ''production'') request of
      None \<Rightarrow> \<exists>t. token = Some t \<and> t \<noteq> [] \<and>
        sha (js_default (rq_authorization request) []) = sha (''Bearer '' @ t)
    | Some refused \<Rightarrow> if token = None \<or> token = Some [] then status refused = 404
        else status refused = 401 \<and>
          sha (js_default (rq_authorization request) []) \<noteq> sha (''Bearer '' @ the token))"
  by (cases token; cases "rq_authorization request")
    (auto simp: metricsGuard_def Let_def js_default_def json_response_def split: if_splits)

text \<open>
  The refresh limiter counts per session and its keys are bounded: every token of one session,
  with whatever validator a client puts behind the dot, falls under one key, keys of
  different sessions differ, and no key is longer than the prefix and 64 characters unless
  it is the client address's.
\<close>

theorem refresh_limited_per_session:
  assumes "rq_body rq1 = Some (JObj ob1)" "js_field ob1 ''refreshToken'' = Some (JStr (refresh_token i v1))"
    and "rq_body rq2 = Some (JObj ob2)" "js_field ob2 ''refreshToken'' = Some (JStr (refresh_token j v2))"
    and "CHR ''.'' \<notin> set i" "i \<noteq> []" "length i \<le> 64" and "CHR ''.'' \<notin> set j" "j \<noteq> []" "length j \<le> 64"
  shows "(refreshTokenSessionKey ipKey rq1 = refreshTokenSessionKey ipKey rq2 \<longleftrightarrow> i = j) \<and>
    (length (refreshTokenSessionKey ipKey rq) \<le> 72 \<or>
      refreshTokenSessionKey ipKey rq = ''ip:'' @ ipKey (ip_of rq))"
proof
  have "refreshTokenSessionKey ipKey rq1 = ''session:'' @ i" "refreshTokenSessionKey ipKey rq2 = ''session:'' @ j"
    using refresh_key_session [OF assms(1,2,5,6)] refresh_key_session [OF assms(3,4,8,9)] assms(7,10)
    by (simp_all add: MAX_SESSION_ID_LENGTH_def)
  then show "refreshTokenSessionKey ipKey rq1 = refreshTokenSessionKey ipKey rq2 \<longleftrightarrow> i = j"
    by simp
  show "length (refreshTokenSessionKey ipKey rq) \<le> 72 \<or>
      refreshTokenSessionKey ipKey rq = ''ip:'' @ ipKey (ip_of rq)"
    using refresh_key_shape [of ipKey rq] by (auto simp: MAX_SESSION_ID_LENGTH_def)
qed

lemma refresh_limited_per_session_witness:
  "refreshTokenSessionKey (\<lambda>a. a)
     \<lparr>rq_authorization = None, rq_body = Some (JObj [(''refreshToken'', JStr (refresh_token ''s1'' ''x''))]), rq_query = None,
      rq_ip = None, rq_userId = None, rq_sessionId = None, rq_userRole = None\<rparr> =
   refreshTokenSessionKey (\<lambda>a. a)
     \<lparr>rq_authorization = None, rq_body = Some (JObj [(''refreshToken'', JStr (refresh_token ''s1'' ''y''))]), rq_query = None,
      rq_ip = None, rq_userId = None, rq_sessionId = None, rq_userRole = None\<rparr>"
  using refresh_limited_per_session [of
     "\<lparr>rq_authorization = None, rq_body = Some (JObj [(''refreshToken'', JStr (refresh_token ''s1'' ''x''))]), rq_query = None,
      rq_ip = None, rq_userId = None, rq_sessionId = None, rq_userRole = None\<rparr>"
     "[(''refreshToken'', JStr (refresh_token ''s1'' ''x''))]" "''s1''" "''x''"
     "\<lparr>rq_authorization = None, rq_body = Some (JObj [(''refreshToken'', JStr (refresh_token ''s1'' ''y''))]), rq_query = None,
      rq_ip = None, rq_userId = None, rq_sessionId = None, rq_userRole = None\<rparr>"
     "[(''refreshToken'', JStr (refresh_token ''s1'' ''y''))]" "''s1''" "''y''" "\<lambda>a. a"]
  by (simp add: js_field_def)

end
