(* ===== verification/Controllers.thy ===== *)
theory Controllers
  imports Middleware
begin

section \<open>Controllers and routes\<close>

text \<open>
  \<open>src/controllers/\<close> and \<open>src/routes.ts\<close>. A handler maps a request to a response; an
  error it throws goes to \<open>errorHandler\<close> (Express and \<open>asyncHandler\<close>). \<open>v1_route\<close> is
  the router: the per-IP limiter in front of everything, then the route's own chain.
\<close>

subsection \<open>Controllers\<close>

definition CreateUserController_handle :: "'w user_deps \<Rightarrow> request \<Rightarrow> ('w, exn, response) act" where
  "CreateUserController_handle U request =
     andthen (service_createUser U (rq_body request)) (\<lambda>i.
       ret (json_response 201 (JObj [(''message'', JStr ''User created successfully''), (''userId'', JStr i)])))"

text \<open>\<open>request.userId\<close> is set by the authentication in front of the handler.\<close>

definition GetUserInfoController_handle :: "'w user_deps \<Rightarrow> request \<Rightarrow> ('w, exn, response) act" where
  "GetUserInfoController_handle U request =
     andthen (service_getUserProfile U (js_default (rq_userId request) ''undefined'')) (\<lambda>profile.
       ret (json_response 200 profile))"

definition list_json :: "list_result \<Rightarrow> json" where
  "list_json r = JObj [(''items'', JArr (map public_json (ls_items r))), (''total'', JNum (int (ls_total r))),
     (''limit'', JNum (ls_limit r)), (''offset'', JNum (ls_offset r))]"

definition ListUsersController_handle :: "'w user_deps \<Rightarrow> request \<Rightarrow> ('w, exn, response) act" where
  "ListUsersController_handle U request =
     andthen (service_listUsers U (rq_query request)) (\<lambda>result. ret (json_response 200 (list_json result)))"

definition LoginUserController_handle :: "'w auth_deps \<Rightarrow> request \<Rightarrow> ('w, exn, response) act" where
  "LoginUserController_handle A request =
     andthen (auth_login A (rq_body request)) (\<lambda>r.
       ret (json_response 200 (JObj
         [(''message'', JStr ''Login successful''), (''accessToken'', JStr (lr_accessToken r)),
          (''refreshToken'', JStr (lr_refreshToken r)), (''user'', public_json (lr_user r))])))"

definition LogoutAllController_handle :: "'w auth_deps \<Rightarrow> request \<Rightarrow> ('w, exn, response) act" where
  "LogoutAllController_handle A request =
     andthen (auth_logoutAll A (rq_userId request)) (\<lambda>revokedSessions.
       ret (json_response 200 (JObj [(''message'', JStr ''Logged out of all sessions''),
         (''revokedSessions'', JNum (int revokedSessions))])))"

definition LogoutController_handle :: "'w auth_deps \<Rightarrow> request \<Rightarrow> ('w, exn, response) act" where
  "LogoutController_handle A request =
     andthen (auth_logout A (rq_sessionId request) (rq_userId request)) (\<lambda>_.
       ret (json_response 200 (JObj [(''message'', JStr ''Logout successful'')])))"

text \<open>
  \<open>request.body.refreshToken\<close>: without a parsed body this throws; a body that is no
  object has no such property.
\<close>

definition body_refreshToken :: "request \<Rightarrow> exn + json option" where
  "body_refreshToken request = (case rq_body request of
     None \<Rightarrow> Inl (JsError ''TypeError'')
   | Some JNull \<Rightarrow> Inl (JsError ''TypeError'')
   | Some (JObj ob) \<Rightarrow> Inr (js_field ob ''refreshToken'')
   | Some _ \<Rightarrow> Inr None)"

definition RefreshTokenController_handle :: "'w auth_deps \<Rightarrow> request \<Rightarrow> ('w, exn, response) act" where
  "RefreshTokenController_handle A request =
     andthen (lift_sum (body_refreshToken request)) (\<lambda>token.
     andthen (auth_refresh A token) (\<lambda>r.
       ret (json_response 200 (JObj
         [(''message'', JStr ''Token refreshed successfully''), (''accessToken'', JStr (rr_accessToken r)),
          (''refreshToken'', JStr (rr_refreshToken r))]))))"

subsection \<open>The router\<close>

record rate_policy =
  windowMs :: int
  maxHits :: int

record rate_limit_config =
  rc_api :: rate_policy
  rc_login :: rate_policy
  rc_refresh :: rate_policy
  rc_meta :: rate_policy
  rc_loginThrottle :: throttle_overrides

definition DEFAULT_RATE_LIMITS :: rate_limit_config where
  "DEFAULT_RATE_LIMITS =
     \<lparr>rc_api = \<lparr>windowMs = 60 * 1000, maxHits = 100\<rparr>,
      rc_login = \<lparr>windowMs = 15 * 60 * 1000, maxHits = 20\<rparr>,
      rc_refresh = \<lparr>windowMs = 15 * 60 * 1000, maxHits = 10\<rparr>,
      rc_meta = \<lparr>windowMs = 60 * 1000, maxHits = 60\<rparr>,
      rc_loginThrottle = no_overrides\<rparr>"

definition policy_overrides :: "rate_policy \<Rightarrow> limiter_overrides" where
  "policy_overrides p = \<lparr>lo_windowMs = Some (windowMs p), lo_max = Some (maxHits p),
     lo_keyGenerator = None, lo_message = None\<rparr>"

text \<open>
  What \<open>createRouter\<close> builds: the services, the token verification and the session lookup
  of the authentication, the limiters' library and configuration.
\<close>

record 'w app =
  ap_auth :: "'w auth_deps"
  ap_user :: "'w user_deps"
  ap_verify :: "string \<Rightarrow> ('w, exn, access_token_payload) act"
  ap_get :: "string \<Rightarrow> ('w, exn, session option) act"
  ap_hit :: "string \<Rightarrow> int \<Rightarrow> int \<Rightarrow> ('w, exn, bool) act"
  ap_ipKey :: "string \<Rightarrow> string"
  ap_limits :: rate_limit_config

definition apiRateLimiter :: "'w app \<Rightarrow> limiter" where
  "apiRateLimiter A = createRedisRateLimiter (ap_ipKey A) (policy_overrides (rc_api (ap_limits A))) ''rl:ip:api:''"

definition loginRateLimiter :: "'w app \<Rightarrow> limiter" where
  "loginRateLimiter A = createRedisRateLimiter (ap_ipKey A)
     ((policy_overrides (rc_login (ap_limits A)))
        \<lparr>lo_message := Some ''Too many login attempts. Please try again later.''\<rparr>) ''rl:ip:login:''"

definition refreshRateLimiter :: "'w app \<Rightarrow> limiter" where
  "refreshRateLimiter A = createRedisRateLimiter (ap_ipKey A)
     ((policy_overrides (rc_refresh (ap_limits A)))
        \<lparr>lo_keyGenerator := Some (refreshTokenSessionKey (ap_ipKey A)),
         lo_message := Some ''Too many refresh attempts. Please try again later.''\<rparr>) ''rl:refresh:''"

definition authenticated ::
  "'w app \<Rightarrow> (request \<Rightarrow> ('w, exn, response) act) \<Rightarrow> request \<Rightarrow> ('w, exn, response) act" where
  "authenticated A handler request = andthen (authentication (ap_verify A) (ap_get A) request) handler"

datatype verb = GET | POST

text \<open>The chain of each route; a request no route matches falls through (\<open>None\<close>).\<close>

definition v1_chain :: "'w app \<Rightarrow> verb \<Rightarrow> string \<Rightarrow> (request \<Rightarrow> ('w, exn, response) act) option" where
  "v1_chain A m path =
     (if (m, path) = (POST, ''/users'') then Some (CreateUserController_handle (ap_user A))
      else if (m, path) = (POST, ''/login'')
        then Some (rate_limited (ap_hit A) (loginRateLimiter A) (LoginUserController_handle (ap_auth A)))
      else if (m, path) = (POST, ''/auth/refresh'')
        then Some (rate_limited (ap_hit A) (refreshRateLimiter A) (RefreshTokenController_handle (ap_auth A)))
      else if (m, path) = (POST, ''/auth/logout'')
        then Some (authenticated A (LogoutController_handle (ap_auth A)))
      else if (m, path) = (POST, ''/auth/logout-all'')
        then Some (authenticated A (LogoutAllController_handle (ap_auth A)))
      else if (m, path) = (GET, ''/users/me'')
        then Some (authenticated A (GetUserInfoController_handle (ap_user A)))
      else if (m, path) = (GET, ''/admin/users'')
        then Some (authenticated A (\<lambda>request.
          andthen (requireRole Admin request) (ListUsersController_handle (ap_user A))))
      else None)"

definition NOT_FOUND :: response where
  "NOT_FOUND = json_response 404 JNull"

text \<open>
  The router with the error handler behind it. (Express itself answers a request that no
  route matched; only its status is modelled.)
\<close>

definition v1_route :: "'w app \<Rightarrow> verb \<Rightarrow> string \<Rightarrow> request \<Rightarrow> 'w \<Rightarrow> response \<times> 'w" where
  "v1_route A m path request =
     asyncHandler (rate_limited (ap_hit A) (apiRateLimiter A) (\<lambda>request.
       case v1_chain A m path of None \<Rightarrow> ret NOT_FOUND | Some chain \<Rightarrow> chain request) request)"

lemma v1_chain_simps [simp]:
  "v1_chain A POST ''/users'' = Some (CreateUserController_handle (ap_user A))"
  "v1_chain A POST ''/login'' =
     Some (rate_limited (ap_hit A) (loginRateLimiter A) (LoginUserController_handle (ap_auth A)))"
  "v1_chain A POST ''/auth/refresh'' =
     Some (rate_limited (ap_hit A) (refreshRateLimiter A) (RefreshTokenController_handle (ap_auth A)))"
  "v1_chain A POST ''/auth/logout'' = Some (authenticated A (LogoutController_handle (ap_auth A)))"
  "v1_chain A POST ''/auth/logout-all'' = Some (authenticated A (LogoutAllController_handle (ap_auth A)))"
  "v1_chain A GET ''/users/me'' = Some (authenticated A (GetUserInfoController_handle (ap_user A)))"
  "v1_chain A GET ''/admin/users'' = Some (authenticated A (\<lambda>request.
     andthen (requireRole Admin request) (ListUsersController_handle (ap_user A))))"
  by (simp_all add: v1_chain_def)

text \<open>The composition root on the two servers.\<close>

definition createRouter ::
  "'r redis \<Rightarrow> 'p postgres \<Rightarrow> jwt_lib \<Rightarrow> string option \<Rightarrow> (string \<Rightarrow> string) \<Rightarrow>
   (string \<Rightarrow> int \<Rightarrow> string \<Rightarrow> string) \<Rightarrow> (string \<Rightarrow> string \<Rightarrow> bool) \<Rightarrow> zod_lib \<Rightarrow>
   (string \<Rightarrow> int \<Rightarrow> int \<Rightarrow> (('r, 'p) world, exn, bool) act) \<Rightarrow> (string \<Rightarrow> string) \<Rightarrow>
   rate_limit_config \<Rightarrow> ('r, 'p) world app" where
  "createRouter R P J env sha bcrypt compare Z hit ipKey limits =
     \<lparr>ap_auth = auth_service R P (LoginThrottle_new (rc_loginThrottle limits)) J env sha compare Z,
      ap_user = user_service R P bcrypt Z,
      ap_verify = verifyAccessToken J env, ap_get = session_get R,
      ap_hit = hit, ap_ipKey = ipKey, ap_limits = limits\<rparr>"

lemma createRouter_simps [simp]:
  "ap_auth (createRouter R P J env sha bcrypt compare Z hit ipKey limits) =
     auth_service R P (LoginThrottle_new (rc_loginThrottle limits)) J env sha compare Z"
  "ap_user (createRouter R P J env sha bcrypt compare Z hit ipKey limits) = user_service R P bcrypt Z"
  "ap_verify (createRouter R P J env sha bcrypt compare Z hit ipKey limits) = verifyAccessToken J env"
  "ap_get (createRouter R P J env sha bcrypt compare Z hit ipKey limits) = session_get R"
  "ap_hit (createRouter R P J env sha bcrypt compare Z hit ipKey limits) = hit"
  "ap_ipKey (createRouter R P J env sha bcrypt compare Z hit ipKey limits) = ipKey"
  "ap_limits (createRouter R P J env sha bcrypt compare Z hit ipKey limits) = limits"
  by (simp_all add: createRouter_def)

subsection \<open>Lemmas\<close>

text \<open>A response of a route behind the authentication is one of its handler or an error.\<close>

lemma authenticated_Inr:
  assumes "authenticated A h rq w = (Inr resp, w')"
  shows "\<exists>rq' w1. authentication (ap_verify A) (ap_get A) rq w = (Inr rq', w1) \<and> h rq' w1 = (Inr resp, w')"
  using assms by (simp add: authenticated_def andthen_eq_Inr_iff)

text \<open>Every request gets a response whose status a client can rely on.\<close>

lemma asyncHandler_status:
  assumes "\<And>r w'. h w = (Inr r, w') \<Longrightarrow> status r \<in> S"
  shows "status (fst (asyncHandler h w)) \<in> S \<union> {400, 401, 403, 404, 409, 429, 500}"
proof (cases "h w")
  case (Pair r w')
  show ?thesis
  proof (cases r)
    case (Inl e)
    then show ?thesis
      by (cases e) (auto simp: asyncHandler_def Pair errorHandler_def Let_def)
  next
    case (Inr x)
    then show ?thesis
      using assms Pair by (simp add: asyncHandler_def)
  qed
qed

end
