(* ===== verification/Server.thy ===== *)
theory Server
  imports Controllers
begin

section \<open>The server\<close>

text \<open>
  \<open>src/server.ts\<close>, \<open>src/trustProxy.ts\<close> and the decisions of \<open>src/logger.ts\<close>: the
  application's routes, the readiness probe and its time-outs, the shutdown, the
  \<open>TRUST_PROXY\<close> setting, the request identifier and the log level of a response.
\<close>

definition SHUTDOWN_TIMEOUT_MS :: int where
  "SHUTDOWN_TIMEOUT_MS = 10000"

definition READY_CHECK_TIMEOUT_MS :: int where
  "READY_CHECK_TIMEOUT_MS = 2000"

subsection \<open>Promises and time\<close>

text \<open>When, in milliseconds from its start, a promise settles, and how; or never.\<close>

datatype 'a eventual = Resolves int 'a | Rejects int string | Pending

fun fulfilled :: "'a eventual \<Rightarrow> bool" where
  "fulfilled (Resolves t a) = True"
| "fulfilled _ = False"

fun settled_at :: "'a eventual \<Rightarrow> int option" where
  "settled_at (Resolves t a) = Some t"
| "settled_at (Rejects t e) = Some t"
| "settled_at Pending = None"

text \<open>\<open>withTimeout\<close>: the race against the timer (a promise that settles on time wins).\<close>

definition withTimeout :: "'a eventual \<Rightarrow> int \<Rightarrow> 'a eventual" where
  "withTimeout promise ms =
     (let timeout = Rejects ms (''Timed out after '' @ js_digits (nat ms) @ ''ms'') in
      case settled_at promise of None \<Rightarrow> timeout | Some t \<Rightarrow> if t \<le> ms then promise else timeout)"

lemma withTimeout_settles:
  assumes "0 \<le> ms"
  shows "\<exists>t. settled_at (withTimeout p ms) = Some t \<and> t \<le> ms"
  using assms by (cases p) (auto simp: withTimeout_def Let_def)

lemma withTimeout_fulfilled:
  "fulfilled (withTimeout p ms) \<longleftrightarrow> (\<exists>t a. p = Resolves t a \<and> t \<le> ms)"
  by (cases p) (auto simp: withTimeout_def Let_def)

text \<open>\<open>Promise.allSettled\<close> of two promises settles when the later one does.\<close>

definition both_settled_at :: "'a eventual \<Rightarrow> 'b eventual \<Rightarrow> int option" where
  "both_settled_at p q = (case (settled_at p, settled_at q) of
     (Some s, Some t) \<Rightarrow> Some (max s t) | _ \<Rightarrow> None)"

subsection \<open>Readiness\<close>

definition ready_response :: "'a eventual \<Rightarrow> 'b eventual \<Rightarrow> response" where
  "ready_response pg rd =
     (let postgresOk = fulfilled pg; redisOk = fulfilled rd in
      json_response (if postgresOk \<and> redisOk then 200 else 503)
        (JObj [(''postgres'', JStr (if postgresOk then ''ok'' else ''error'')),
               (''redis'', JStr (if redisOk then ''ok'' else ''error''))]))"

text \<open>The handler: the response and when it is sent.\<close>

definition ready_handler :: "'a eventual \<Rightarrow> 'b eventual \<Rightarrow> response \<times> int option" where
  "ready_handler query ping =
     (let pg = withTimeout query READY_CHECK_TIMEOUT_MS;
          rd = withTimeout ping READY_CHECK_TIMEOUT_MS
      in (ready_response pg rd, both_settled_at pg rd))"

text \<open>A dependency that hangs cannot make the probe hang: it answers within the time-out.\<close>

lemma ready_answers_in_time:
  "\<exists>t. snd (ready_handler query ping) = Some t \<and> t \<le> READY_CHECK_TIMEOUT_MS"
proof -
  have "0 \<le> READY_CHECK_TIMEOUT_MS" by (simp add: READY_CHECK_TIMEOUT_MS_def)
  from withTimeout_settles [OF this, of query] withTimeout_settles [OF this, of ping] show ?thesis
    by (auto simp: ready_handler_def both_settled_at_def)
qed

subsection \<open>Shutdown\<close>

text \<open>
  From the signal on: the HTTP server closes (or not, with or without an error), then the
  pool and the client are closed together, and the process exits with a code; the timer
  exits with 1 when this takes too long. The outcome is the code and the time of the exit.
\<close>

definition shutdown :: "string option eventual \<Rightarrow> 'a eventual \<Rightarrow> 'b eventual \<Rightarrow> int \<times> int" where
  "shutdown close pool_end redis_quit =
     (let forced = (1, SHUTDOWN_TIMEOUT_MS) in
      case close of
        Resolves t closeError \<Rightarrow>
          (case both_settled_at pool_end redis_quit of
             None \<Rightarrow> forced
           | Some d \<Rightarrow>
               let hadError = (closeError \<noteq> None \<or> \<not> fulfilled pool_end \<or> \<not> fulfilled redis_quit) in
               if t + d < SHUTDOWN_TIMEOUT_MS then (if hadError then 1 else 0, t + d) else forced)
      | _ \<Rightarrow> forced)"

lemma shutdown_exits: "snd (shutdown c p q) \<le> SHUTDOWN_TIMEOUT_MS"
  by (auto simp: shutdown_def Let_def split: eventual.split option.split)

lemma shutdown_clean:
  "fst (shutdown c p q) = 0 \<longleftrightarrow>
     (\<exists>t s1 a s2 b. c = Resolves t None \<and> p = Resolves s1 a \<and> q = Resolves s2 b \<and>
        t + max s1 s2 < SHUTDOWN_TIMEOUT_MS)"
  by (cases c; cases p; cases q)
    (auto simp: shutdown_def Let_def both_settled_at_def split: eventual.split option.split)

subsection \<open>\<open>TRUST_PROXY\<close>\<close>

datatype trust_proxy = TrustNone | TrustHops int | TrustSubnets string

definition js_digit :: "char \<Rightarrow> bool" where
  "js_digit c \<longleftrightarrow> 48 \<le> (of_char c :: nat) \<and> (of_char c :: nat) \<le> 57"

definition js_number :: "string \<Rightarrow> int" where
  "js_number s = foldl (\<lambda>n c. n * 10 + (int (of_char c) - 48)) 0 s"

definition parseTrustProxy :: "string option \<Rightarrow> exn + trust_proxy" where
  "parseTrustProxy v =
     (let normalized = (case v of None \<Rightarrow> [] | Some s \<Rightarrow> js_trim s) in
      if normalized = [] \<or> normalized = ''false'' then Inr TrustNone
      else if normalized = ''true'' then
        Inl (JsError (''TRUST_PROXY=true would trust a client-supplied X-Forwarded-For; '' @
          ''set the number of proxy hops (e.g. 1) or the proxy subnets instead''))
      else if list_all js_digit normalized then Inr (TrustHops (js_number normalized))
      else Inr (TrustSubnets normalized))"

subsection \<open>Logging decisions\<close>

text \<open>\<open>CLIENT_REQUEST_ID\<close>: \<open>^[A-Za-z0-9._-]{1,128}$\<close>.\<close>

definition request_id_char :: "char \<Rightarrow> bool" where
  "request_id_char c \<longleftrightarrow>
     (let n = of_char c :: nat in
      (65 \<le> n \<and> n \<le> 90) \<or> (97 \<le> n \<and> n \<le> 122) \<or> (48 \<le> n \<and> n \<le> 57) \<or> n = 46 \<or> n = 95 \<or> n = 45)"

definition CLIENT_REQUEST_ID :: "string \<Rightarrow> bool" where
  "CLIENT_REQUEST_ID s \<longleftrightarrow> 1 \<le> length s \<and> length s \<le> 128 \<and> list_all request_id_char s"

definition genReqId :: "string option \<Rightarrow> string \<Rightarrow> string" where
  "genReqId existing fresh = (case existing of
     Some s \<Rightarrow> if CLIENT_REQUEST_ID s then s else fresh | None \<Rightarrow> fresh)"

datatype log_level = Info | Warn | Error

definition customLogLevel :: "int \<Rightarrow> bool \<Rightarrow> log_level" where
  "customLogLevel st failed =
     (if failed \<or> 500 \<le> st then Error else if 400 \<le> st then Warn else Info)"

text \<open>A reused identifier cannot forge a log line: it has no line break, quote or space.\<close>

lemma genReqId_safe:
  assumes "CHR 0x0A \<in> set s \<or> CHR 0x0D \<in> set s \<or> CHR '' '' \<in> set s \<or> CHR 0x22 \<in> set s \<or> 128 < length s \<or> s = []"
  shows "genReqId (Some s) fresh = fresh"
proof -
  have "\<not> request_id_char (CHR 0x0A)" "\<not> request_id_char (CHR 0x0D)" "\<not> request_id_char (CHR '' '')"
    "\<not> request_id_char (CHR 0x22)"
    by (simp_all add: request_id_char_def)
  with assms have "\<not> CLIENT_REQUEST_ID s"
    by (auto simp: CLIENT_REQUEST_ID_def list_all_iff)
  then show ?thesis by (simp add: genReqId_def)
qed

subsection \<open>The application\<close>

record 'w server =
  sv_app :: "'w app"
  sv_metricsToken :: "string option"
  sv_nodeEnv :: "string option"
  sv_sha :: "string \<Rightarrow> string"
  sv_metrics :: "'w \<Rightarrow> json"
  sv_query :: "'w \<Rightarrow> unit eventual"
  sv_ping :: "'w \<Rightarrow> unit eventual"
  sv_docs :: "string \<Rightarrow> request \<Rightarrow> ('w, exn, response) act"

definition metaRateLimiter :: "'w app \<Rightarrow> limiter" where
  "metaRateLimiter A = createRedisRateLimiter (ap_ipKey A) (policy_overrides (rc_meta (ap_limits A))) ''rl:ip:meta:''"

text \<open>
  \<open>createApp\<close>: a body that \<open>express.json\<close> cannot parse (\<open>Inl\<close>) goes straight to the error
  handler; the meta endpoints are unversioned, \<open>/docs\<close> is \<open>swagger-ui-express\<close>, a parameter,
  and everything under \<open>/v1\<close> is the router's. Paths are as Express matches them: in lower
  case and without a slash at the end.
\<close>

definition meta_chain :: "'w server \<Rightarrow> string \<Rightarrow> (request \<Rightarrow> ('w, exn, response) act) option" where
  "meta_chain S path =
     (if path = ''/'' then Some (\<lambda>request. ret (json_response 200 (JObj [(''message'', JStr ''Server is running!'')])))
      else if path = ''/health'' then Some (\<lambda>request. ret (json_response 200 (JObj [(''status'', JStr ''ok'')])))
      else if path = ''/ready'' then
        Some (rate_limited (ap_hit (sv_app S)) (metaRateLimiter (sv_app S)) (\<lambda>request w.
          (Inr (fst (ready_handler (sv_query S w) (sv_ping S w))), w)))
      else if path = ''/metrics'' then
        Some (rate_limited (ap_hit (sv_app S)) (metaRateLimiter (sv_app S)) (\<lambda>request.
          case metricsGuard (sv_sha S) (sv_metricsToken S) (sv_nodeEnv S) request of
            Some refused \<Rightarrow> ret refused
          | None \<Rightarrow> (\<lambda>w. (Inr (json_response 200 (sv_metrics S w)), w))))
      else None)"

definition createApp ::
  "'w server \<Rightarrow> verb \<Rightarrow> string \<Rightarrow> (string + request) \<Rightarrow> 'w \<Rightarrow> response \<times> 'w" where
  "createApp S m path parsed = (case parsed of
     Inl e \<Rightarrow> (\<lambda>w. (errorHandler (JsError e), w))
   | Inr request \<Rightarrow>
       if path = ''/docs'' \<or> take 6 path = ''/docs/'' then asyncHandler (sv_docs S (drop 5 path) request)
       else if path = ''/v1'' \<or> take 4 path = ''/v1/'' then v1_route (sv_app S) m (drop 3 path) request
       else if m = GET then
         (case meta_chain S path of
            Some chain \<Rightarrow> asyncHandler (chain request) | None \<Rightarrow> (\<lambda>w. (NOT_FOUND, w)))
       else (\<lambda>w. (NOT_FOUND, w)))"

subsection \<open>Properties\<close>

text \<open>
  C35. Readiness: the probe always answers within two seconds, even when a dependency never
  does, and it answers 200 exactly if both dependencies answered in that time; otherwise 503.
\<close>

theorem readiness_in_time:
  "(\<exists>t. snd (ready_handler query ping) = Some t \<and> t \<le> 2000) \<and>
   status (fst (ready_handler query ping)) =
     (if (\<exists>t a. query = Resolves t a \<and> t \<le> 2000) \<and> (\<exists>t a. ping = Resolves t a \<and> t \<le> 2000) then 200 else 503)"
  using ready_answers_in_time [of query ping]
  by (simp add: ready_handler_def ready_response_def Let_def withTimeout_fulfilled json_response_def
      READY_CHECK_TIMEOUT_MS_def)

text \<open>
  Shutdown always ends: the process exits at the latest 10 seconds after the signal, and it
  exits with 0 exactly if the server closed without an error and both connections closed
  cleanly before that; every other course of events exits with 1.
\<close>

theorem shutdown_always_exits:
  "snd (shutdown c p q) \<le> 10000 \<and> fst (shutdown c p q) =
     (if \<exists>t s1 a s2 b. c = Resolves t None \<and> p = Resolves s1 a \<and> q = Resolves s2 b \<and> t + max s1 s2 < 10000
      then 0 else 1)"
proof -
  have "fst (shutdown c p q) \<in> {0, 1}"
    by (auto simp: shutdown_def Let_def split: eventual.split option.split)
  with shutdown_exits [of c p q] shutdown_clean [of c p q] show ?thesis
    by (auto simp: SHUTDOWN_TIMEOUT_MS_def)
qed

lemma js_number_snoc: "js_number (s @ [c]) = js_number s * 10 + (int (of_char c) - 48)"
  by (simp add: js_number_def)

lemma digit_char: "n < 10 \<Longrightarrow> of_char (char_of (48 + n) :: char) = (48 + n :: nat)"
  by simp

lemma js_digits_read: "list_all js_digit (js_digits n) \<and> js_number (js_digits n) = int n \<and> js_digits n \<noteq> []"
proof (induction n rule: js_digits.induct)
  case (1 n)
  show ?case
  proof (cases "n < 10")
    case True
    then show ?thesis
      by (simp add: js_digits.simps [of n] js_digit_def js_number_def)
  next
    case False
    have "int (n div 10) * 10 + int (n mod 10) = int n"
      by presburger
    with 1 [OF False] False show ?thesis
      by (simp add: js_digits.simps [of n] js_number_snoc js_digit_def)
  qed
qed

lemma js_digit_no_space: "js_digit c \<Longrightarrow> \<not> js_space c"
  by (auto simp: js_digit_def js_space_def)

lemma js_trim_digits:
  assumes "list_all js_digit s"
  shows "js_trim s = s"
proof -
  have keep: "dropWhile js_space xs = xs" if "\<forall>c \<in> set xs. \<not> js_space c" for xs
    using that by (cases xs) simp_all
  have "\<forall>c \<in> set s. \<not> js_space c"
    using assms js_digit_no_space by (auto simp: list_all_iff)
  then show ?thesis
    by (simp add: js_trim_def keep)
qed

lemma parse_hops: "parseTrustProxy (Some (js_digits n)) = Inr (TrustHops (int n))"
proof -
  have d: "list_all js_digit (js_digits n)" "js_number (js_digits n) = int n" "js_digits n \<noteq> []"
    using js_digits_read [of n] by simp_all
  have "\<not> list_all js_digit ''true''" "\<not> list_all js_digit ''false''"
    by (simp_all add: js_digit_def)
  then have "js_digits n \<noteq> ''true''" "js_digits n \<noteq> ''false''"
    using d(1) by metis+
  with d js_trim_digits [OF d(1)] show ?thesis
    by (simp add: parseTrustProxy_def Let_def)
qed

text \<open>
  \<open>TRUST_PROXY\<close>: the one setting that would trust any client's \<open>X-Forwarded-For\<close>,
  \<open>true\<close> with any space around it, stops the start, and no other value does; a hop count
  written in decimal is read back exactly; and without the variable no proxy is trusted.
\<close>

theorem trust_proxy_never_blanket:
  "(js_trim s = ''true'' \<longleftrightarrow> (\<exists>m. parseTrustProxy (Some s) = Inl (JsError m))) \<and>
   parseTrustProxy (Some (js_digits n)) = Inr (TrustHops (int n)) \<and>
   parseTrustProxy None = Inr TrustNone"
  using parse_hops [of n] by (simp add: parseTrustProxy_def Let_def)

text \<open>
  Request identifiers cannot forge a log line: the identifier of a request is the fresh UUID,
  or a text of the client of 1 to 128 characters, every one a letter, a digit, a dot, an
  underscore or a hyphen (so no line break, no quote and no space).
\<close>

theorem request_id_safe:
  "genReqId existing fresh = fresh \<or>
     (\<exists>s. existing = Some s \<and> genReqId existing fresh = s \<and> 1 \<le> length s \<and> length s \<le> 128 \<and>
        set s \<inter> {CHR 0x0A, CHR 0x0D, CHR '' '', CHR 0x22, CHR 0x7B} = {})"
proof (cases "\<exists>s. existing = Some s \<and> CLIENT_REQUEST_ID s")
  case True
  then obtain s where s: "existing = Some s" "CLIENT_REQUEST_ID s"
    by blast
  have "\<not> request_id_char (CHR 0x0A)" "\<not> request_id_char (CHR 0x0D)" "\<not> request_id_char (CHR '' '')"
    "\<not> request_id_char (CHR 0x22)" "\<not> request_id_char (CHR 0x7B)"
    by (simp_all add: request_id_char_def)
  with s(2) have "set s \<inter> {CHR 0x0A, CHR 0x0D, CHR '' '', CHR 0x22, CHR 0x7B} = {}"
    by (auto simp: CLIENT_REQUEST_ID_def list_all_iff)
  with s show ?thesis
    by (simp add: genReqId_def CLIENT_REQUEST_ID_def)
next
  case False
  then show ?thesis
    by (auto simp: genReqId_def split: option.split)
qed

end
