(* ===== verification/SessionSystem.thy ===== *)
theory SessionSystem
  imports Backend
begin

section \<open>Many requests at once: the life of the sessions\<close>

text \<open>
  Requests of many processes interleave; what is atomic is one call to Redis (a transaction
  or a script). \<open>sys_step\<close> is the transition relation of these calls and of time, on the
  server state with a history: who owns an id (\<open>y_owner\<close>, ids are never reused), which
  logins were acknowledged and not logged out (\<open>y_acked\<close>), which hashes each session ever
  held (\<open>y_used\<close>) and which of them were rotated away (\<open>y_spent\<close>). A queued command of a
  transaction may fail on its own (\<open>es\<close>). A process reads its clock at most \<open>L\<close>
  milliseconds away from the server's time when its call arrives.

  The invariant \<open>sys_inv\<close> holds in every reachable state; it bounds the life of a
  session, keeps every acknowledged session in its owner's index, and keeps spent hashes
  from ever being current again.
\<close>

record 'r sys =
  y_store :: 'r
  y_owner :: "string \<Rightarrow> string option"
  y_acked :: "string set"
  y_used :: "string \<Rightarrow> string set"
  y_spent :: "string \<Rightarrow> string set"

definition clock_near :: "int \<Rightarrow> int \<Rightarrow> int \<Rightarrow> bool" where
  "clock_near L server now \<longleftrightarrow> server - L \<le> now \<and> now \<le> server + L"

inductive sys_step :: "'r redis \<Rightarrow> int \<Rightarrow> 'r sys \<Rightarrow> 'r sys \<Rightarrow> bool" for R and L where
  login: "\<lbrakk> y_owner y i = None; clock_near L (rd_now R (y_store y)) now;
     clock_near L (rd_now R (y_store y)) now'; now \<le> now'; now' < now + SESSION_ABSOLUTE_TTL_SECONDS * 1000;
     run_queue (create_queue R i (new_session u h now)
       (session_ttl (se_absoluteExpiresAt (new_session u h now)) now')) es (y_store y) = (rs, st');
     acked \<longrightarrow> first_error rs = None \<rbrakk> \<Longrightarrow>
     sys_step R L y (y\<lparr>y_store := st', y_owner := (y_owner y)(i \<mapsto> ur_id u),
       y_acked := (if acked then insert i (y_acked y) else y_acked y),
       y_used := (y_used y)(i := {h}), y_spent := (y_spent y)(i := {})\<rparr>)"
| refresh: "\<lbrakk> y_owner y i = Some uid; clock_near L (rd_now R (y_store y)) (rp_now (p :: rotate_params)); rp_newHash p \<notin> y_used y i;
     rotate_script R (sessionKey i) (userSessionsKey uid) (rp_presentedHash p) (rp_newHash p)
       (rp_role p) (rp_now p) REFRESH_GRACE_PERIOD_MS SESSION_IDLE_TTL_SECONDS i (y_store y) = (Inr out, st') \<rbrakk> \<Longrightarrow>
     sys_step R L y (y\<lparr>y_store := st',
       y_used := (y_used y)(i := insert (rp_newHash p) (y_used y i)),
       y_spent := (if out = Rotated then (y_spent y)(i := insert (rp_presentedHash p) (y_spent y i)) else y_spent y)\<rparr>)"
| logout: "\<lbrakk> y_owner y i = Some uid; run_queue (delete_queue R i uid) es (y_store y) = (rs, st') \<rbrakk> \<Longrightarrow>
     sys_step R L y (y\<lparr>y_store := st', y_acked := y_acked y - {i}\<rparr>)"
| logout_all: "delete_all_script R (userSessionsKey uid) SESSION_PREFIX (y_store y) = (Inr n, st') \<Longrightarrow>
     sys_step R L y (y\<lparr>y_store := st'\<rparr>)"
| pass: "0 \<le> d \<Longrightarrow> sys_step R L y (y\<lparr>y_store := rd_pass R (y_store y) d\<rparr>)"

definition sys_init :: "'r \<Rightarrow> 'r sys" where
  "sys_init st = \<lparr>y_store = st, y_owner = (\<lambda>_. None), y_acked = {}, y_used = (\<lambda>_. {}), y_spent = (\<lambda>_. {})\<rparr>"

inductive sys_reach :: "'r redis \<Rightarrow> int \<Rightarrow> 'r \<Rightarrow> 'r sys \<Rightarrow> bool" for R and L and st0 where
  start: "sys_reach R L st0 (sys_init st0)"
| step: "sys_reach R L st0 y \<Longrightarrow> sys_step R L y y' \<Longrightarrow> sys_reach R L st0 y'"

text \<open>The last time a session was used to get tokens.\<close>

definition last_use :: "session \<Rightarrow> int" where
  "last_use s = (case se_rotatedAt s of None \<Rightarrow> se_createdAt s | Some t \<Rightarrow> t)"

subsection \<open>The invariant\<close>

text \<open>What holds of a session that is alive, with the deadline of its key.\<close>

definition session_inv :: "int \<Rightarrow> int \<Rightarrow> 'r sys \<Rightarrow> string \<Rightarrow> session \<Rightarrow> int option \<Rightarrow> bool" where
  "session_inv L server y i s d \<longleftrightarrow>
     y_owner y i = Some (se_userId s) \<and>
     se_refreshTokenHash s \<in> y_used y i \<and> se_refreshTokenHash s \<notin> y_spent y i \<and>
     se_absoluteExpiresAt s = se_createdAt s + SESSION_ABSOLUTE_TTL_SECONDS * 1000 \<and>
     se_createdAt s \<le> server + L \<and>
     (\<exists>x. d = Some x \<and> x < se_absoluteExpiresAt s + 1000 + L \<and>
        x \<le> last_use s + L + SESSION_IDLE_TTL_SECONDS * 1000)"

text \<open>
  What holds of the index for an acknowledged session that has time left: it is in its
  owner's index, and the index does not expire before the session's absolute lifetime.
\<close>

definition index_inv :: "int \<Rightarrow> session \<Rightarrow> string \<Rightarrow> string set \<Rightarrow> int option \<Rightarrow> bool" where
  "index_inv L s i ids d \<longleftrightarrow> i \<in> ids \<and> (\<forall>x. d = Some x \<longrightarrow> se_absoluteExpiresAt s \<le> x + L)"

definition sys_inv ::
  "('r \<Rightarrow> int) \<Rightarrow> ('r \<Rightarrow> string \<Rightarrow> rval option) \<Rightarrow> ('r \<Rightarrow> string \<Rightarrow> int option) \<Rightarrow> int \<Rightarrow> 'r sys \<Rightarrow> bool" where
  "sys_inv now val dl L y \<longleftrightarrow>
     sessions_ok val (y_store y) \<and>
     (\<forall>i. y_spent y i \<subseteq> y_used y i) \<and> (\<forall>i \<in> y_acked y. y_owner y i \<noteq> None) \<and>
     (\<forall>i s. session_at val (y_store y) i = Some s \<longrightarrow>
        session_inv L (now (y_store y)) y i s (dl (y_store y) (sessionKey i)) \<and>
        (i \<in> y_acked y \<longrightarrow> now (y_store y) + L < se_absoluteExpiresAt s \<longrightarrow>
           index_inv L s i (index_at val (y_store y) (se_userId s))
             (dl (y_store y) (userSessionsKey (se_userId s)))))"

lemma sys_invD:
  assumes "sys_inv now val dl L y"
  shows "sessions_ok val (y_store y)" "y_spent y i \<subseteq> y_used y i" "i \<in> y_acked y \<Longrightarrow> y_owner y i \<noteq> None"
    "session_at val (y_store y) i = Some s \<Longrightarrow>
       session_inv L (now (y_store y)) y i s (dl (y_store y) (sessionKey i))"
    "session_at val (y_store y) i = Some s \<Longrightarrow> i \<in> y_acked y \<Longrightarrow> now (y_store y) + L < se_absoluteExpiresAt s \<Longrightarrow>
       index_inv L s i (index_at val (y_store y) (se_userId s)) (dl (y_store y) (userSessionsKey (se_userId s)))"
  using assms by (auto simp: sys_inv_def)

lemma session_inv_store [simp]: "session_inv L server (y\<lparr>y_store := st\<rparr>) i s d = session_inv L server y i s d"
  by (simp add: session_inv_def)

lemma session_inv_history:
  "y_owner y' i = y_owner y i \<Longrightarrow> y_used y' i = y_used y i \<Longrightarrow> y_spent y' i = y_spent y i \<Longrightarrow>
     session_inv L server y' i s d = session_inv L server y i s d"
  by (simp add: session_inv_def)

lemma session_inv_later: "server \<le> server' \<Longrightarrow> session_inv L server y i s d \<Longrightarrow> session_inv L server' y i s d"
  by (auto simp: session_inv_def)

text \<open>A change of the store that adds no session: what has to be checked.\<close>

lemma sys_inv_shrink:
  assumes inv: "sys_inv now val dl L y" and ok: "sessions_ok val st" and later: "now (y_store y) \<le> now st"
    and old: "\<And>i s. session_at val st i = Some s \<Longrightarrow>
      session_at val (y_store y) i = Some s \<and> dl st (sessionKey i) = dl (y_store y) (sessionKey i)"
    and index: "\<And>i s. session_at val st i = Some s \<Longrightarrow> i \<in> y_acked y \<Longrightarrow> now st + L < se_absoluteExpiresAt s \<Longrightarrow>
      y_owner y i = Some (se_userId s) \<Longrightarrow> se_absoluteExpiresAt s = se_createdAt s + SESSION_ABSOLUTE_TTL_SECONDS * 1000 \<Longrightarrow>
      se_createdAt s \<le> now (y_store y) + L \<Longrightarrow>
      index_inv L s i (index_at val (y_store y) (se_userId s)) (dl (y_store y) (userSessionsKey (se_userId s))) \<Longrightarrow>
      index_inv L s i (index_at val st (se_userId s)) (dl st (userSessionsKey (se_userId s)))"
  shows "sys_inv now val dl L (y\<lparr>y_store := st\<rparr>)"
proof -
  note D = sys_invD [OF inv]
  have "session_inv L (now st) y i s (dl st (sessionKey i)) \<and>
      (i \<in> y_acked y \<longrightarrow> now st + L < se_absoluteExpiresAt s \<longrightarrow>
         index_inv L s i (index_at val st (se_userId s)) (dl st (userSessionsKey (se_userId s))))"
    if s: "session_at val st i = Some s" for i s
  proof -
    have s0: "session_at val (y_store y) i = Some s" and d: "dl st (sessionKey i) = dl (y_store y) (sessionKey i)"
      using old [OF s] by simp_all
    note si = D(4) [OF s0]
    have "session_inv L (now st) y i s (dl st (sessionKey i))"
      unfolding d by (rule session_inv_later [OF later si])
    moreover have "index_inv L s i (index_at val st (se_userId s)) (dl st (userSessionsKey (se_userId s)))"
      if "i \<in> y_acked y" "now st + L < se_absoluteExpiresAt s"
    proof (rule index [OF s that])
      show "index_inv L s i (index_at val (y_store y) (se_userId s)) (dl (y_store y) (userSessionsKey (se_userId s)))"
        by (rule D(5) [OF s0 that(1)]) (use later that(2) in linarith)
    qed (use si in \<open>auto simp: session_inv_def\<close>)
    ultimately show ?thesis by blast
  qed
  with ok D(2,3) show ?thesis
    by (simp add: sys_inv_def)
qed

context redis_server
begin

text \<open>The commands of the transactions and scripts, one by one.\<close>

lemma inv_del:
  assumes "sys_inv (rd_now R) val dl L y"
  shows "sys_inv (rd_now R) val dl L (y\<lparr>y_store := rd_del R (y_store y) (sessionKey i)\<rparr>)"
  by (rule sys_inv_shrink [OF assms])
    (auto simp: session_views(2-7) sessions_ok_updates(2) [OF sys_invD(1) [OF assms]] session_at_del views split: if_splits)

lemma inv_srem:
  assumes "sys_inv (rd_now R) val dl L y"
    and "session_at val (y_store y) i = None \<or> i \<notin> y_acked y"
  shows "sys_inv (rd_now R) val dl L (y\<lparr>y_store := rd_srem R (y_store y) (userSessionsKey u) i\<rparr>)"
proof -
  note ok = sys_invD(1) [OF assms(1)]
  note notext = sessions_okD(2) [OF ok]
  have keep: "session_at val (rd_srem R (y_store y) (userSessionsKey u) i) = session_at val (y_store y)"
    and idx: "index_at val (rd_srem R (y_store y) (userSessionsKey u) i) =
      (index_at val (y_store y))(u := index_at val (y_store y) u - {i})"
    and ok': "sessions_ok val (rd_srem R (y_store y) (userSessionsKey u) i)"
    using session_at_index_update(3,4) [OF ok] sessions_ok_updates(5) [OF ok] by simp_all
  show ?thesis
  proof (rule sys_inv_shrink [OF assms(1) ok'])
    fix j s
    assume "session_at val (rd_srem R (y_store y) (userSessionsKey u) i) j = Some s" and "j \<in> y_acked y"
      and "index_inv L s j (index_at val (y_store y) (se_userId s)) (dl (y_store y) (userSessionsKey (se_userId s)))"
    with assms(2) show "index_inv L s j (index_at val (rd_srem R (y_store y) (userSessionsKey u) i) (se_userId s))
        (dl (rd_srem R (y_store y) (userSessionsKey u) i) (userSessionsKey (se_userId s)))"
      using notext [of u] by (auto simp: index_inv_def keep idx dl_srem [OF notext] index_at_def)
  qed (auto simp: keep now_srem dl_srem [OF notext])
qed

lemma inv_sadd:
  assumes "sys_inv (rd_now R) val dl L y"
  shows "sys_inv (rd_now R) val dl L (y\<lparr>y_store := rd_sadd R (y_store y) (userSessionsKey u) i\<rparr>)"
proof -
  note ok = sys_invD(1) [OF assms(1)]
  show ?thesis
    by (rule sys_inv_shrink [OF assms sessions_ok_updates(4) [OF ok]])
      (auto simp: session_at_index_update [OF ok] now_sadd dl_sadd index_inv_def)
qed

lemma inv_expire:
  assumes "sys_inv (rd_now R) val dl L y"
  shows "sys_inv (rd_now R) val dl L
    (y\<lparr>y_store := rd_expire R (y_store y) (userSessionsKey u) SESSION_ABSOLUTE_TTL_SECONDS\<rparr>)"
proof -
  note ok = sys_invD(1) [OF assms(1)]
  have pos: "0 < SESSION_ABSOLUTE_TTL_SECONDS"
    by (simp add: session_constants)
  show ?thesis
    by (rule sys_inv_shrink [OF assms sessions_ok_updates(3) [OF ok pos]])
      (auto simp: session_at_expire [OF pos] now_expire [OF pos] dl_expire [OF pos] index_inv_def)
qed

lemma inv_pass:
  assumes "sys_inv (rd_now R) val dl L y" and "0 \<le> d"
  shows "sys_inv (rd_now R) val dl L (y\<lparr>y_store := rd_pass R (y_store y) d\<rparr>)"
proof -
  note ok = sys_invD(1) [OF assms(1)]
  have v: "val (rd_pass R (y_store y) d) k =
      (if expired_at (dl (y_store y) k) (rd_now R (y_store y) + d) then None else val (y_store y) k)"
    "dl (rd_pass R (y_store y) d) k =
      (if expired_at (dl (y_store y) k) (rd_now R (y_store y) + d) then None else dl (y_store y) k)" for k
    by (simp_all add: val_pass [OF assms(2)] dl_pass [OF assms(2)])
  have ok': "sessions_ok val (rd_pass R (y_store y) d)"
    using ok by (auto simp: sessions_ok_def v)
  show ?thesis
  proof (rule sys_inv_shrink [OF assms(1) ok'])
    fix i s
    assume "rd_now R (rd_pass R (y_store y) d) + L < se_absoluteExpiresAt s"
      and "index_inv L s i (index_at val (y_store y) (se_userId s)) (dl (y_store y) (userSessionsKey (se_userId s)))"
    then show "index_inv L s i (index_at val (rd_pass R (y_store y) d) (se_userId s))
        (dl (rd_pass R (y_store y) d) (userSessionsKey (se_userId s)))"
      by (cases "dl (y_store y) (userSessionsKey (se_userId s))")
        (auto simp: index_inv_def index_at_def v now_pass [OF assms(2)])
  qed (auto simp: session_at_def v now_pass [OF assms(2)] assms(2) split: if_splits)
qed

text \<open>A session written under its key, with what the history says of it.\<close>

lemma inv_put:
  assumes inv: "sys_inv (rd_now R) val dl L y" and n: "0 < n"
    and y': "y' = y\<lparr>y_store := rd_set R (y_store y) (sessionKey i) (Json (session_json s)) n,
      y_owner := (y_owner y)(i \<mapsto> se_userId s), y_used := (y_used y)(i := us), y_spent := (y_spent y)(i := sp)\<rparr>"
    and sp: "sp \<subseteq> us" and s: "session_inv L (rd_now R (y_store y)) y' i s (Some (rd_now R (y_store y) + n * 1000))"
    and acked: "i \<in> y_acked y \<Longrightarrow> \<exists>s0. session_at val (y_store y) i = Some s0 \<and>
      se_userId s0 = se_userId s \<and> se_absoluteExpiresAt s0 = se_absoluteExpiresAt s"
  shows "sys_inv (rd_now R) val dl L y'"
proof -
  note D = sys_invD [OF inv]
  let ?st = "rd_set R (y_store y) (sessionKey i) (Json (session_json s)) n"
  have st: "session_at val ?st = (session_at val (y_store y))(i \<mapsto> s)" "index_at val ?st = index_at val (y_store y)"
    "sessions_ok val ?st" "rd_now R ?st = rd_now R (y_store y)"
    "dl ?st = (dl (y_store y))(sessionKey i \<mapsto> rd_now R (y_store y) + n * 1000)"
    using session_at_set [OF n] sessions_ok_updates(1) [OF D(1) n] by (simp_all add: now_set [OF n] dl_set [OF n])
  have other: "session_inv L (rd_now R (y_store y)) y' j r d" if "j \<noteq> i"
    "session_inv L (rd_now R (y_store y)) y j r d" for j r d
    using that(2) session_inv_history [of y' j y] that(1) by (simp add: y')
  have this_one: "index_inv L s i (index_at val (y_store y) (se_userId s)) (dl (y_store y) (userSessionsKey (se_userId s)))"
    if "i \<in> y_acked y" "rd_now R (y_store y) + L < se_absoluteExpiresAt s"
    using acked [OF that(1)] D(5) [of i] that by (auto simp: index_inv_def)
  have "session_inv L (rd_now R ?st) y' j r (dl ?st (sessionKey j)) \<and>
      (j \<in> y_acked y' \<longrightarrow> rd_now R ?st + L < se_absoluteExpiresAt r \<longrightarrow>
        index_inv L r j (index_at val ?st (se_userId r)) (dl ?st (userSessionsKey (se_userId r))))"
    if "session_at val ?st j = Some r" for j r
  proof (cases "j = i")
    case True
    with that have "r = s" by (simp add: st)
    with True s this_one show ?thesis by (simp add: st) (simp add: y')
  next
    case False
    with that have "session_at val (y_store y) j = Some r" by (simp add: st)
    from D(4) [OF this] D(5) [OF this] False other show ?thesis by (simp add: st) (simp add: y')
  qed
  moreover have "y_store y' = ?st" "sessions_ok val ?st" "\<forall>j. y_spent y' j \<subseteq> y_used y' j" "\<forall>j \<in> y_acked y'. y_owner y' j \<noteq> None"
    using D(2,3) sp by (auto simp: y' st)
  ultimately show ?thesis
    by (simp add: sys_inv_def)
qed

lemma inv_fresh_id:
  assumes inv: "sys_inv (rd_now R) val dl L y" and fresh: "y_owner y i = None"
  shows "sys_inv (rd_now R) val dl L (y\<lparr>y_owner := (y_owner y)(i \<mapsto> u), y_used := (y_used y)(i := {h}),
      y_spent := (y_spent y)(i := {})\<rparr>)"
proof -
  note D = sys_invD [OF inv]
  have "session_at val (y_store y) i = None"
    using D(4) [of i] fresh by (cases "session_at val (y_store y) i") (auto simp: session_inv_def)
  then have "j \<noteq> i" if "session_at val (y_store y) j = Some s" for j s
    using that by auto
  with D(1-5) show ?thesis
    by (simp add: sys_inv_def session_inv_history [of "y\<lparr>y_owner := (y_owner y)(i \<mapsto> u),
        y_used := (y_used y)(i := {h}), y_spent := (y_spent y)(i := {})\<rparr>" _ y])
qed

text \<open>A failing command of a transaction leaves the state; a running one is one of the above.\<close>

lemma run_one_inv:
  assumes "sys_inv now v d L y" and "sys_inv now v d L (y\<lparr>y_store := snd (c (y_store y))\<rparr>)"
  shows "sys_inv now v d L (y\<lparr>y_store := snd (run_one c e (y_store y))\<rparr>)"
  using run_one_state [of c e "y_store y"] assms by auto

text \<open>What a fully executed login transaction leaves in the index.\<close>

lemma login_indexed:
  assumes ok: "sessions_ok val st" and n: "0 < n"
    and run: "run_queue (create_queue R i s n) es st = (rs, st')" and good: "first_error rs = None"
  shows "i \<in> index_at val st' (se_userId s)" and "rd_now R st' = rd_now R st"
    and "dl st' (userSessionsKey (se_userId s)) = Some (rd_now R st + SESSION_ABSOLUTE_TTL_SECONDS * 1000)"
proof -
  have pos: "0 < SESSION_ABSOLUTE_TTL_SECONDS"
    by (simp add: session_constants)
  have "\<exists>rs. run_queue (create_queue R i s n) es st = (rs, st') \<and> first_error rs = None"
    using run good by blast
  then have st': "st' = rd_expire R (rd_sadd R (rd_set R st (sessionKey i) (Json (session_json s)) n)
      (userSessionsKey (se_userId s)) i) (userSessionsKey (se_userId s)) SESSION_ABSOLUTE_TTL_SECONDS"
    using n by (auto simp: create_queue_def run_queue_ok_Cons cmd_set_def JSON_stringify_def simp del: run_queue.simps(2))
  have ok1: "sessions_ok val (rd_set R st (sessionKey i) (Json (session_json s)) n)"
    by (rule sessions_ok_updates(1) [OF ok n])
  have sadd: "val (rd_sadd R (rd_set R st (sessionKey i) (Json (session_json s)) n) (userSessionsKey (se_userId s)) i)
      (userSessionsKey (se_userId s)) \<noteq> None"
    using val_sadd [OF sessions_okD(2) [OF ok1]] by simp
  show "i \<in> index_at val st' (se_userId s)"
    unfolding st' by (simp add: session_at_expire [OF pos] session_at_index_update [OF ok1])
  show "rd_now R st' = rd_now R st"
    unfolding st' by (simp add: now_expire [OF pos] now_sadd now_set [OF n])
  show "dl st' (userSessionsKey (se_userId s)) = Some (rd_now R st + SESSION_ABSOLUTE_TTL_SECONDS * 1000)"
    unfolding st' dl_expire [OF pos] if_not_P [OF sadd] by (simp add: now_sadd now_set [OF n])
qed

lemma inv_ack:
  assumes inv: "sys_inv (rd_now R) val dl L y" and "y_owner y i \<noteq> None"
    and "\<And>s. session_at val (y_store y) i = Some s \<Longrightarrow>
      index_inv L s i (index_at val (y_store y) (se_userId s)) (dl (y_store y) (userSessionsKey (se_userId s)))"
  shows "sys_inv (rd_now R) val dl L (y\<lparr>y_acked := insert i (y_acked y)\<rparr>)"
  using assms by (auto simp: sys_inv_def session_inv_history [of "y\<lparr>y_acked := insert i (y_acked y)\<rparr>" _ y])

lemma new_session_simps [simp]:
  "se_userId (new_session u h now) = ur_id u" "se_refreshTokenHash (new_session u h now) = h"
  "se_createdAt (new_session u h now) = now" "se_rotatedAt (new_session u h now) = None"
  "se_absoluteExpiresAt (new_session u h now) = now + SESSION_ABSOLUTE_TTL_SECONDS * 1000"
  by (simp_all add: new_session_def)

text \<open>A login, whatever part of its transaction runs.\<close>

lemma login_inv:
  assumes inv: "sys_inv (rd_now R) val dl L y" and fresh: "y_owner y i = None"
    and near: "clock_near L (rd_now R (y_store y)) now" "clock_near L (rd_now R (y_store y)) now'"
    and alive: "now' < now + SESSION_ABSOLUTE_TTL_SECONDS * 1000"
    and run: "run_queue (create_queue R i (new_session u h now)
       (session_ttl (se_absoluteExpiresAt (new_session u h now)) now')) es (y_store y) = (rs, st')"
    and ack: "acked \<longrightarrow> first_error rs = None"
  shows "sys_inv (rd_now R) val dl L (y\<lparr>y_store := st', y_owner := (y_owner y)(i \<mapsto> ur_id u),
       y_acked := (if acked then insert i (y_acked y) else y_acked y),
       y_used := (y_used y)(i := {h}), y_spent := (y_spent y)(i := {})\<rparr>)"
proof -
  let ?s = "new_session u h now"
  define n where "n = session_ttl (se_absoluteExpiresAt ?s) now'"
  have n: "0 < n" "n \<le> SESSION_IDLE_TTL_SECONDS" "now' + n * 1000 < se_absoluteExpiresAt ?s + 1000"
    using session_ttl_bounds [of now' "se_absoluteExpiresAt ?s"] alive by (simp_all add: n_def)
  define y0 where "y0 = y\<lparr>y_owner := (y_owner y)(i \<mapsto> ur_id u), y_used := (y_used y)(i := {h}),
    y_spent := (y_spent y)(i := {})\<rparr>"
  have store0: "y_store y0 = y_store y" by (simp add: y0_def)
  have i0: "sys_inv (rd_now R) val dl L y0"
    unfolding y0_def by (rule inv_fresh_id [OF inv fresh])
  have notacked: "i \<notin> y_acked y"
    using sys_invD(3) [OF inv, of i] fresh by auto
  have put: "sys_inv (rd_now R) val dl L
      (y0\<lparr>y_store := rd_set R (y_store y) (sessionKey i) (Json (session_json ?s)) n\<rparr>)"
  proof (rule inv_put [OF inv n(1), where us = "{h}" and sp = "{}"])
    show "session_inv L (rd_now R (y_store y))
        (y0\<lparr>y_store := rd_set R (y_store y) (sessionKey i) (Json (session_json ?s)) n\<rparr>) i ?s
        (Some (rd_now R (y_store y) + n * 1000))"
      using near n by (simp add: session_inv_def y0_def clock_near_def last_use_def)
  qed (simp_all add: y0_def notacked)
  let ?c1 = "cmd_set R (sessionKey i) (JSON_stringify (session_json ?s)) n"
  let ?c2 = "\<lambda>st. (Inr (), rd_sadd R st (userSessionsKey (ur_id u)) i)"
  let ?c3 = "\<lambda>st. (Inr (), rd_expire R st (userSessionsKey (ur_id u)) SESSION_ABSOLUTE_TTL_SECONDS)"
  have "\<exists>e1 e2 e3. st' = snd (run_one ?c3 e3 (snd (run_one ?c2 e2 (snd (run_one ?c1 e1 (y_store y))))))"
    using run by (force simp: create_queue_def n_def Let_def case_prod_unfold)
  then obtain e1 e2 e3 where
    st': "st' = snd (run_one ?c3 e3 (snd (run_one ?c2 e2 (snd (run_one ?c1 e1 (y_store y))))))"
    by blast
  define y1 where "y1 = y0\<lparr>y_store := snd (run_one ?c1 e1 (y_store y0))\<rparr>"
  define y2 where "y2 = y1\<lparr>y_store := snd (run_one ?c2 e2 (y_store y1))\<rparr>"
  define y3 where "y3 = y2\<lparr>y_store := snd (run_one ?c3 e3 (y_store y2))\<rparr>"
  have i1: "sys_inv (rd_now R) val dl L y1"
    unfolding y1_def using put n(1) by (intro run_one_inv [OF i0]) (simp add: cmd_set_def JSON_stringify_def store0)
  have i2: "sys_inv (rd_now R) val dl L y2"
    unfolding y2_def using inv_sadd [OF i1] by (intro run_one_inv [OF i1]) simp
  have i3: "sys_inv (rd_now R) val dl L y3"
    unfolding y3_def using inv_expire [OF i2] by (intro run_one_inv [OF i2]) simp
  have y3: "y3 = y0\<lparr>y_store := st'\<rparr>"
    by (simp add: y3_def y2_def y1_def st' store0)
  have result: "y\<lparr>y_store := st', y_owner := (y_owner y)(i \<mapsto> ur_id u),
       y_acked := (if acked then insert i (y_acked y) else y_acked y),
       y_used := (y_used y)(i := {h}), y_spent := (y_spent y)(i := {})\<rparr> =
    (if acked then y3\<lparr>y_acked := insert i (y_acked y3)\<rparr> else y3)"
    by (cases y) (simp add: y3 y0_def)
  show ?thesis
  proof (cases acked)
    case False
    with i3 show ?thesis unfolding result by simp
  next
    case True
    note idx = login_indexed [OF sys_invD(1) [OF inv] n(1) run [folded n_def]] ack True
    have "sys_inv (rd_now R) val dl L (y3\<lparr>y_acked := insert i (y_acked y3)\<rparr>)"
    proof (rule inv_ack [OF i3])
      show "y_owner y3 i \<noteq> None" by (simp add: y3 y0_def)
      fix r
      assume "session_at val (y_store y3) i = Some r"
      from sys_invD(4) [OF i3 this]
      have "se_userId r = ur_id u" "se_absoluteExpiresAt r \<le> rd_now R st' + L + SESSION_ABSOLUTE_TTL_SECONDS * 1000"
        by (auto simp: session_inv_def y3 y0_def)
      with idx show "index_inv L r i (index_at val (y_store y3) (se_userId r))
          (dl (y_store y3) (userSessionsKey (se_userId r)))"
        by (simp add: index_inv_def y3)
    qed
    with True show ?thesis unfolding result by simp
  qed
qed

text \<open>The rotation script, by the decision it takes.\<close>

lemma rotate_script_result:
  assumes ok: "sessions_ok val st"
    and run: "rotate_script R (sessionKey i) (userSessionsKey u) (rp_presentedHash p) (rp_newHash p)
        (rp_role p) (rp_now p) REFRESH_GRACE_PERIOD_MS SESSION_IDLE_TTL_SECONDS i st = (Inr out, st')"
  shows "session_at val st i = None \<Longrightarrow> out = Missing \<and> st' = st"
    and "session_at val st i = Some s \<Longrightarrow> out = rotate_decision s p"
    and "session_at val st i = Some s \<Longrightarrow> out = Rotated \<Longrightarrow>
      st' = rd_set R st (sessionKey i) (Json (session_json (rotated_session s p)))
        (session_ttl (se_absoluteExpiresAt s) (rp_now p))"
    and "session_at val st i = Some s \<Longrightarrow> out = Concurrent \<Longrightarrow> st' = st"
    and "session_at val st i = Some s \<Longrightarrow> out \<in> {Reused, Missing} \<Longrightarrow>
      st' = rd_srem R (rd_del R st (sessionKey i)) (userSessionsKey u) i"
proof -
  note raw = session_get_raw [OF ok, of i]
  show "session_at val st i = None \<Longrightarrow> out = Missing \<and> st' = st"
    using run raw by (simp add: rotate_script_def)
  assume s: "session_at val st i = Some s"
  show dec: "out = rotate_decision s p"
    using rotate_script_refines(1) [OF ok run] s
    by (auto simp: rotate_spec_def split: rotate_outcome.splits)
  have got: "rd_get R st (sessionKey i) = Some (Json (session_json s))"
    using raw s by simp
  show "st' = rd_set R st (sessionKey i) (Json (session_json (rotated_session s p)))
        (session_ttl (se_absoluteExpiresAt s) (rp_now p))" if "out = Rotated"
  proof -
    have cur: "se_refreshTokenHash s = rp_presentedHash p" and alive: "rp_now p < se_absoluteExpiresAt s"
      using dec that by (auto simp: rotate_decision_def split: if_splits)
    from session_ttl_bounds(1) [OF alive]
    have "0 < min SESSION_IDLE_TTL_SECONDS (ceil_div (se_absoluteExpiresAt s - rp_now p) 1000)"
      by (simp add: session_ttl_def)
    with run got cur alive show ?thesis
      by (auto simp: rotate_script_def cmd_set_def Let_def rotated_session_def session_ttl_def)
  qed
  show "st' = st" if "out = Concurrent"
    using run got that
    by (auto simp: rotate_script_def Let_def cmd_set_def split: if_splits option.splits)
  show "st' = rd_srem R (rd_del R st (sessionKey i)) (userSessionsKey u) i" if "out \<in> {Reused, Missing}"
    using run got that
    by (auto simp: rotate_script_def Let_def cmd_set_def split: if_splits option.splits)
qed

text \<open>A hash that was offered but not stored only enlarges the history.\<close>

lemma inv_offered:
  assumes "sys_inv (rd_now R) val dl L y"
  shows "sys_inv (rd_now R) val dl L (y\<lparr>y_used := (y_used y)(i := insert h (y_used y i))\<rparr>)"
proof -
  have "session_inv L server (y\<lparr>y_used := (y_used y)(i := insert h (y_used y i))\<rparr>) j s d"
    if "session_inv L server y j s d" for server j s d
    using that by (auto simp: session_inv_def)
  with assms show ?thesis
    by (auto simp: sys_inv_def)
qed

lemma refresh_inv:
  fixes p :: rotate_params
  assumes inv: "sys_inv (rd_now R) val dl L y" and owner: "y_owner y i = Some uid"
    and near: "clock_near L (rd_now R (y_store y)) (rp_now p)" and fresh: "rp_newHash p \<notin> y_used y i"
    and run: "rotate_script R (sessionKey i) (userSessionsKey uid) (rp_presentedHash p) (rp_newHash p)
       (rp_role p) (rp_now p) REFRESH_GRACE_PERIOD_MS SESSION_IDLE_TTL_SECONDS i (y_store y) = (Inr out, st')"
  shows "sys_inv (rd_now R) val dl L (y\<lparr>y_store := st',
       y_used := (y_used y)(i := insert (rp_newHash p) (y_used y i)),
       y_spent := (if out = Rotated then (y_spent y)(i := insert (rp_presentedHash p) (y_spent y i)) else y_spent y)\<rparr>)"
proof -
  note ok = sys_invD(1) [OF inv]
  note res = rotate_script_result [OF ok run]
  have other: ?thesis if "out \<noteq> Rotated" "sys_inv (rd_now R) val dl L (y\<lparr>y_store := st'\<rparr>)"
    using inv_offered [OF that(2), of i "rp_newHash p"] that(1) by simp
  show ?thesis
  proof (cases "session_at val (y_store y) i")
    case None
    with res(1) inv other show ?thesis by simp
  next
    case (Some s)
    note si = sys_invD(4) [OF inv Some]
    have uid: "se_userId s = uid"
      using si owner by (simp add: session_inv_def)
    show ?thesis
    proof (cases out)
      case Rotated
      have cur: "se_refreshTokenHash s = rp_presentedHash p" and alive: "rp_now p < se_absoluteExpiresAt s"
        using res(2) [OF Some] Rotated by (auto simp: rotate_decision_def split: if_splits)
      let ?n = "session_ttl (se_absoluteExpiresAt s) (rp_now p)"
      note n = session_ttl_bounds [OF alive]
      have new: "rp_newHash p \<notin> insert (rp_presentedHash p) (y_spent y i)"
        using fresh si cur sys_invD(2) [OF inv, of i] by (auto simp: session_inv_def)
      show ?thesis
      proof (rule inv_put [OF inv n(1)])
        show "y\<lparr>y_store := st', y_used := (y_used y)(i := insert (rp_newHash p) (y_used y i)),
            y_spent := (if out = Rotated then (y_spent y)(i := insert (rp_presentedHash p) (y_spent y i)) else y_spent y)\<rparr> =
          y\<lparr>y_store := rd_set R (y_store y) (sessionKey i) (Json (session_json (rotated_session s p))) ?n,
            y_owner := (y_owner y)(i \<mapsto> se_userId (rotated_session s p)),
            y_used := (y_used y)(i := insert (rp_newHash p) (y_used y i)),
            y_spent := (y_spent y)(i := insert (rp_presentedHash p) (y_spent y i))\<rparr>"
          using Rotated res(3) [OF Some] owner uid
          by (cases y) (simp add: rotated_session_def fun_upd_idem)
        show "insert (rp_presentedHash p) (y_spent y i) \<subseteq> insert (rp_newHash p) (y_used y i)"
          using sys_invD(2) [OF inv, of i] si cur by (auto simp: session_inv_def)
        show "\<exists>s0. session_at val (y_store y) i = Some s0 \<and> se_userId s0 = se_userId (rotated_session s p) \<and>
            se_absoluteExpiresAt s0 = se_absoluteExpiresAt (rotated_session s p)"
          using Some by (simp add: rotated_session_def)
        show "session_inv L (rd_now R (y_store y)) (y\<lparr>y_store := st',
            y_used := (y_used y)(i := insert (rp_newHash p) (y_used y i)),
            y_spent := (if out = Rotated then (y_spent y)(i := insert (rp_presentedHash p) (y_spent y i)) else y_spent y)\<rparr>)
            i (rotated_session s p) (Some (rd_now R (y_store y) + ?n * 1000))"
          using Rotated si near n new
          by (auto simp: session_inv_def rotated_session_def last_use_def clock_near_def)
      qed
    next
      case Concurrent
      with res(4) [OF Some] inv other show ?thesis by simp
    next
      case Reused
      have "sys_inv (rd_now R) val dl L (y\<lparr>y_store := st'\<rparr>)"
        using inv_srem [OF inv_del [OF inv, of i], of i uid] res(5) [OF Some] Reused
        by (simp add: session_at_del)
      with other Reused show ?thesis by simp
    next
      case Missing
      have "sys_inv (rd_now R) val dl L (y\<lparr>y_store := st'\<rparr>)"
        using inv_srem [OF inv_del [OF inv, of i], of i uid] res(5) [OF Some] Missing
        by (simp add: session_at_del)
      with other Missing show ?thesis by simp
    qed
  qed
qed

text \<open>A logout: the session stops being acknowledged whatever part of the transaction runs.\<close>

lemma logout_inv:
  assumes inv: "sys_inv (rd_now R) val dl L y"
    and run: "run_queue (delete_queue R i uid) es (y_store y) = (rs, st')"
  shows "sys_inv (rd_now R) val dl L (y\<lparr>y_store := st', y_acked := y_acked y - {i}\<rparr>)"
proof -
  let ?c1 = "\<lambda>st. (Inr (), rd_del R st (sessionKey i))"
  let ?c2 = "\<lambda>st. (Inr (), rd_srem R st (userSessionsKey uid) i)"
  define y0 where "y0 = y\<lparr>y_acked := y_acked y - {i}\<rparr>"
  have i0: "sys_inv (rd_now R) val dl L y0"
    using inv by (auto simp: y0_def sys_inv_def session_inv_history [of "y\<lparr>y_acked := y_acked y - {i}\<rparr>" _ y])
  have "\<exists>e1 e2. st' = snd (run_one ?c2 e2 (snd (run_one ?c1 e1 (y_store y))))"
    using run by (force simp: delete_queue_def Let_def case_prod_unfold)
  then obtain e1 e2 where st': "st' = snd (run_one ?c2 e2 (snd (run_one ?c1 e1 (y_store y))))"
    by blast
  define y1 where "y1 = y0\<lparr>y_store := snd (run_one ?c1 e1 (y_store y0))\<rparr>"
  define y2 where "y2 = y1\<lparr>y_store := snd (run_one ?c2 e2 (y_store y1))\<rparr>"
  have i1: "sys_inv (rd_now R) val dl L y1"
    unfolding y1_def using inv_del [OF i0, of i] by (intro run_one_inv [OF i0]) simp
  have "i \<notin> y_acked y1" by (simp add: y1_def y0_def)
  then have i2: "sys_inv (rd_now R) val dl L y2"
    unfolding y2_def using inv_srem [OF i1, of i uid] by (intro run_one_inv [OF i1]) simp
  moreover have "y2 = y\<lparr>y_store := st', y_acked := y_acked y - {i}\<rparr>"
    by (cases y) (simp add: y2_def y1_def y0_def st')
  ultimately show ?thesis by simp
qed

lemma del_each_dl:
  "dl (del_each R SESSION_PREFIX ids st) k = (if k \<in> sessionKey ` set ids then None else dl st k)"
  by (induction ids arbitrary: st) (auto simp: dl_del sessionKey_def)

lemma logout_all_inv:
  assumes inv: "sys_inv (rd_now R) val dl L y"
    and run: "delete_all_script R (userSessionsKey uid) SESSION_PREFIX (y_store y) = (r, st')"
  shows "sys_inv (rd_now R) val dl L (y\<lparr>y_store := st'\<rparr>)"
proof -
  note ok = sys_invD(1) [OF inv]
  note ref = delete_all_script_refines [OF ok run]
  let ?ids = "rd_smembers R (y_store y) (userSessionsKey uid)"
  have st': "st' = rd_del R (del_each R SESSION_PREFIX ?ids (y_store y)) (userSessionsKey uid)"
    using run by (simp add: delete_all_script_def Let_def)
  have ids: "set ?ids = index_at val (y_store y) uid"
    using smembers [OF sessions_okD(2) [OF ok]] by (simp add: index_at_def)
  have now: "rd_now R st' = rd_now R (y_store y)"
    by (simp add: st' now_del del_each_views(4) [OF ok])
  have dl': "dl st' k = (if k = userSessionsKey uid \<or> k \<in> sessionKey ` index_at val (y_store y) uid then None
      else dl (y_store y) k)" for k
    by (simp add: st' dl_del del_each_dl ids)
  show ?thesis
  proof (rule sys_inv_shrink [OF inv ref(4)])
    fix i s
    assume s: "session_at val st' i = Some s"
      and old: "index_inv L s i (index_at val (y_store y) (se_userId s)) (dl (y_store y) (userSessionsKey (se_userId s)))"
    have "i \<notin> index_at val (y_store y) uid"
      using s ref(2) by (auto split: if_splits)
    with old have "se_userId s \<noteq> uid"
      by (auto simp: index_inv_def)
    with old show "index_inv L s i (index_at val st' (se_userId s)) (dl st' (userSessionsKey (se_userId s)))"
      by (auto simp: index_inv_def ref(3) dl')
  qed (auto simp: now ref(2) dl' split: if_splits)
qed

theorem sys_step_inv:
  assumes "sys_step R L y y'" and "sys_inv (rd_now R) val dl L y"
  shows "sys_inv (rd_now R) val dl L y'"
  using assms
proof (induction rule: sys_step.induct)
  case (login y i now now' u h es rs st' acked)
  then show ?case by (intro login_inv)
next
  case (refresh y i uid p out st')
  then show ?case by (intro refresh_inv)
next
  case (logout y i uid es rs st')
  then show ?case by (intro logout_inv)
next
  case (logout_all uid y n st')
  then show ?case by (intro logout_all_inv)
next
  case (pass d y)
  then show ?case by (intro inv_pass)
qed

theorem sys_reach_inv:
  assumes "sys_reach R L st0 y" and "sessions_ok val st0" and "\<And>i. session_at val st0 i = None"
  shows "sys_inv (rd_now R) val dl L y"
  using assms(1)
proof induction
  case start
  with assms(2,3) show ?case
    by (simp add: sys_inv_def sys_init_def)
next
  case (step y y')
  then show ?case using sys_step_inv by blast
qed

end

subsection \<open>A history on the reference store\<close>

text \<open>A login, then one refresh that presents the hash of the login.\<close>

definition demo_opened :: ref_store where
  "demo_opened = snd (run_queue (create_queue ref_redis ''s1'' demo_session 604800) [] ref_init)"

definition demo_rotated :: ref_store where
  "demo_rotated = snd (rotate_script ref_redis (sessionKey ''s1'') (userSessionsKey ''u1'') ''h1'' ''h2'' User 0
     REFRESH_GRACE_PERIOD_MS SESSION_IDLE_TTL_SECONDS ''s1'' demo_opened)"

definition demo_after_login :: "ref_store sys" where
  "demo_after_login = \<lparr>y_store = demo_opened, y_owner = [''s1'' \<mapsto> ''u1''], y_acked = {''s1''},
     y_used = (\<lambda>_. {})(''s1'' := {''h1''}), y_spent = (\<lambda>_. {})(''s1'' := {})\<rparr>"

definition demo_after_refresh :: "ref_store sys" where
  "demo_after_refresh = \<lparr>y_store = demo_rotated, y_owner = [''s1'' \<mapsto> ''u1''], y_acked = {''s1''},
     y_used = (\<lambda>_. {})(''s1'' := {''h1'', ''h2''}), y_spent = (\<lambda>_. {})(''s1'' := {''h1''})\<rparr>"

definition demo_alice :: user_record where
  "demo_alice = \<lparr>ur_id = ''u1'', ur_name = ''Alice'', ur_username = ''alice'', ur_passwordHash = ''x'',
     ur_email = ''a@b'', ur_role = User\<rparr>"

lemma demo_new_session: "new_session demo_alice ''h1'' 0 = demo_session"
  by (simp add: new_session_def demo_alice_def demo_session_def SESSION_IDLE_TTL_SECONDS_def
      SESSION_ABSOLUTE_TTL_SECONDS_def)

lemma demo_login_run:
  "run_queue (create_queue ref_redis ''s1'' demo_session 604800) [] ref_init = ([None, None, None], demo_opened)"
  by (simp add: demo_opened_def create_queue_def cmd_set_def case_prod_unfold Let_def queue_fault_def demo_session_def)

lemma demo_opened_eq:
  "demo_opened = rd_expire ref_redis (rd_sadd ref_redis
     (rd_set ref_redis ref_init (sessionKey ''s1'') (Json (session_json demo_session)) 604800)
     (userSessionsKey ''u1'') ''s1'') (userSessionsKey ''u1'') SESSION_ABSOLUTE_TTL_SECONDS"
  by (simp add: demo_opened_def create_queue_def cmd_set_def case_prod_unfold Let_def queue_fault_def
      demo_session_def JSON_stringify_def del: ref_redis_simps)

lemma demo_opened_ok: "sessions_ok ref_value demo_opened"
  unfolding demo_opened_eq
  by (intro ref_server.sessions_ok_updates ref_init_ok) (simp_all add: SESSION_ABSOLUTE_TTL_SECONDS_def)

lemma demo_opened_now [simp]: "rf_now demo_opened = 0"
  by (simp add: demo_opened_def create_queue_def cmd_set_def case_prod_unfold Let_def queue_fault_def
      demo_session_def ref_init_def SESSION_ABSOLUTE_TTL_SECONDS_def split: option.split)

lemma demo_opened_session: "session_at ref_value demo_opened ''s1'' = Some demo_session"
proof -
  have "sessions_ok ref_value
      (rd_set ref_redis ref_init (sessionKey ''s1'') (Json (session_json demo_session)) 604800)"
    by (intro ref_server.sessions_ok_updates ref_init_ok) simp
  then show ?thesis
    by (simp add: demo_opened_eq ref_server.session_views SESSION_ABSOLUTE_TTL_SECONDS_def del: ref_redis_simps)
qed

lemma demo_rotate_run:
  "rotate_script ref_redis (sessionKey ''s1'') (userSessionsKey ''u1'') ''h1'' ''h2'' User 0
     REFRESH_GRACE_PERIOD_MS SESSION_IDLE_TTL_SECONDS ''s1'' demo_opened = (Inr Rotated, demo_rotated)"
proof -
  let ?p = "\<lparr>rp_presentedHash = ''h1'', rp_newHash = ''h2'', rp_role = User, rp_now = 0\<rparr>"
  obtain r st where run: "rotate_script ref_redis (sessionKey ''s1'') (userSessionsKey ''u1'')
      (rp_presentedHash ?p) (rp_newHash ?p) (rp_role ?p) (rp_now ?p)
      REFRESH_GRACE_PERIOD_MS SESSION_IDLE_TTL_SECONDS ''s1'' demo_opened = (r, st)"
    by (meson surj_pair)
  from ref_server.rotate_script_refines(1) [OF demo_opened_ok run] run show ?thesis
    by (simp add: demo_rotated_def demo_opened_session rotate_spec_def rotate_decision_def demo_session_def)
qed

lemma demo_login_reach: "sys_reach ref_redis 0 ref_init demo_after_login"
proof -
  have ttl: "session_ttl (se_absoluteExpiresAt demo_session) 0 = 604800"
    by (simp add: session_ttl_def demo_session_def SESSION_IDLE_TTL_SECONDS_def ceil_div_def)
  have "run_queue (create_queue ref_redis ''s1'' (new_session demo_alice ''h1'' 0)
      (session_ttl (se_absoluteExpiresAt (new_session demo_alice ''h1'' 0)) 0)) []
      (y_store (sys_init ref_init)) = ([None, None, None], demo_opened)"
    by (simp only: demo_new_session ttl demo_login_run sys_init_def sys.select_convs)
  from sys_step.login [OF _ _ _ _ _ this, of 0 True]
  have "sys_step ref_redis 0 (sys_init ref_init) demo_after_login"
    by (simp add: sys_init_def clock_near_def demo_after_login_def ref_init_def
        SESSION_ABSOLUTE_TTL_SECONDS_def) (simp add: demo_alice_def)
  then show ?thesis
    by (rule sys_reach.step [OF sys_reach.start])
qed

lemma demo_refresh_reach: "sys_reach ref_redis 0 ref_init demo_after_refresh"
proof -
  have "sys_step ref_redis 0 demo_after_login demo_after_refresh"
    using sys_step.refresh [of demo_after_login "''s1''" "''u1''" 0 ref_redis
        "\<lparr>rp_presentedHash = ''h1'', rp_newHash = ''h2'', rp_role = User, rp_now = 0\<rparr>" Rotated demo_rotated]
      demo_rotate_run
    by (simp add: demo_after_login_def demo_after_refresh_def clock_near_def insert_commute)
  with demo_login_reach show ?thesis
    by (rule sys_reach.step)
qed

lemma ref_init_empty: "session_at ref_value ref_init i = None"
  by (simp add: session_at_def ref_value_def ref_look_def ref_init_def)

subsection \<open>Properties\<close>

text \<open>
  C2. A refresh token works at most once. However many processes interleave their calls
  (logins, refreshes, logouts, failing commands of a transaction, time passing, clocks up to
  \<open>L\<close> milliseconds apart), a hash that a rotation of the session has replaced is never rotated
  again: a script run that presents it answers anything but \<open>Rotated\<close>.
\<close>

theorem refresh_token_used_once:
  assumes "redis_server R val dl" and "sessions_ok val st0" and "\<And>i. session_at val st0 i = None"
    and "sys_reach R L st0 y" and "h \<in> y_spent y i"
    and "rotate_script R (sessionKey i) (userSessionsKey u) h h' r now
        REFRESH_GRACE_PERIOD_MS SESSION_IDLE_TTL_SECONDS i (y_store y) = (Inr out, st')"
  shows "out \<noteq> Rotated"
proof
  assume out: "out = Rotated"
  note inv = redis_server.sys_reach_inv [OF assms(1,4,2,3)]
  let ?p = "\<lparr>rp_presentedHash = h, rp_newHash = h', rp_role = r, rp_now = now\<rparr>"
  have run: "rotate_script R (sessionKey i) (userSessionsKey u) (rp_presentedHash ?p) (rp_newHash ?p)
      (rp_role ?p) (rp_now ?p) REFRESH_GRACE_PERIOD_MS SESSION_IDLE_TTL_SECONDS i (y_store y) = (Inr out, st')"
    using assms(6) by simp
  note res = redis_server.rotate_script_result [OF assms(1) sys_invD(1) [OF inv] run]
  obtain s where s: "session_at val (y_store y) i = Some s"
    using res(1) out by fastforce
  with res(2) out have "se_refreshTokenHash s = h"
    by (auto simp: rotate_decision_def split: if_splits)
  with sys_invD(4) [OF inv s] assms(5) show False
    by (simp add: session_inv_def)
qed

lemma refresh_token_used_once_witness:
  "fst (rotate_script ref_redis (sessionKey ''s1'') (userSessionsKey ''u1'') ''h1'' ''h3'' User 0
     REFRESH_GRACE_PERIOD_MS SESSION_IDLE_TTL_SECONDS ''s1'' demo_rotated) \<noteq> Inr Rotated"
  using refresh_token_used_once [OF ref_server.redis_server_axioms ref_init_ok ref_init_empty demo_refresh_reach,
      of "''h1''" "''s1''" "''u1''" "''h3''" User 0 Rotated]
  by (auto simp: demo_after_refresh_def prod_eq_iff)

text \<open>
  C3. A session that can still be read is young enough: in every reachable state the server's
  time is before the absolute lifetime of 30 days after its creation (plus the clock
  distance, plus the second by which a rounded expiry may run over), and at most seven days
  (plus the clock distance) after it was last used to get tokens; its identifier belongs to
  the user it names.
\<close>

theorem session_lifetime_bounded:
  assumes "redis_server R val dl" and "sessions_ok val st0" and "\<And>i. session_at val st0 i = None"
    and "sys_reach R L st0 y" and "session_at val (y_store y) i = Some s"
  shows "rd_now R (y_store y) < se_createdAt s + SESSION_ABSOLUTE_TTL_SECONDS * 1000 + 1000 + L \<and>
    rd_now R (y_store y) < last_use s + SESSION_IDLE_TTL_SECONDS * 1000 + L \<and>
    y_owner y i = Some (se_userId s)"
proof -
  have "session_inv L (rd_now R (y_store y)) y i s (dl (y_store y) (sessionKey i))"
    by (rule sys_invD(4) [OF redis_server.sys_reach_inv [OF assms(1,4,2,3)] assms(5)])
  then show ?thesis
    using redis_server.dl_future [OF assms(1)] by (force simp: session_inv_def)
qed

lemma session_lifetime_bounded_witness:
  "0 < last_use demo_session + SESSION_IDLE_TTL_SECONDS * 1000 \<and> y_owner demo_after_login ''s1'' = Some ''u1''"
  using session_lifetime_bounded [OF ref_server.redis_server_axioms ref_init_ok ref_init_empty demo_login_reach,
      of "''s1''" demo_session] demo_opened_session
  by (simp add: demo_after_login_def demo_session_def)

text \<open>
  C4. Logging out everywhere works: in every reachable state, when the script of \<open>logoutAll\<close>
  runs for a user, no session of that user whose login was acknowledged, and which has time
  left, survives it, whatever other requests did to the index before.
\<close>

theorem logout_all_revokes:
  assumes "redis_server R val dl" and "sessions_ok val st0" and "\<And>i. session_at val st0 i = None"
    and "sys_reach R L st0 y" and "i \<in> y_acked y" and "y_owner y i = Some uid"
    and "\<And>s. session_at val (y_store y) i = Some s \<Longrightarrow> rd_now R (y_store y) + L < se_absoluteExpiresAt s"
    and "delete_all_script R (userSessionsKey uid) SESSION_PREFIX (y_store y) = (r, st')"
  shows "session_at val st' i = None"
proof -
  note inv = redis_server.sys_reach_inv [OF assms(1,4,2,3)]
  have "i \<in> index_at val (y_store y) uid" if "session_at val (y_store y) i = Some s" for s
    using sys_invD(5) [OF inv that assms(5) assms(7) [OF that]] sys_invD(4) [OF inv that] assms(6)
    by (simp add: index_inv_def session_inv_def)
  with redis_server.delete_all_script_refines(2) [OF assms(1) sys_invD(1) [OF inv] assms(8)] show ?thesis
    by (cases "session_at val (y_store y) i") simp_all
qed

lemma logout_all_revokes_witness:
  "session_at ref_value demo_opened ''s1'' \<noteq> None \<and>
   session_at ref_value (snd (delete_all_script ref_redis (userSessionsKey ''u1'') SESSION_PREFIX demo_opened)) ''s1'' = None"
  using logout_all_revokes [OF ref_server.redis_server_axioms ref_init_ok ref_init_empty demo_login_reach,
      of "''s1''" "''u1''" "fst (delete_all_script ref_redis (userSessionsKey ''u1'') SESSION_PREFIX demo_opened)"
      "snd (delete_all_script ref_redis (userSessionsKey ''u1'') SESSION_PREFIX demo_opened)"]
    demo_opened_session
  by (simp add: demo_after_login_def demo_session_def)

end
