(* ===== verification/ThrottleSystem.thy ===== *)
theory ThrottleSystem
  imports LoginThrottle
begin

section \<open>Guessing against the login throttle\<close>

text \<open>
  One client guesses the password of one account, one attempt after the other, with the
  default options: a check of the lock, later the recorded failure, with time passing
  anywhere. \<open>guess_step\<close> is that system over any Redis server (\<open>tried\<close>: a check has passed
  and its failure is still to come). The invariant bounds the failures that ever count at
  once by 15 and so every lock by 512 seconds; the 15 minutes of \<open>maxDelaySeconds\<close> are
  never reached this way.
\<close>

record 'r guess =
  g_store :: 'r
  g_tried :: bool

inductive guess_step :: "'r redis \<Rightarrow> string \<Rightarrow> 'r guess \<Rightarrow> 'r guess \<Rightarrow> bool" for R and n where
  check: "\<not> g_tried g \<Longrightarrow> rd_ttl R (g_store g) (lockKey n) \<le> 0 \<Longrightarrow> guess_step R n g (g\<lparr>g_tried := True\<rparr>)"
| fail: "g_tried g \<Longrightarrow>
     record_failure_script R (failuresKey n) (lockKey n) (failureWindowSeconds default_throttle)
       (freeAttempts default_throttle) (baseDelaySeconds default_throttle)
       (maxDelaySeconds default_throttle) (g_store g) = (Inr k, st') \<Longrightarrow>
     guess_step R n g \<lparr>g_store = st', g_tried = False\<rparr>"
| success: "g_tried g \<Longrightarrow>
     guess_step R n g \<lparr>g_store = rd_del R (rd_del R (g_store g) (failuresKey n)) (lockKey n), g_tried = False\<rparr>"
| wait: "0 \<le> d \<Longrightarrow> guess_step R n g (g\<lparr>g_store := rd_pass R (g_store g) d\<rparr>)"

inductive guess_reach :: "'r redis \<Rightarrow> string \<Rightarrow> 'r \<Rightarrow> 'r guess \<Rightarrow> bool" for R and n and st0 where
  start: "guess_reach R n st0 \<lparr>g_store = st0, g_tried = False\<rparr>"
| step: "guess_reach R n st0 g \<Longrightarrow> guess_step R n g g' \<Longrightarrow> guess_reach R n st0 g'"

definition MAX_COUNTED_FAILURES :: int where
  "MAX_COUNTED_FAILURES = 15"

definition MAX_LOCK_MS :: int where
  "MAX_LOCK_MS = 512 * 1000"

text \<open>
  The earliest time, after the window opened at \<open>t1\<close>, at which the lock of the \<open>k\<close>-th
  failure (\<open>k \<ge> 6\<close>) can end: every lock before it was waited for, less the second by
  which a rounded \<open>TTL\<close> may open early.
\<close>

definition lock_floor :: "int \<Rightarrow> int \<Rightarrow> int" where
  "lock_floor t1 k = t1 + (2 ^ nat (k - 5) - 1 - (k - 6)) * 1000"

text \<open>Counter \<open>k\<close> with deadline \<open>c\<close>, lock deadline \<open>l\<close>, at time \<open>t\<close>.\<close>

definition guess_inv :: "int \<Rightarrow> int option \<Rightarrow> int option \<Rightarrow> int \<Rightarrow> bool \<Rightarrow> bool" where
  "guess_inv k c l t tried \<longleftrightarrow> 0 \<le> k \<and> k \<le> MAX_COUNTED_FAILURES \<and>
     (\<forall>d. l = Some d \<longrightarrow> d \<le> t + MAX_LOCK_MS) \<and>
     (k \<noteq> 0 \<longrightarrow> (\<exists>x. c = Some x \<and> t < x \<and> x \<le> t + 900000 \<and>
        (6 \<le> k \<longrightarrow> (if tried then lock_floor (x - 900000) k < t + 1000
          else lock_floor (x - 900000) k \<le> (case l of None \<Rightarrow> t | Some d \<Rightarrow> d)))))"

lemma lock_floor_step:
  assumes "6 \<le> k"
  shows "lock_floor t1 (k + 1) = lock_floor t1 k - 1000 + 2 ^ nat (k + 1 - 6) * 1000"
proof -
  have "nat (k + 1 - 5) = Suc (nat (k - 5))" "nat (k + 1 - 6) = nat (k - 5)"
    using assms by linarith+
  then show ?thesis
    by (simp add: lock_floor_def algebra_simps)
qed

lemma lock_floor_15: "lock_floor t1 15 = t1 + 1014000"
  by (simp add: lock_floor_def)

lemma small_power: "6 \<le> k \<Longrightarrow> k \<le> 15 \<Longrightarrow> (2::int) ^ nat (k - 6) \<le> 512"
  using power_increasing [of "nat (k - 6)" 9 "2::int"] by simp

text \<open>The arithmetic of one more failure.\<close>

lemma guess_fail:
  assumes inv: "guess_inv k c l t True"
    and c': "c' = (if k = 0 then Some (t + 900000) else c)"
    and l': "l' = lock_after default_throttle (k + 1) t l"
  shows "guess_inv (k + 1) c' l' t False"
proof -
  have k: "0 \<le> k" "k \<le> 15"
    using inv by (simp_all add: guess_inv_def MAX_COUNTED_FAILURES_def)
  obtain x where x: "c' = Some x" "t < x" "x \<le> t + 900000" "k = 0 \<Longrightarrow> x = t + 900000"
    and floor: "6 \<le> k \<Longrightarrow> lock_floor (x - 900000) k < t + 1000"
    using inv by (cases "k = 0") (auto simp: guess_inv_def c')
  have "k \<noteq> 15"
    using floor x(2) by (auto simp: lock_floor_15)
  with k have k1: "k + 1 \<le> 15" by simp
  have "lock_floor (x - 900000) (k + 1) \<le> (case l' of None \<Rightarrow> t | Some d \<Rightarrow> d)" if "6 \<le> k + 1"
  proof -
    have "l' = Some (t + 2 ^ nat (k + 1 - 6) * 1000)"
      using that small_power [of "k + 1"] k1
      by (simp add: l' lock_after_def throttle_delay_def nat_diff_distrib)
    moreover have "lock_floor (x - 900000) (k + 1) \<le> t + 2 ^ nat (k + 1 - 6) * 1000"
    proof (cases "k = 5")
      case True
      then show ?thesis using x(3) by (simp add: lock_floor_def)
    next
      case False
      with that have "6 \<le> k" by simp
      with floor lock_floor_step [OF this, of "x - 900000"] show ?thesis by simp
    qed
    ultimately show ?thesis by simp
  qed
  moreover have "d \<le> t + MAX_LOCK_MS" if "l' = Some d" for d
  proof (cases "6 \<le> k + 1")
    case True
    then show ?thesis
      using that small_power [of "k + 1"] k1
      by (auto simp: l' lock_after_def throttle_delay_def nat_diff_distrib MAX_LOCK_MS_def)
  next
    case False
    then show ?thesis
      using that inv by (simp add: l' lock_after_def guess_inv_def)
  qed
  ultimately show ?thesis
    using x k k1 by (simp add: guess_inv_def MAX_COUNTED_FAILURES_def)
qed

text \<open>Waiting: what expires only helps.\<close>

lemma guess_later:
  assumes "guess_inv k c l t tried" and "0 \<le> d"
  shows "guess_inv (if expired_at c (t + d) then 0 else k) (if expired_at c (t + d) then None else c)
    (if expired_at l (t + d) then None else l) (t + d) tried"
proof (cases "k = 0 \<or> expired_at c (t + d)")
  case True
  then show ?thesis
    using assms by (fastforce simp: guess_inv_def MAX_COUNTED_FAILURES_def)
next
  case False
  then obtain x where x: "c = Some x" "t + d < x" "x \<le> t + 900000"
    and floor: "6 \<le> k \<Longrightarrow> (if tried then lock_floor (x - 900000) k < t + 1000
          else lock_floor (x - 900000) k \<le> (case l of None \<Rightarrow> t | Some d \<Rightarrow> d))"
    and k: "0 \<le> k" "k \<le> MAX_COUNTED_FAILURES"
    using assms(1) by (auto simp: guess_inv_def)
  have "if tried then lock_floor (x - 900000) k < t + d + 1000
      else lock_floor (x - 900000) k \<le> (case if expired_at l (t + d) then None else l of None \<Rightarrow> t + d | Some d \<Rightarrow> d)"
    if "6 \<le> k"
    using floor [OF that] assms(2) by (cases l) (auto split: if_splits)
  moreover have "e \<le> t + d + MAX_LOCK_MS" if "l = Some e" for e
    using assms that by (force simp: guess_inv_def)
  ultimately show ?thesis
    using x k False assms(2) by (auto simp: guess_inv_def)
qed

context redis_server
begin

definition guess_state_ok :: "string \<Rightarrow> 'r guess \<Rightarrow> bool" where
  "guess_state_ok n g \<longleftrightarrow> throttle_ok val dl (g_store g) \<and>
     guess_inv (failures_at val (g_store g) (normalize n)) (dl (g_store g) (failuresKey n))
       (lock_at dl (g_store g) (normalize n)) (rd_now R (g_store g)) (g_tried g)"

lemma guess_check:
  assumes "guess_state_ok n g" and "\<not> g_tried g" and "rd_ttl R (g_store g) (lockKey n) \<le> 0"
  shows "guess_state_ok n (g\<lparr>g_tried := True\<rparr>)"
proof -
  have "d < rd_now R (g_store g) + 1000" if "lock_at dl (g_store g) (normalize n) = Some d" for d
    using lock_ttl(2) [of "g_store g" n d] assms that by (simp add: guess_state_ok_def)
  with assms show ?thesis
    by (cases "lock_at dl (g_store g) (normalize n)") (auto simp: guess_state_ok_def guess_inv_def)
qed

lemma guess_record:
  assumes "guess_state_ok n g" and "g_tried g"
    and run: "record_failure_script R (failuresKey n) (lockKey n) (failureWindowSeconds default_throttle)
       (freeAttempts default_throttle) (baseDelaySeconds default_throttle)
       (maxDelaySeconds default_throttle) (g_store g) = (r, st')"
  shows "guess_state_ok n \<lparr>g_store = st', g_tried = False\<rparr>"
proof -
  have ok: "throttle_ok val dl (g_store g)"
    and inv: "guess_inv (failures_at val (g_store g) (normalize n)) (dl (g_store g) (failuresKey n))
       (lock_at dl (g_store g) (normalize n)) (rd_now R (g_store g)) True"
    using assms(1,2) by (simp_all add: guess_state_ok_def)
  note vw = record_failure_views [OF ok default_throttle_valid run]
  have k': "failures_at val st' (normalize n) = failures_at val (g_store g) (normalize n) + 1"
    and c': "dl st' (failuresKey n) = (if failures_at val (g_store g) (normalize n) = 0
      then Some (rd_now R (g_store g) + 900000) else dl (g_store g) (failuresKey n))"
    and l': "lock_at dl st' (normalize n) = lock_after default_throttle
      (failures_at val (g_store g) (normalize n) + 1) (rd_now R (g_store g)) (lock_at dl (g_store g) (normalize n))"
    using vw(2,3,5) by simp_all
  from guess_fail [OF inv c' l'] vw(4,6) show ?thesis
    by (simp add: guess_state_ok_def k')
qed

lemma guess_reset:
  assumes "guess_state_ok n g"
  shows "guess_state_ok n \<lparr>g_store = rd_del R (rd_del R (g_store g) (failuresKey n)) (lockKey n), g_tried = False\<rparr>"
  using assms throttle_ok_del reset_views
  by (simp add: guess_state_ok_def guess_inv_def MAX_COUNTED_FAILURES_def)

lemma guess_pass_views:
  assumes d: "0 \<le> d"
  shows "throttle_ok val dl st \<Longrightarrow> throttle_ok val dl (rd_pass R st d)"
    and "failures_at val (rd_pass R st d) (normalize n) =
      (if expired_at (dl st (failuresKey n)) (rd_now R st + d) then 0 else failures_at val st (normalize n))"
    and "lock_at dl (rd_pass R st d) (normalize n) =
      (if expired_at (lock_at dl st (normalize n)) (rd_now R st + d) then None else lock_at dl st (normalize n))"
    and "dl (rd_pass R st d) k = (if expired_at (dl st k) (rd_now R st + d) then None else dl st k)"
proof -
  have v: "val (rd_pass R st d) k = (if expired_at (dl st k) (rd_now R st + d) then None else val st k)"
    "dl (rd_pass R st d) k = (if expired_at (dl st k) (rd_now R st + d) then None else dl st k)" for k
    by (simp_all add: val_pass [OF d] dl_pass [OF d])
  then show "throttle_ok val dl st \<Longrightarrow> throttle_ok val dl (rd_pass R st d)"
    by (auto simp: throttle_ok_def counter_ok_def)
  show "failures_at val (rd_pass R st d) (normalize n) =
      (if expired_at (dl st (failuresKey n)) (rd_now R st + d) then 0 else failures_at val st (normalize n))"
    by (simp add: failures_at_def v failuresKey_def)
  show "lock_at dl (rd_pass R st d) (normalize n) =
      (if expired_at (lock_at dl st (normalize n)) (rd_now R st + d) then None else lock_at dl st (normalize n))"
    by (simp add: lock_at_def v)
  show "dl (rd_pass R st d) k = (if expired_at (dl st k) (rd_now R st + d) then None else dl st k)"
    by (rule v)
qed

lemma guess_wait:
  assumes "guess_state_ok n g" and d: "0 \<le> d"
  shows "guess_state_ok n (g\<lparr>g_store := rd_pass R (g_store g) d\<rparr>)"
  using guess_later [OF _ d] assms(1) by (simp add: guess_state_ok_def guess_pass_views [OF d] now_pass [OF d])

theorem guess_reach_ok:
  assumes "guess_reach R n st0 g" and "throttle_ok val dl st0"
    and "failures_at val st0 (normalize n) = 0" and "lock_at dl st0 (normalize n) = None"
  shows "guess_state_ok n g"
  using assms(1)
proof induction
  case start
  with assms(2-4) show ?case
    by (simp add: guess_state_ok_def guess_inv_def MAX_COUNTED_FAILURES_def)
next
  case (step g g')
  from step(2,3) show ?case
    by cases (auto intro: guess_check guess_record guess_reset guess_wait)
qed

text \<open>
  The bound is reached: a client that waits out each lock makes 15 guesses in 511 seconds (and so
  well over a thousand a day, as a round of 15 costs it about 17 minutes). \<open>patient n t0 k\<close>:
  the state after its \<open>k\<close>-th guess.
\<close>

definition patient :: "string \<Rightarrow> int \<Rightarrow> nat \<Rightarrow> 'r \<Rightarrow> bool" where
  "patient n t0 k st \<longleftrightarrow> throttle_ok val dl st \<and> failures_at val st (normalize n) = int k \<and>
     (k \<noteq> 0 \<longrightarrow> dl st (failuresKey n) = Some (t0 + 900000)) \<and>
     lock_at dl st (normalize n) = (if k \<le> 5 then None else Some (t0 + (2 ^ (k - 5) - 1) * 1000)) \<and>
     rd_now R st = t0 + (2 ^ (k - 6) - 1) * 1000"

lemma patient_step:
  assumes "patient n t0 k st" and "k < 15" and reach: "guess_reach R n st0 \<lparr>g_store = st, g_tried = False\<rparr>"
  shows "\<exists>st'. patient n t0 (Suc k) st' \<and> guess_reach R n st0 \<lparr>g_store = st', g_tried = False\<rparr>"
proof -
  define d :: int where "d = (if k \<le> 5 then 0 else 2 ^ (k - 6) * 1000)"
  let ?st1 = "rd_pass R st d"
  have d: "0 \<le> d" by (simp add: d_def)
  have p: "throttle_ok val dl st" "failures_at val st (normalize n) = int k"
    "k \<noteq> 0 \<Longrightarrow> dl st (failuresKey n) = Some (t0 + 900000)"
    "lock_at dl st (normalize n) = (if k \<le> 5 then None else Some (t0 + (2 ^ (k - 5) - 1) * 1000))"
    "rd_now R st = t0 + (2 ^ (k - 6) - 1) * 1000"
    using assms(1) by (simp_all add: patient_def)
  have pow: "(2::int) ^ (k - 5) = (if k \<le> 5 then 1 else 2 * 2 ^ (k - 6))"
    by (cases "k \<le> 5") (auto simp flip: power_Suc simp: Suc_diff_le)
  have pow1: "k \<le> 4 \<or> (2::int) ^ (k - 4) = 2 * 2 ^ (k - 5)"
    by (cases "k \<le> 4") (auto simp flip: power_Suc simp: Suc_diff_le)
  have now1: "rd_now R ?st1 = t0 + (2 ^ (Suc k - 6) - 1) * 1000"
    unfolding now_pass [OF d] p(5) using pow by (simp add: d_def)
  have "(2::int) ^ (Suc k - 6) \<le> 2 ^ 9"
    using assms(2) by (intro power_increasing) auto
  then have early: "rd_now R ?st1 < t0 + 900000"
    by (simp add: now1)
  have v: "throttle_ok val dl ?st1" "failures_at val ?st1 (normalize n) = int k"
    "k \<noteq> 0 \<Longrightarrow> dl ?st1 (failuresKey n) = Some (t0 + 900000)" "lock_at dl ?st1 (normalize n) = None"
  proof -
    have "k = 0 \<or> \<not> expired_at (dl st (failuresKey n)) (rd_now R st + d)"
      using p(3) early by (cases "k = 0") (simp_all add: now_pass [OF d])
    then show "failures_at val ?st1 (normalize n) = int k"
      "k \<noteq> 0 \<Longrightarrow> dl ?st1 (failuresKey n) = Some (t0 + 900000)"
      using p(2,3) unfolding guess_pass_views [OF d] by auto
    have "k \<le> 5 \<or> expired_at (lock_at dl st (normalize n)) (rd_now R st + d)"
      using p(4,5) pow by (cases "k \<le> 5") (simp_all add: d_def)
    then show "lock_at dl ?st1 (normalize n) = None"
      using p(4) unfolding guess_pass_views [OF d] by auto
    show "throttle_ok val dl ?st1"
      by (rule guess_pass_views(1) [OF d p(1)])
  qed
  obtain r st2 where run: "record_failure_script R (failuresKey n) (lockKey n) (failureWindowSeconds default_throttle)
            (freeAttempts default_throttle) (baseDelaySeconds default_throttle)
            (maxDelaySeconds default_throttle) ?st1 = (r, st2)"
    by (meson surj_pair)
  note rec = record_failure_views [OF v(1) default_throttle_valid run]
  have "nat (int k + 1 - 6) = Suc k - 6"
    by linarith
  moreover have "(2::int) ^ (Suc k - 6) \<le> 900"
    using \<open>(2::int) ^ (Suc k - 6) \<le> 2 ^ 9\<close> by simp
  ultimately have lock2: "lock_at dl st2 (normalize n) =
      (if Suc k \<le> 5 then None else Some (t0 + (2 ^ (Suc k - 5) - 1) * 1000))"
    using pow1 by (auto simp: rec(3) v(2,4) now1 lock_after_def throttle_delay_def)
  have "dl st2 (failuresKey n) = Some (t0 + 900000)"
    using v(2,3) now1 by (auto simp: rec(5))
  then have "patient n t0 (Suc k) st2"
    using rec(2,4,6) v(2) now1 lock2 by (simp add: patient_def)
  moreover have "guess_reach R n st0 \<lparr>g_store = ?st1, g_tried = False\<rparr>"
    using guess_reach.step [OF reach guess_step.wait [OF d]] by simp
  then have "guess_reach R n st0 \<lparr>g_store = ?st1, g_tried = True\<rparr>"
    using guess_reach.step [OF _ guess_step.check] lock_ttl(1) [OF v(1,4)] by fastforce
  then have "guess_reach R n st0 \<lparr>g_store = st2, g_tried = False\<rparr>"
    using guess_reach.step [OF _ guess_step.fail] run rec(1) by fastforce
  ultimately show ?thesis by blast
qed

theorem fifteen_guesses_reached:
  assumes "throttle_ok val dl st0" "failures_at val st0 (normalize n) = 0" "lock_at dl st0 (normalize n) = None"
  shows "\<exists>st. guess_reach R n st0 \<lparr>g_store = st, g_tried = False\<rparr> \<and>
    failures_at val st (normalize n) = MAX_COUNTED_FAILURES \<and> rd_now R st = rd_now R st0 + 511000"
proof -
  have "k \<le> 15 \<Longrightarrow> \<exists>st. patient n (rd_now R st0) k st \<and> guess_reach R n st0 \<lparr>g_store = st, g_tried = False\<rparr>" for k
  proof (induction k)
    case 0
    have "patient n (rd_now R st0) 0 st0"
      using assms by (simp add: patient_def)
    with guess_reach.start [of R n st0] show ?case by blast
  next
    case (Suc k)
    then show ?case using patient_step by (meson Suc_le_lessD less_imp_le_nat)
  qed
  from this [of 15] show ?thesis
    by (auto simp: patient_def MAX_COUNTED_FAILURES_def)
qed

lemma guess_bounded:
  assumes "guess_reach R n st0 g" and "throttle_ok val dl st0"
    and "failures_at val st0 (normalize n) = 0" and "lock_at dl st0 (normalize n) = None"
  shows "failures_at val (g_store g) (normalize n) \<le> MAX_COUNTED_FAILURES \<and>
    (\<forall>d. lock_at dl (g_store g) (normalize n) = Some d \<longrightarrow> d \<le> rd_now R (g_store g) + MAX_LOCK_MS)"
  using guess_reach_ok [OF assms] by (simp add: guess_state_ok_def guess_inv_def)

end

subsection \<open>Properties\<close>

text \<open>The store after one wrong guess for an account nobody tried before, for the witness.\<close>

definition demo_guessed :: ref_store where
  "demo_guessed = snd (record_failure_script ref_redis (failuresKey ''bob'') (lockKey ''bob'')
     (failureWindowSeconds default_throttle) (freeAttempts default_throttle) (baseDelaySeconds default_throttle)
     (maxDelaySeconds default_throttle) ref_init)"

lemma ref_init_throttle:
  "throttle_ok ref_value ref_dl ref_init" "failures_at ref_value ref_init u = 0" "lock_at ref_dl ref_init u = None"
  by (simp_all add: throttle_ok_def counter_ok_def failures_at_def lock_at_def ref_value_def ref_dl_def
      ref_look_def ref_init_def)

lemma demo_guess_reach: "guess_reach ref_redis ''bob'' ref_init \<lparr>g_store = demo_guessed, g_tried = False\<rparr>"
proof -
  let ?g = "\<lparr>g_store = ref_init, g_tried = True\<rparr>"
  have "guess_step ref_redis ''bob'' \<lparr>g_store = ref_init, g_tried = False\<rparr> ?g"
    using guess_step.check [of "\<lparr>g_store = ref_init, g_tried = False\<rparr>" ref_redis "''bob''"]
    by (simp add: ref_ttl_def ref_look_def ref_init_def)
  moreover have "guess_step ref_redis ''bob'' ?g \<lparr>g_store = demo_guessed, g_tried = False\<rparr>"
    using guess_step.fail [of ?g ref_redis "''bob''"]
      ref_server.record_failure_views(1) [OF ref_init_throttle(1) default_throttle_valid surjective_pairing]
    by (metis demo_guessed_def guess.select_convs prod.collapse)
  ultimately show ?thesis
    using guess_reach.start guess_reach.step by metis
qed

text \<open>
  C11. One client that guesses the password of one account, with the default options: however
  it times its attempts, at most 15 failures are ever counted in one window of 15 minutes, and
  no lock ever lasts longer than 512 seconds from now (so the cap of 15 minutes on a delay is
  never reached this way); and this is what a patient client gets, 15 guesses in 511 seconds.
\<close>

theorem guessing_is_bounded:
  assumes "redis_server R val dl" and "throttle_ok val dl st0"
    and "failures_at val st0 (normalize n) = 0" and "lock_at dl st0 (normalize n) = None"
    and "guess_reach R n st0 g"
  shows "failures_at val (g_store g) (normalize n) \<le> MAX_COUNTED_FAILURES \<and>
    (\<forall>d. lock_at dl (g_store g) (normalize n) = Some d \<longrightarrow> d \<le> rd_now R (g_store g) + MAX_LOCK_MS) \<and>
    (\<exists>st. guess_reach R n st0 \<lparr>g_store = st, g_tried = False\<rparr> \<and>
      failures_at val st (normalize n) = MAX_COUNTED_FAILURES \<and> rd_now R st = rd_now R st0 + 511000)"
  using redis_server.guess_bounded [OF assms(1,5,2-4)] redis_server.fifteen_guesses_reached [OF assms(1-4)] by blast

lemma guessing_is_bounded_witness:
  "failures_at ref_value demo_guessed (normalize ''bob'') \<le> 15"
  using guessing_is_bounded [OF ref_server.redis_server_axioms ref_init_throttle(1-3) demo_guess_reach]
  by (simp add: MAX_COUNTED_FAILURES_def)

end
