(* ===== verification/Examples.thy ===== *)
theory Examples
  imports Server SessionSystem ThrottleSystem
begin

section \<open>A concrete installation\<close>

text \<open>
  The reference servers and libraries put together: a Redis store, a table with one account,
  a token library, a schema library, one digest and one password hash. The locales of the
  development are interpreted on it, so their laws can hold together, and every property has
  an instance here. (The digest is injective and hides nothing: secrecy is not among the laws.)
\<close>

definition demo_user :: user_record where
  "demo_user = \<lparr>ur_id = ''u1'', ur_name = ''Alice'', ur_username = ''Alice'', ur_passwordHash = ''correct horse'',
     ur_email = ''alice@example.org'', ur_role = Admin\<rparr>"

definition demo_sha :: "string \<Rightarrow> string" where
  "demo_sha s = CHR ''h'' # s"

definition demo_bcrypt :: "string \<Rightarrow> int \<Rightarrow> string \<Rightarrow> string" where
  "demo_bcrypt password rounds salt = password"

definition demo_compare :: "string \<Rightarrow> string \<Rightarrow> bool" where
  "demo_compare password h \<longleftrightarrow> h = password"

definition demo_env :: "string option" where
  "demo_env = Some (replicate 32 (CHR ''k''))"

definition demo_zod :: zod_lib where
  "demo_zod = ref_zod ref_email ref_number"

text \<open>An empty store; and a store with one live session of the account.\<close>

definition demo_world :: "(ref_store, user_record list) world" where
  "demo_world = \<lparr>w_redis = ref_init, w_pg = [demo_user], w_now = 0,
     w_random = (\<lambda>n. replicate (Suc n) (CHR ''r'')), w_drawn = 0, w_faults = []\<rparr>"

definition demo_live :: "(ref_store, user_record list) world" where
  "demo_live = demo_world\<lparr>w_redis := demo_store, w_now := 1000\<rparr>"

definition demo_auth :: "(ref_store, user_record list) world auth_deps" where
  "demo_auth = auth_service ref_redis ref_pg default_throttle ref_jwt demo_env demo_sha demo_compare demo_zod"

definition demo_users :: "(ref_store, user_record list) world user_deps" where
  "demo_users = user_service ref_redis ref_pg demo_bcrypt demo_zod"

interpretation demo: backend ref_redis ref_value ref_dl default_throttle ref_pg ref_rows ref_lower ref_pg_text ref_uuid
  ref_jwt demo_env demo_sha demo_compare demo_zod
  by unfold_locales

interpretation demo_accounts: account_backend ref_redis ref_value ref_dl ref_pg ref_rows ref_lower ref_pg_text ref_uuid
  demo_bcrypt demo_compare demo_zod
  by unfold_locales (simp add: demo_bcrypt_def demo_compare_def)

lemma demo_rows [simp]: "ref_rows [demo_user] = [demo_user]"
  by (simp add: ref_rows_def table_ok_def)

lemma demo_world_simps [simp]:
  "w_redis demo_world = ref_init" "w_pg demo_world = [demo_user]" "w_now demo_world = 0" "healthy demo_world"
  "w_redis demo_live = demo_store" "w_pg demo_live = [demo_user]" "w_now demo_live = 1000" "healthy demo_live"
  by (simp_all add: demo_world_def demo_live_def healthy_def)

lemma ref_init_views [simp]: "ref_value ref_init k = None" "ref_dl ref_init k = None" "rf_now ref_init = 0"
  by (simp_all add: ref_value_def ref_dl_def ref_look_def ref_init_def)

lemma demo_empty:
  "session_at ref_value ref_init = (\<lambda>_. None)" "failures_at ref_value ref_init = (\<lambda>_. 0)"
  "lock_at ref_dl ref_init = (\<lambda>_. None)" "profile_at ref_value ref_init = (\<lambda>_. None)"
  by (simp_all add: session_at_def failures_at_def lock_at_def profile_at_def fun_eq_iff)

lemma demo_world_ok: "stores_ok ref_value ref_dl demo_world"
  using ref_init_ok by (simp add: stores_ok_def throttle_ok_def counter_ok_def cache_ok_def)

lemma demo_sign [simp]:
  "\<exists>tk. signAccessToken ref_jwt demo_env sub i role w = (Inr tk, w)"
  by (simp add: signAccessToken_apply getSecret_def demo_env_def MIN_SECRET_LENGTH_def)

lemma demo_user_simps [simp]:
  "ur_id demo_user = ''u1''" "ur_username demo_user = ''Alice''" "ur_passwordHash demo_user = ''correct horse''"
  "ur_role demo_user = Admin"
  by (simp_all add: demo_user_def)

lemma demo_pg_text [simp]: "ref_pg_text ''alice''" "ref_uuid ''u1''"
  by (simp_all add: ref_pg_text_def ref_uuid_def)

lemma demo_live_ok: "sessions_ok ref_value (w_redis demo_live)"
  by (simp add: demo_store_ok)

lemma demo_secret: "getSecret demo_env = Inr (replicate 32 (CHR ''k''))"
  by (simp add: getSecret_def demo_env_def MIN_SECRET_LENGTH_def)

text \<open>A request that carries the access token of the example's session, just signed.\<close>

definition demo_access :: string where
  "demo_access = jwt_sign ref_jwt ''s1'' ''admin'' (replicate 32 (CHR ''k'')) (signing_options ''u1'') 1000"

definition demo_request :: request where
  "demo_request = \<lparr>rq_authorization = Some (''Bearer '' @ demo_access), rq_body = None, rq_query = None,
     rq_ip = Some ''10.0.0.7'', rq_userId = None, rq_sessionId = None, rq_userRole = None\<rparr>"

lemma demo_header: "auth_header_parts (the (rq_authorization demo_request)) = (''Bearer'', Some demo_access)"
  by code_simp

lemma demo_authenticated:
  "\<exists>w'. authentication (verifyAccessToken ref_jwt demo_env) (session_get ref_redis) demo_request demo_live =
     (Inr (demo_request\<lparr>rq_userId := Some ''u1'', rq_sessionId := Some ''s1'', rq_userRole := Some ''admin''\<rparr>), w')"
proof -
  have ver: "verifyAccessToken ref_jwt demo_env demo_access demo_live =
      (Inr \<lparr>at_subject = ''u1'', at_sessionId = ''s1'', at_role = ''admin''\<rparr>, demo_live)"
    using ref_jwt.own_token_accepted [OF demo_secret, of "''u1''" "''s1''" demo_live 1000 Admin]
    by (simp add: demo_access_def)
  obtain w' where "session_get ref_redis ''s1'' demo_live = (Inr (Some demo_session), w')"
    using ref_server.session_get_laws(6) [OF demo_live_ok surjective_pairing, of "''s1''"]
    by (simp add: demo_store_session prod_eq_iff)
  moreover have "\<not> js_falsy (rq_authorization demo_request)" "\<not> js_falsy (Some demo_access)"
    by code_simp+
  ultimately show ?thesis
    unfolding authentication_def demo_header
    by (simp add: act_simps ver) (simp add: demo_session_def)
qed

end
