(* ===== verification/AccountProperties.thy ===== *)
theory AccountProperties
  imports Examples
begin

section \<open>What the user service promises, end to end\<close>

text \<open>
  Registration, profile and listing, wired to any Redis server and any PostgreSQL server with
  the documented behaviour (\<open>account_backend\<close>), with witnesses on the installation of
  \<open>Examples\<close>.
\<close>

definition demo_registration :: "json option" where
  "demo_registration = Some (JObj [(''username'', JStr ''bob''), (''name'', JStr ''Bob B.''),
     (''email'', JStr ''Bob@Example.org''), (''password'', JStr ''twelve chars'')])"

lemma demo_registered: "fst (service_createUser demo_users demo_registration demo_world) = Inr ''rr''"
  by code_simp

text \<open>
  C15. A registration that answers with an identifier added exactly one row, for that identifier:
  with the checked name and address, the role \<open>User\<close> whatever the body says, and a hash that
  the password matches; before it no account had that name (in any case) or that address.
\<close>

theorem registration_adds_account:
  assumes "account_backend R val dl P rows lower pg_text uuid bcrypt compare"
    and "service_createUser (user_service R P bcrypt Z) raw w = (Inr i, w')"
  shows "\<exists>n name p m h xs ys. create_fields Z raw = Inr (n, name, p, m) \<and> compare p h \<and>
    rows (w_pg w) = xs @ ys \<and>
    rows (w_pg w') = xs @ \<lparr>ur_id = i, ur_name = name, ur_username = n, ur_passwordHash = h, ur_email = m,
      ur_role = User\<rparr> # ys \<and>
    (\<forall>u \<in> set (rows (w_pg w)). lower (ur_username u) \<noteq> lower n \<and> ur_email u \<noteq> m)"
  by (rule account_backend.service_register [OF assms])

lemma registration_adds_account_witness:
  "length (ref_rows (w_pg (snd (service_createUser demo_users demo_registration demo_world)))) = 2"
proof -
  obtain w' where run: "service_createUser demo_users demo_registration demo_world = (Inr ''rr'', w')"
    using demo_registered by (metis prod.collapse)
  from registration_adds_account [OF demo_accounts.account_backend_axioms run [unfolded demo_users_def]]
  have "length (ref_rows (w_pg w')) = Suc (length (ref_rows (w_pg demo_world)))"
    by (auto simp del: demo_world_simps)
  then show ?thesis by (simp add: run)
qed

text \<open>
  C16. A refused registration is refused for a reason: when the answer is a 409, no row has changed,
  and the message is true: an account with that name (in any case), or with that address,
  exists, even when another request created it between the checks and the insert.
\<close>

theorem registration_conflict_is_real:
  assumes "account_backend R val dl P rows lower pg_text uuid bcrypt compare"
    and "create_fields Z raw = Inr (n, name, p, m)"
    and "service_createUser (user_service R P bcrypt Z) raw w = (Inl (ConflictError msg), w')"
  shows "rows (w_pg w') = rows (w_pg w) \<and>
    (msg = ''Username already taken.'' \<and> (\<exists>u \<in> set (rows (w_pg w)). lower (ur_username u) = lower n) \<or>
     msg = ''Email already registered.'' \<and> (\<exists>u \<in> set (rows (w_pg w)). ur_email u = m))"
  using account_backend.service_register_conflict [OF assms] by simp

definition demo_duplicate :: "json option" where
  "demo_duplicate = Some (JObj [(''username'', JStr ''ALICE''), (''name'', JStr ''Alice A.''),
     (''email'', JStr ''other@example.org''), (''password'', JStr ''twelve chars'')])"

lemma registration_conflict_is_real_witness:
  "\<exists>w'. service_createUser demo_users demo_duplicate demo_world = (Inl (ConflictError ''Username already taken.''), w') \<and>
     ref_rows (w_pg w') = [demo_user]"
proof -
  have c: "create_fields demo_zod demo_duplicate = Inr (''ALICE'', ''Alice A.'', ''twelve chars'', ''other@example.org'')"
    by code_simp
  have "fst (service_createUser demo_users demo_duplicate demo_world) = Inl (ConflictError ''Username already taken.'')"
    by code_simp
  then obtain w' where run: "service_createUser demo_users demo_duplicate demo_world =
      (Inl (ConflictError ''Username already taken.''), w')"
    by (metis prod.collapse)
  from registration_conflict_is_real [OF demo_accounts.account_backend_axioms c run [unfolded demo_users_def]] run
  show ?thesis by auto
qed



text \<open>
  C19. A page of the listing is that slice of the table: the rows from the offset on, at most the
  limit and never more than 100 of them, without their password hashes, together with the
  size of the whole table; a limit or offset out of range never gets this far.
\<close>

theorem listing_is_a_slice:
  assumes "account_backend R val dl P rows lower pg_text uuid bcrypt compare" and "zod_library Z email num"
    and "service_listUsers (user_service R P bcrypt Z) raw w = (Inr res, w')"
  shows "1 \<le> ls_limit res \<and> ls_limit res \<le> 100 \<and> 0 \<le> ls_offset res \<and>
    ls_items res = map toPublicUser (take (nat (ls_limit res)) (drop (nat (ls_offset res)) (rows (w_pg w)))) \<and>
    ls_total res = length (rows (w_pg w))"
  using account_backend.service_list [OF assms(1,3)] zod_library.page_fields_bounds [OF assms(2)]
  by (fastforce simp: MAX_PAGE_LIMIT_def)

lemma listing_is_a_slice_witness:
  "\<exists>res w'. service_listUsers demo_users (Some (JObj [(''limit'', JStr ''5'')])) demo_world = (Inr res, w') \<and>
     ls_limit res = 5 \<and> ls_items res = [toPublicUser demo_user]"
proof -
  have "isl (fst (service_listUsers demo_users (Some (JObj [(''limit'', JStr ''5'')])) demo_world)) = False"
    "ls_limit (projr (fst (service_listUsers demo_users (Some (JObj [(''limit'', JStr ''5'')])) demo_world))) = 5"
    "ls_offset (projr (fst (service_listUsers demo_users (Some (JObj [(''limit'', JStr ''5'')])) demo_world))) = 0"
    by code_simp+
  then obtain res w' where run: "service_listUsers demo_users (Some (JObj [(''limit'', JStr ''5'')])) demo_world = (Inr res, w')"
    and page: "ls_limit res = 5" "ls_offset res = 0"
    by (metis isl_def prod.collapse sum.collapse(2))
  from listing_is_a_slice [OF demo_accounts.account_backend_axioms ref_zod.zod_library_axioms
      run [unfolded demo_users_def demo_zod_def]] run page
  show ?thesis by simp
qed

end
