(* ===== verification/ApiDocument.thy ===== *)
theory ApiDocument
  imports Controllers
begin

section \<open>The API's description\<close>

text \<open>
  \<open>src/docs/openapi.ts\<close>, the document that \<open>/docs\<close> shows, as the JSON value it is, path by
  path. The readers below it give
  the operation of a method and a path, its documented statuses, whether it asks for an
  access token, and whether a value conforms to one of its schemas.
\<close>

definition userPublicSchema :: json where
  "userPublicSchema =
   JObj [
     (''type'', JStr ''object''),
     (''properties'', JObj [
       (''id'', JObj [(''type'', JStr ''string''), (''format'', JStr ''uuid'')]),
       (''name'', JObj [(''type'', JStr ''string'')]),
       (''username'', JObj [(''type'', JStr ''string'')]),
       (''email'', JObj [(''type'', JStr ''string''), (''format'', JStr ''email'')]),
       (''role'', JObj [(''type'', JStr ''string''), (''enum'', JArr [JStr ''user'', JStr ''admin''])])])]"

definition errorSchema :: json where
  "errorSchema =
   JObj [
     (''type'', JStr ''object''),
     (''properties'', JObj [(''error'', JObj [(''type'', JStr ''string'')])])]"

definition apiRateLimited429 :: json where
  "apiRateLimited429 =
   JObj [
     (''description'', JStr ''Too many requests from this IP across /v1 endpoints (100 req/min)''),
     (''content'', JObj [(''application/json'', JObj [(''schema'', errorSchema)])])]"

definition metaRateLimited429 :: json where
  "metaRateLimited429 =
   JObj [
     (''description'', JStr ''Too many requests to this endpoint from this IP (60 req/min)''),
     (''content'', JObj [(''application/json'', JObj [(''schema'', errorSchema)])])]"

definition path_root :: json where
  "path_root =
   JObj [
     (''get'', JObj [
       (''summary'', JStr (''Root '' @ EM_DASH @ '' server is running'')),
       (''responses'', JObj [(''200'', JObj [(''description'', JStr ''Server is running'')])])])]"

definition path_health :: json where
  "path_health =
   JObj [
     (''get'', JObj [
       (''summary'', JStr (''Liveness probe '' @ EM_DASH @ '' no dependency checks'')),
       (''responses'', JObj [(''200'', JObj [(''description'', JStr ''Always ok if the process can respond'')])])])]"

definition path_ready :: json where
  "path_ready =
   JObj [
     (''get'', JObj [
       (''summary'', JStr (''Readiness probe '' @ EM_DASH @ '' checks PostgreSQL and Redis'')),
       (''responses'', JObj [
         (''200'', JObj [(''description'', JStr ''Both dependencies reachable'')]),
         (''429'', metaRateLimited429),
         (''503'', JObj [(''description'', JStr ''At least one dependency is unreachable'')])])])]"

definition path_metrics :: json where
  "path_metrics =
   JObj [
     (''get'', JObj [
       (''summary'', JStr ''Prometheus metrics''),
       (''description'', JStr (''Default Node.js process metrics plus an HTTP request duration '' @
         ''histogram labeled by method, route, and status code. Requires '' @
         [CHR 0x60] @ ''Authorization: Bearer <METRICS_TOKEN>'' @ [CHR 0x60] @ '' when METRICS_TOKEN is '' @
         ''set; without it, open in development and 404 in production.'')),
       (''security'', JArr [JObj [(''metricsToken'', JArr [])]]),
       (''responses'', JObj [
         (''200'', JObj [(''description'', JStr ''Metrics in Prometheus text exposition format'')]),
         (''401'', JObj [
           (''description'', JStr ''Missing or wrong metrics token''),
           (''content'', JObj [(''application/json'', JObj [(''schema'', errorSchema)])])]),
         (''404'', JObj [
           (''description'', JStr ''Production with no METRICS_TOKEN configured''),
           (''content'', JObj [(''application/json'', JObj [(''schema'', errorSchema)])])]),
         (''429'', metaRateLimited429)])])]"

definition path_users :: json where
  "path_users =
   JObj [
     (''post'', JObj [
       (''summary'', JStr ''Create a new user''),
       (''requestBody'', JObj [
         (''required'', JBool True),
         (''content'', JObj [
           (''application/json'', JObj [
             (''schema'', JObj [
               (''type'', JStr ''object''),
               (''required'', JArr [JStr ''name'', JStr ''username'', JStr ''email'', JStr ''password'']),
               (''properties'', JObj [
                 (''name'', JObj [
                   (''type'', JStr ''string''),
                   (''minLength'', JNum 2),
                   (''maxLength'', JNum 100)]),
                 (''username'', JObj [
                   (''type'', JStr ''string''),
                   (''minLength'', JNum 3),
                   (''maxLength'', JNum 30)]),
                 (''email'', JObj [(''type'', JStr ''string''), (''format'', JStr ''email'')]),
                 (''password'', JObj [
                   (''type'', JStr ''string''),
                   (''minLength'', JNum 12),
                   (''maxLength'', JNum 72),
                   (''description'', JStr (''Capped at 72 characters '' @ EM_DASH @ '' bcrypt silently truncates '' @
                     ''anything longer.''))])])])])])]),
       (''responses'', JObj [
         (''201'', JObj [(''description'', JStr ''User created successfully'')]),
         (''400'', JObj [
           (''description'', JStr (''A required field is missing or fails validation '' @
             ''(username/name/password length, email format)'')),
           (''content'', JObj [(''application/json'', JObj [(''schema'', errorSchema)])])]),
         (''409'', JObj [
           (''description'', JStr ''Username already taken, or email already registered''),
           (''content'', JObj [(''application/json'', JObj [(''schema'', errorSchema)])])]),
         (''429'', apiRateLimited429)])])]"

definition path_login :: json where
  "path_login =
   JObj [
     (''post'', JObj [
       (''summary'', JStr ''Authenticate a user''),
       (''description'', JStr (''Usernames match case-insensitively. Failed attempts are counted '' @
         ''per account: after 5 failures within 15 minutes, each further '' @
         ''failure imposes an exponentially growing delay (1s, 2s, 4s, '' @ ELLIPSIS @ '' '' @
         ''capped at 15 min) '' @ EM_DASH @ '' not a fixed lockout. A successful login '' @
         ''clears the counter.'')),
       (''requestBody'', JObj [
         (''required'', JBool True),
         (''content'', JObj [
           (''application/json'', JObj [
             (''schema'', JObj [
               (''type'', JStr ''object''),
               (''required'', JArr [JStr ''username'', JStr ''password'']),
               (''properties'', JObj [
                 (''username'', JObj [(''type'', JStr ''string'')]),
                 (''password'', JObj [(''type'', JStr ''string'')])])])])])]),
       (''responses'', JObj [
         (''200'', JObj [
           (''description'', JStr (''Login successful, returns a short-lived access token, a '' @
             ''long-lived refresh token, and the user profile''))]),
         (''400'', JObj [
           (''description'', JStr ''Missing username or password''),
           (''content'', JObj [(''application/json'', JObj [(''schema'', errorSchema)])])]),
         (''401'', JObj [
           (''description'', JStr ''Invalid credentials''),
           (''content'', JObj [(''application/json'', JObj [(''schema'', errorSchema)])])]),
         (''429'', JObj [
           (''description'', JStr (''Too many login requests from this IP (20 per 15 min), or '' @
             ''this account is in a failed-login backoff (sends a '' @
             [CHR 0x60] @ ''Retry-After'' @ [CHR 0x60] @ '' header with the remaining seconds)'')),
           (''headers'', JObj [
             (''Retry-After'', JObj [
               (''description'', JStr ''Seconds until the account backoff ends''),
               (''schema'', JObj [(''type'', JStr ''integer'')])])]),
           (''content'', JObj [(''application/json'', JObj [(''schema'', errorSchema)])])])])])]"

definition path_refresh :: json where
  "path_refresh =
   JObj [
     (''post'', JObj [
       (''summary'', JStr ''Rotate an access/refresh token pair''),
       (''description'', JStr (''Exchanges a valid refresh token for a new access/refresh pair. '' @
         ''The rotation is an atomic compare-and-swap in Redis. The old '' @
         ''refresh token stops working immediately. Presenting it again '' @
         ''within 30 s of its rotation is treated as a benign concurrent '' @
         ''refresh (409, session kept); later than that, as theft '' @ EM_DASH @ '' the '' @
         ''whole session is deleted (reuse detection). The role is re-read '' @
         ''from PostgreSQL on every refresh, and a session can never be '' @
         ''refreshed past 30 days after login (absolute lifetime).'')),
       (''requestBody'', JObj [
         (''required'', JBool True),
         (''content'', JObj [
           (''application/json'', JObj [
             (''schema'', JObj [
               (''type'', JStr ''object''),
               (''required'', JArr [JStr ''refreshToken'']),
               (''properties'', JObj [(''refreshToken'', JObj [(''type'', JStr ''string'')])])])])])]),
       (''responses'', JObj [
         (''200'', JObj [(''description'', JStr ''A new access token and a new refresh token'')]),
         (''400'', JObj [
           (''description'', JStr ''Missing refresh token''),
           (''content'', JObj [(''application/json'', JObj [(''schema'', errorSchema)])])]),
         (''401'', JObj [
           (''description'', JStr (''Malformed, unknown, expired, or reused refresh token, or '' @
             ''the user no longer exists'')),
           (''content'', JObj [(''application/json'', JObj [(''schema'', errorSchema)])])]),
         (''409'', JObj [
           (''description'', JStr (''This token was rotated by a concurrent request less than '' @
             ''30 s ago. The session is still alive: retry with the newest '' @
             ''refresh token the client holds.'')),
           (''content'', JObj [(''application/json'', JObj [(''schema'', errorSchema)])])]),
         (''429'', JObj [
           (''description'', JStr ''Too many refresh attempts for this session (10 per 15 min)''),
           (''content'', JObj [(''application/json'', JObj [(''schema'', errorSchema)])])])])])]"

definition path_logout :: json where
  "path_logout =
   JObj [
     (''post'', JObj [
       (''summary'', JStr (''Revoke the caller'' @ [CHR 0x27] @ ''s current session'')),
       (''description'', JStr (''Deletes the session from Redis, taking effect immediately '' @ EM_DASH @ '' the '' @
         ''access token used to authenticate this call is rejected on its '' @
         ''very next use, even though it has not expired yet.'')),
       (''security'', JArr [JObj [(''bearerAuth'', JArr [])]]),
       (''responses'', JObj [
         (''200'', JObj [(''description'', JStr ''Logout successful'')]),
         (''401'', JObj [
           (''description'', JStr ''Missing, invalid, or already-revoked token''),
           (''content'', JObj [(''application/json'', JObj [(''schema'', errorSchema)])])]),
         (''429'', apiRateLimited429)])])]"

definition path_logout_all :: json where
  "path_logout_all =
   JObj [
     (''post'', JObj [
       (''summary'', JStr ''Revoke every session of the caller (log out everywhere)''),
       (''description'', JStr (''Deletes all of the user'' @ [CHR 0x27] @ ''s sessions '' @ EM_DASH @ '' on every device '' @ EM_DASH @ '' via the '' @
         ''per-user session index in Redis. Every access token and refresh '' @
         ''token issued to this user stops working immediately.'')),
       (''security'', JArr [JObj [(''bearerAuth'', JArr [])]]),
       (''responses'', JObj [
         (''200'', JObj [
           (''description'', JStr ''All sessions revoked''),
           (''content'', JObj [
             (''application/json'', JObj [
               (''schema'', JObj [
                 (''type'', JStr ''object''),
                 (''properties'', JObj [
                   (''message'', JObj [(''type'', JStr ''string'')]),
                   (''revokedSessions'', JObj [(''type'', JStr ''integer'')])])])])])]),
         (''401'', JObj [
           (''description'', JStr ''Missing, invalid, or already-revoked token''),
           (''content'', JObj [(''application/json'', JObj [(''schema'', errorSchema)])])]),
         (''429'', apiRateLimited429)])])]"

definition path_users_me :: json where
  "path_users_me =
   JObj [
     (''get'', JObj [
       (''summary'', JStr (''Get the authenticated user'' @ [CHR 0x27] @ ''s own profile'')),
       (''security'', JArr [JObj [(''bearerAuth'', JArr [])]]),
       (''responses'', JObj [
         (''200'', JObj [
           (''description'', JStr (''The user profile. Served from the Redis cache on a hit; '' @
             ''on a miss, read from PostgreSQL and the cache is '' @
             ''repopulated (true read-through cache).'')),
           (''content'', JObj [(''application/json'', JObj [(''schema'', userPublicSchema)])])]),
         (''401'', JObj [
           (''description'', JStr ''Missing, invalid, or revoked token''),
           (''content'', JObj [(''application/json'', JObj [(''schema'', errorSchema)])])]),
         (''404'', JObj [
           (''description'', JStr ''The user does not exist in PostgreSQL''),
           (''content'', JObj [(''application/json'', JObj [(''schema'', errorSchema)])])]),
         (''429'', apiRateLimited429)])])]"

definition path_admin_users :: json where
  "path_admin_users =
   JObj [
     (''get'', JObj [
       (''summary'', JStr ''List all users (admin only)''),
       (''description'', JStr (''Role-based access control: the caller'' @ [CHR 0x27] @ ''s access token must carry '' @
         [CHR 0x60] @ ''role: '' @ [CHR 0x22] @ ''admin'' @ [CHR 0x22] @ [CHR 0x60] @ '', read from PostgreSQL at login and on every '' @
         ''refresh. There is no self-service way to become an admin '' @ EM_DASH @ '' see '' @
         ''the README.'')),
       (''security'', JArr [JObj [(''bearerAuth'', JArr [])]]),
       (''parameters'', JArr [JObj [
           (''name'', JStr ''limit''),
           (''in'', JStr ''query''),
           (''required'', JBool False),
           (''description'', JStr ''Page size (default 20, max 100)''),
           (''schema'', JObj [(''type'', JStr ''integer''), (''minimum'', JNum 1), (''maximum'', JNum 100)])], JObj [
           (''name'', JStr ''offset''),
           (''in'', JStr ''query''),
           (''required'', JBool False),
           (''description'', JStr ''Number of rows to skip (default 0)''),
           (''schema'', JObj [(''type'', JStr ''integer''), (''minimum'', JNum 0)])]]),
       (''responses'', JObj [
         (''200'', JObj [
           (''description'', JStr ''A page of users, ordered by creation time then id''),
           (''content'', JObj [
             (''application/json'', JObj [
               (''schema'', JObj [
                 (''type'', JStr ''object''),
                 (''properties'', JObj [
                   (''items'', JObj [(''type'', JStr ''array''), (''items'', userPublicSchema)]),
                   (''total'', JObj [(''type'', JStr ''integer'')]),
                   (''limit'', JObj [(''type'', JStr ''integer'')]),
                   (''offset'', JObj [(''type'', JStr ''integer'')])])])])])]),
         (''400'', JObj [
           (''description'', JStr ''Invalid limit/offset''),
           (''content'', JObj [(''application/json'', JObj [(''schema'', errorSchema)])])]),
         (''401'', JObj [
           (''description'', JStr ''Missing, invalid, or revoked token''),
           (''content'', JObj [(''application/json'', JObj [(''schema'', errorSchema)])])]),
         (''403'', JObj [
           (''description'', JStr ''Authenticated, but not an admin''),
           (''content'', JObj [(''application/json'', JObj [(''schema'', errorSchema)])])]),
         (''429'', apiRateLimited429)])])]"

definition openapi_paths :: "(string \<times> json) list" where
  "openapi_paths = [
    (''/'', path_root),
    (''/health'', path_health),
    (''/ready'', path_ready),
    (''/metrics'', path_metrics),
    (''/v1/users'', path_users),
    (''/v1/login'', path_login),
    (''/v1/auth/refresh'', path_refresh),
    (''/v1/auth/logout'', path_logout),
    (''/v1/auth/logout-all'', path_logout_all),
    (''/v1/users/me'', path_users_me),
    (''/v1/admin/users'', path_admin_users)]"

definition openapiSpec :: json where
  "openapiSpec =
   JObj [
     (''openapi'', JStr ''3.0.3''),
     (''info'', JObj [
       (''title'', JStr ''Node.js + Redis + PostgreSQL REST API''),
       (''version'', JStr ''3.0.0''),
       (''description'', JStr (''User registration, JWT access/refresh authentication with Redis-backed '' @
         ''session revocation, role-based access control, and a separate Redis '' @
         ''read-through profile cache. Business endpoints are versioned under '' @
         ''/v1; /health, /ready, /metrics, and /docs are not.''))]),
     (''servers'', JArr [JObj [(''url'', JStr ''/'')]]),
     (''components'', JObj [
       (''securitySchemes'', JObj [
         (''bearerAuth'', JObj [
           (''type'', JStr ''http''),
           (''scheme'', JStr ''bearer''),
           (''bearerFormat'', JStr ''JWT'')]),
         (''metricsToken'', JObj [
           (''type'', JStr ''http''),
           (''scheme'', JStr ''bearer''),
           (''description'', JStr ''The static METRICS_TOKEN configured on the server.'')])]),
       (''schemas'', JObj [(''UserPublic'', userPublicSchema), (''Error'', errorSchema)])]),
     (''paths'', (JObj openapi_paths))]"

subsection \<open>Reading the document\<close>

fun verb_key :: "verb \<Rightarrow> string" where
  "verb_key GET = ''get''"
| "verb_key POST = ''post''"

fun doc_get :: "string \<Rightarrow> json option \<Rightarrow> json option" where
  "doc_get k (Some (JObj ob)) = js_field ob k"
| "doc_get k _ = None"

definition doc_operation :: "verb \<Rightarrow> string \<Rightarrow> json option" where
  "doc_operation m path = doc_get (verb_key m) (doc_get path (doc_get ''paths'' (Some openapiSpec)))"

fun doc_keys :: "json option \<Rightarrow> string list" where
  "doc_keys (Some (JObj ob)) = map fst ob"
| "doc_keys _ = []"

definition doc_statuses :: "json \<Rightarrow> string list" where
  "doc_statuses op = doc_keys (doc_get ''responses'' (Some op))"

definition doc_secured :: "json \<Rightarrow> bool" where
  "doc_secured op \<longleftrightarrow> doc_get ''security'' (Some op) = Some (JArr [JObj [(''bearerAuth'', JArr [])]])"

definition doc_body_schema :: "json \<Rightarrow> json option" where
  "doc_body_schema op = doc_get ''schema'' (doc_get ''application/json'' (doc_get ''content''
     (doc_get ''requestBody'' (Some op))))"

text \<open>Conformance to a schema of the kinds the document uses for bodies (a format is not checked).\<close>

fun doc_bound :: "(int \<Rightarrow> int \<Rightarrow> bool) \<Rightarrow> string \<Rightarrow> json \<Rightarrow> int \<Rightarrow> bool" where
  "doc_bound rel k sch n = (case doc_get k (Some sch) of Some (JNum b) \<Rightarrow> rel b n | _ \<Rightarrow> True)"

fun conforms_text :: "json \<Rightarrow> json \<Rightarrow> bool" where
  "conforms_text sch (JStr s) =
     (doc_get ''type'' (Some sch) = Some (JStr ''string'') \<and>
      doc_bound (\<le>) ''minLength'' sch (int (length s)) \<and> doc_bound (\<ge>) ''maxLength'' sch (int (length s)))"
| "conforms_text sch _ = False"

definition conforms_object :: "json \<Rightarrow> (string \<times> json) list \<Rightarrow> bool" where
  "conforms_object sch ob \<longleftrightarrow>
     (case doc_get ''required'' (Some sch) of
        Some (JArr ks) \<Rightarrow> (\<forall>k \<in> set ks. case k of JStr s \<Rightarrow> js_field ob s \<noteq> None | _ \<Rightarrow> False)
      | _ \<Rightarrow> True) \<and>
     (\<forall>k \<in> set (doc_keys (doc_get ''properties'' (Some sch))).
        case js_field ob k of None \<Rightarrow> True
        | Some v \<Rightarrow> conforms_text (the (doc_get k (doc_get ''properties'' (Some sch)))) v)"

end
