(* ===== verification/HttpProperties.thy ===== *)
theory HttpProperties
  imports Examples
begin

section \<open>What the routes promise\<close>

text \<open>
  The router on the two servers. The rate limiters' library \<open>hit\<close> is only assumed to do
  what its configuration says: it writes keys under its own prefix \<open>rl:\<close> and nothing else.
\<close>

definition rate_key :: "string \<Rightarrow> bool" where
  "rate_key k \<longleftrightarrow> take 3 k = ''rl:''"

definition limiter_store ::
  "'r redis \<Rightarrow> ('r \<Rightarrow> string \<Rightarrow> rval option) \<Rightarrow> ('r \<Rightarrow> string \<Rightarrow> int option) \<Rightarrow>
   (string \<Rightarrow> int \<Rightarrow> int \<Rightarrow> (('r, 'p) world, exn, bool) act) \<Rightarrow> bool" where
  "limiter_store R val dl hit \<longleftrightarrow> (\<forall>k n m w r w'. hit k n m w = (r, w') \<longrightarrow>
     unchanged (rd_now R) val dl rate_key (w_redis w) (w_redis w') \<and> w_pg w' = w_pg w \<and> w_now w' = w_now w \<and>
     (\<forall>e. r = Inl e \<longrightarrow> \<not> is_AppError e))"

lemma rate_keys [simp]: "\<not> rate_key (sessionKey i)" "\<not> rate_key (userSessionsKey u)"
  by (simp_all add: rate_key_def key_defs)

lemma hit_frame:
  assumes "limiter_store R val dl hit" and "hit k n m w = (r, w')"
  shows "session_at val (w_redis w') = session_at val (w_redis w)" "index_at val (w_redis w') = index_at val (w_redis w)"
    "sessions_ok val (w_redis w') = sessions_ok val (w_redis w)" "w_pg w' = w_pg w" "w_now w' = w_now w"
    "r = Inl e \<Longrightarrow> \<not> is_AppError e"
proof -
  have u: "unchanged (rd_now R) val dl rate_key (w_redis w) (w_redis w')"
    and o: "w_pg w' = w_pg w" "w_now w' = w_now w" "\<forall>e. r = Inl e \<longrightarrow> \<not> is_AppError e"
    using assms by (auto simp: limiter_store_def)
  from session_view [OF u] show "session_at val (w_redis w') = session_at val (w_redis w)"
    "index_at val (w_redis w') = index_at val (w_redis w)" "sessions_ok val (w_redis w') = sessions_ok val (w_redis w)"
    by simp_all
  from o show "w_pg w' = w_pg w" "w_now w' = w_now w" "r = Inl e \<Longrightarrow> \<not> is_AppError e"
    by simp_all
qed

text \<open>The authentication reads one session and changes nothing.\<close>

lemma authentication_reads:
  assumes "authentication (verifyAccessToken J env) (session_get R) rq w = (r, w')"
  shows "w' = w \<or> (\<exists>i x. session_get R i w = (x, w'))"
  using assms
  by (auto simp: authentication_def andthen_def verifyAccessToken_apply Let_def
      split: if_splits prod.splits sum.splits option.splits)

lemma authentication_frame:
  assumes "redis_server R val dl" and "sessions_ok val (w_redis w)"
    and "authentication (verifyAccessToken J env) (session_get R) rq w = (r, w')"
  shows "session_at val (w_redis w') = session_at val (w_redis w) \<and> index_at val (w_redis w') = index_at val (w_redis w) \<and>
    w_pg w' = w_pg w"
  using authentication_reads [OF assms(3)] redis_server.session_get_laws(1,2) [OF assms(1,2)] session_ops_frame(1)
  by metis

definition protected_routes :: "(verb \<times> string) set" where
  "protected_routes = {(POST, ''/auth/logout''), (POST, ''/auth/logout-all''), (GET, ''/users/me''), (GET, ''/admin/users'')}"

text \<open>A protected route is its limiter, the authentication, and then some handler.\<close>

lemma protected_chain:
  assumes "(m, path) \<in> protected_routes"
  obtains h where "v1_chain A m path = Some (authenticated A h)"
  using assms by (auto simp: protected_routes_def)

text \<open>What can happen to a request for a protected route.\<close>

lemma protected_route_cases:
  assumes "v1_chain A m path = Some (authenticated A h)" and "v1_route A m path rq w = (resp, w')"
  obtains (limit_failed) e where "ap_hit A (li_prefix (apiRateLimiter A) @ li_key (apiRateLimiter A) rq)
      (li_windowMs (apiRateLimiter A)) (li_max (apiRateLimiter A)) w = (Inl e, w')" "resp = errorHandler e"
  | (limited) "ap_hit A (li_prefix (apiRateLimiter A) @ li_key (apiRateLimiter A) rq)
      (li_windowMs (apiRateLimiter A)) (li_max (apiRateLimiter A)) w = (Inr False, w')" "status resp = 429"
  | (rejected) w1 e where "ap_hit A (li_prefix (apiRateLimiter A) @ li_key (apiRateLimiter A) rq)
      (li_windowMs (apiRateLimiter A)) (li_max (apiRateLimiter A)) w = (Inr True, w1)"
      "authentication (ap_verify A) (ap_get A) rq w1 = (Inl e, w')" "resp = errorHandler e"
  | (passed) w1 rq' w2 where "ap_hit A (li_prefix (apiRateLimiter A) @ li_key (apiRateLimiter A) rq)
      (li_windowMs (apiRateLimiter A)) (li_max (apiRateLimiter A)) w = (Inr True, w1)"
      "authentication (ap_verify A) (ap_get A) rq w1 = (Inr rq', w2)" "asyncHandler (h rq') w2 = (resp, w')"
proof -
  let ?hit = "ap_hit A (li_prefix (apiRateLimiter A) @ li_key (apiRateLimiter A) rq)
      (li_windowMs (apiRateLimiter A)) (li_max (apiRateLimiter A)) w"
  obtain r1 w1 where hit: "?hit = (r1, w1)" by (meson surj_pair)
  have run: "asyncHandler (rate_limited (ap_hit A) (apiRateLimiter A) (authenticated A h) rq) w = (resp, w')"
    using assms by (simp add: v1_route_def rate_limited_def)
  show thesis
  proof (cases r1)
    case (Inl e)
    with run hit show thesis
      by (intro limit_failed) (auto simp: asyncHandler_def rate_limited_def act_simps)
  next
    case (Inr within)
    show thesis
    proof (cases within)
      case False
      with run hit Inr show thesis
        by (intro limited) (auto simp: asyncHandler_def rate_limited_def act_simps json_response_def)
    next
      case True
      obtain r2 w2 where auth: "authentication (ap_verify A) (ap_get A) rq w1 = (r2, w2)" by (meson surj_pair)
      show thesis
      proof (cases r2)
        case (Inl e)
        with run hit Inr True auth show thesis
          by (intro rejected) (auto simp: asyncHandler_def rate_limited_def authenticated_def act_simps)
      next
        case rq': (Inr rq')
        with run hit Inr True auth show thesis
          by (intro passed) (auto simp: asyncHandler_def rate_limited_def authenticated_def act_simps)
      qed
    qed
  qed
qed

lemma session_get_never_AppError: "session_get R i w = (Inl e, w') \<Longrightarrow> \<not> is_AppError e"
  unfolding session_get_def
  by (erule andthen_InlE, drule redis_call_error, force)
    (auto split: option.splits if_splits sum.splits)

lemma authentication_status:
  assumes "authentication (verifyAccessToken J env) (session_get R) rq w = (Inl e, w')"
  shows "status (errorHandler e) \<in> {401, 500}"
proof -
  have "statusCode e' = Some 401" if "verifyAccessToken J env t w = (Inl e', w')" for t w e' w'
    using that by (auto simp: verifyAccessToken_apply split: sum.splits)
  from authentication_Inl [OF assms this session_get_never_AppError] show ?thesis
    by (cases e) (auto simp: errorHandler_def Let_def)
qed

lemma other_error_status: "\<not> is_AppError e \<Longrightarrow> status (errorHandler e) = 500"
  by (cases e) (auto simp: errorHandler_def)


text \<open>
  C24. The admin listing is for admins: a request that gets it (a 200) carries an access token that was
  signed for the role \<open>admin\<close>, for a session which is alive and belongs to the token's user.
\<close>

theorem admin_route_needs_admin:
  assumes "redis_server R val dl" and "jwt_library J" and "limiter_store R val dl hit"
    and "sessions_ok val (w_redis w)"
    and "v1_route (createRouter R P J env sha bcrypt compare Z hit ipKey limits) GET ''/admin/users'' rq w = (resp, w')"
    and "status resp = 200"
  shows "\<exists>token u i s. auth_header_parts (the (rq_authorization rq)) = (''Bearer'', Some token) \<and>
      signed_for J env (w_now w) token u i ''admin'' \<and> session_at val (w_redis w) i = Some s \<and> se_userId s = u"
proof -
  let ?A = "createRouter R P J env sha bcrypt compare Z hit ipKey limits"
  have "v1_chain ?A GET ''/admin/users'' = Some (authenticated ?A (\<lambda>request.
     andthen (requireRole Admin request) (ListUsersController_handle (ap_user ?A))))"
    by simp
  then show ?thesis
    using assms(5)
  proof (cases rule: protected_route_cases)
    case (limit_failed e)
    with hit_frame(6) [OF assms(3), of _ _ _ w "Inl e" w'] assms(6) show ?thesis
      by (simp add: other_error_status)
  next
    case limited
    with assms(6) show ?thesis by simp
  next
    case (rejected w1 e)
    with authentication_status [OF rejected(2) [unfolded createRouter_simps]] assms(6) show ?thesis
      by auto
  next
    case (passed w1 rq' w2)
    note f = hit_frame [OF assms(3), of _ _ _ w "Inr True" w1, OF passed(1) [unfolded createRouter_simps]]
    have "rq_userRole rq' = Some ''admin''"
    proof (rule ccontr)
      assume "\<not> ?thesis"
      with passed(3) have "resp = errorHandler (ForbiddenError ''You do not have access to this resource.'')"
        by (simp add: asyncHandler_def requireRole_def)
      with assms(6) show False
        by (simp add: errorHandler_def)
    qed
    moreover obtain token u i r s where "auth_header_parts (the (rq_authorization rq)) = (''Bearer'', Some token)"
      "signed_for J env (w_now w1) token u i r" "session_at val (w_redis w1) i = Some s" "se_userId s = u"
      "rq' = rq\<lparr>rq_userId := Some u, rq_sessionId := Some i, rq_userRole := Some r\<rparr>"
      using authenticated_session [OF assms(1,2) _ passed(2) [unfolded createRouter_simps]] f(3) assms(4) by blast
    ultimately show ?thesis
      using f(1,5) by simp blast
  qed
qed

text \<open>The installation's router, with limiters that let everything through.\<close>

definition demo_app :: "(ref_store, user_record list) world app" where
  "demo_app = createRouter ref_redis ref_pg ref_jwt demo_env demo_sha demo_bcrypt demo_compare demo_zod
     (\<lambda>k n m. ret True) (\<lambda>a. a) DEFAULT_RATE_LIMITS"

lemma demo_limiter: "limiter_store ref_redis ref_value ref_dl (\<lambda>k n m. ret True)"
  by (simp add: limiter_store_def)


lemma admin_route_needs_admin_witness:
  "status (fst (v1_route demo_app GET ''/admin/users'' (demo_request\<lparr>rq_query := Some (JObj [])\<rparr>) demo_live)) = 200 \<and>
   (\<exists>token u i. signed_for ref_jwt demo_env 1000 token u i ''admin'')"
proof -
  have 200: "status (fst (v1_route demo_app GET ''/admin/users'' (demo_request\<lparr>rq_query := Some (JObj [])\<rparr>) demo_live)) = 200"
    by code_simp
  with admin_route_needs_admin [OF ref_server.redis_server_axioms ref_jwt.jwt_library_axioms demo_limiter demo_live_ok
      surjective_pairing, of ref_pg demo_env demo_sha demo_bcrypt demo_compare demo_zod "\<lambda>a. a"
      DEFAULT_RATE_LIMITS "demo_request\<lparr>rq_query := Some (JObj [])\<rparr>"]
  show ?thesis
    unfolding demo_app_def [symmetric] by auto
qed

text \<open>
  C40. A refresh request without a body, or whose token is a number, an object or \<open>true\<close>, is answered
  with the generic 500 for a server error, not with the 400 or 401 of the API's description:
  reading the field, or splitting the value, throws a \<open>TypeError\<close>.
\<close>

theorem refresh_without_token_text_is_500:
  assumes "rq_body rq = None \<or> rq_body rq = Some JNull \<or>
    (\<exists>ob j. rq_body rq = Some (JObj ob) \<and> js_field ob ''refreshToken'' = Some j \<and> js_truthy (Some j) \<and>
       (\<forall>s. j \<noteq> JStr s) \<and> (\<forall>xs. j \<noteq> JArr xs))"
  shows "asyncHandler (RefreshTokenController_handle A rq) w =
    (json_response 500 (error_body ''Internal server error.''), w)"
  using assms
  by (auto simp: asyncHandler_def RefreshTokenController_handle_def body_refreshToken_def errorHandler_def
      json_response_def auth_refresh_def split_value_def split: json.splits)

lemma refresh_without_token_text_is_500_witness:
  "status (fst (asyncHandler (RefreshTokenController_handle demo_auth demo_request) demo_world)) = 500"
  using refresh_without_token_text_is_500 [of demo_request demo_auth demo_world]
  by (simp add: demo_request_def json_response_def)

end
