(* ===== verification/Responses.thy ===== *)
theory Responses
  imports Server
begin

section \<open>Which errors an operation can throw\<close>

text \<open>
  For every operation of the program, over arbitrary servers and under every failure of the
  network, the status codes of the \<open>AppError\<close>s it can throw: \<open>errs (codes C) m\<close>. An error
  that is no \<open>AppError\<close> is always possible (a call can fail) and becomes a 500. The lemmas
  follow the composition of the program: calls, repositories, services, middleware, chains.
\<close>

definition codes :: "int set \<Rightarrow> exn \<Rightarrow> bool" where
  "codes C e \<longleftrightarrow> (\<forall>c. statusCode e = Some c \<longrightarrow> c \<in> C)"

lemma codes_simps [simp]:
  "codes C (ValidationError m) \<longleftrightarrow> 400 \<in> C" "codes C (UnauthorizedError m) \<longleftrightarrow> 401 \<in> C"
  "codes C (ForbiddenError m) \<longleftrightarrow> 403 \<in> C" "codes C (NotFoundError m) \<longleftrightarrow> 404 \<in> C"
  "codes C (ConflictError m) \<longleftrightarrow> 409 \<in> C" "codes C (TooManyRequestsError m n) \<longleftrightarrow> 429 \<in> C"
  "codes C (RedisError m)" "codes C (PgError m k)" "codes C (JsError m)"
  by (simp_all add: codes_def)

lemma codes_not_AppError: "\<not> is_AppError e \<Longrightarrow> codes C e"
  by (cases e) simp_all

named_theorems thrown \<open>what an operation can throw\<close>

lemma errs_mono: "errs P m \<Longrightarrow> (\<And>e. P e \<Longrightarrow> Q e) \<Longrightarrow> errs Q m"
  by (auto simp: errs_def)

lemma errs_lift_sum [errs_intros]: "(\<And>e. r = Inl e \<Longrightarrow> Q e) \<Longrightarrow> errs Q (lift_sum r)"
  by (cases r) (simp_all add: errs_def)

lemma errs_prod [errs_intros]: "(\<And>a b. x = (a, b) \<Longrightarrow> errs Q (f a b)) \<Longrightarrow> errs Q (case x of (a, b) \<Rightarrow> f a b)"
  by (cases x) simp

lemma errs_sum [errs_intros]:
  "(\<And>e. x = Inl e \<Longrightarrow> errs Q (f e)) \<Longrightarrow> (\<And>a. x = Inr a \<Longrightarrow> errs Q (g a)) \<Longrightarrow> errs Q (case_sum f g x)"
  by (cases x) simp_all

subsection \<open>Calls and repositories\<close>

lemma errs_calls [thrown]:
  "errs (codes C) (redis_call c)" "errs (codes C) (redis_multi cs)" "errs (codes C) (pg_call q)"
  "errs (codes C) (pg_read q')" "errs (codes C) draw" "errs (codes C) date_now"
  by (auto simp: errs_def redis_call_def redis_multi_def pg_read_def pg_call_def draw_def date_now_def Let_def
      split: prod.splits fault.splits sum.splits)

lemma errs_promise_all2: "errs Q m \<Longrightarrow> errs Q n \<Longrightarrow> errs Q (promise_all2 m n)"
  unfolding errs_def by (auto simp: promise_all2_def split: prod.splits sum.splits)

lemma errs_sessions [thrown]:
  "errs (codes C) (session_get R i)" "errs (codes C) (session_create R i s)" "errs (codes C) (session_rotate R i u p)"
  "errs (codes C) (session_delete R i u)" "errs (codes C) (session_deleteAllForUser R u)"
  unfolding session_get_def session_create_def session_rotate_def session_delete_def session_deleteAllForUser_def
    execOrThrow_def Let_def
  by (intro errs_intros thrown codes_simps)+

lemma errs_throttle [thrown]:
  "429 \<in> C \<Longrightarrow> errs (codes C) (assertNotThrottled R n)" "errs (codes C) (recordFailure R th n)"
  "errs (codes C) (throttle_reset R n)"
  unfolding assertNotThrottled_def recordFailure_def throttle_reset_def
  by ((intro errs_intros thrown; simp)+)

lemma errs_users [thrown]:
  "errs (codes C) (user_findByUsername P n)" "errs (codes C) (user_findById P i)"
  "errs (codes C) (user_existsByUsername P n)" "errs (codes C) (user_existsByEmail P m)"
  "errs (codes C) (user_listPaginated P l k)"
  unfolding user_findByUsername_def user_findById_def user_existsByUsername_def user_existsByEmail_def
    user_listPaginated_def
  by (intro errs_intros thrown errs_promise_all2)+

lemma errs_user_create [thrown]: "409 \<in> C \<Longrightarrow> errs (codes C) (user_create P u)"
proof (rule errsI)
  fix w e w'
  assume "409 \<in> C" and run: "user_create P u w = (Inl e, w')"
  moreover have "codes C e'" if "pg_call q w1 = (Inl e', w2)" for q :: "'p \<Rightarrow> (pg_error + unit) \<times> 'p" and e' w1 w2
    using errs_calls(3) that by (rule errsD)
  ultimately show "codes C e"
    by (auto simp: user_create_def attempt_def split: prod.splits sum.splits if_splits exn.splits option.splits)
qed

lemma errs_cache [thrown]:
  "errs (codes C) (cache_getUserProfile R i)" "errs (codes C) (cache_setUserProfile R i u n)"
  unfolding cache_getUserProfile_def cache_setUserProfile_def
  by (intro errs_intros thrown; simp split: sum.splits)+


subsection \<open>Services\<close>

lemma errs_parse: "parseOrThrow Z sch i = Inl e \<Longrightarrow> 400 \<in> C \<Longrightarrow> codes C e"
  by (auto simp: parseOrThrow_def split: sum.splits list.splits)

lemma errs_fields:
  "login_credentials Z i = Inl e \<Longrightarrow> 400 \<in> C \<Longrightarrow> codes C e"
  "create_fields Z i = Inl e \<Longrightarrow> 400 \<in> C \<Longrightarrow> codes C e"
  "page_fields Z i = Inl e \<Longrightarrow> 400 \<in> C \<Longrightarrow> codes C e"
  by (auto simp: login_credentials_def create_fields_def page_fields_def errs_parse
      split: sum.splits option.splits)

lemma errs_tokens [thrown]:
  "errs (codes C) (generateRefreshToken sha)" "errs (codes C) (signAccessToken J env u i r)"
  "401 \<in> C \<Longrightarrow> errs (codes C) (verifyAccessToken J env t)"
proof -
  have "codes C e" if "getSecret env = Inl e" for e
    using that by (auto simp: getSecret_def split: option.splits if_splits)
  then show "errs (codes C) (signAccessToken J env u i r)"
    unfolding signAccessToken_def by (intro errs_intros thrown)
  show "errs (codes C) (generateRefreshToken sha)"
    unfolding generateRefreshToken_def by (intro errs_intros thrown)
  show "401 \<in> C \<Longrightarrow> errs (codes C) (verifyAccessToken J env t)"
    unfolding verifyAccessToken_def by (rule errs_attempt) (simp add: errs_def)
qed

lemma errs_login [thrown]:
  assumes "{400, 401, 429} \<subseteq> C"
  shows "errs (codes C) (auth_login (auth_service R P th J env sha compare Z) raw)"
proof -
  have "errs (codes C) (open_session (auth_service R P th J env sha compare Z) n u)" for n u
    unfolding open_session_def Let_def auth_service_simps session_repo_simps throttle_service_simps cache_repo_simps
    by (intro errs_intros thrown)
  with assms show ?thesis
    unfolding auth_login_def Let_def auth_service_simps throttle_service_simps user_repo_simps
    by (intro errs_intros thrown) (auto intro: errs_fields)
qed

lemma errs_outcome [errs_intros]:
  "errs Q a \<Longrightarrow> errs Q b \<Longrightarrow> errs Q c \<Longrightarrow> errs Q d \<Longrightarrow> errs Q (case_rotate_outcome a b c d x)"
  by (cases x) simp_all

lemma errs_refresh [thrown]:
  assumes "{400, 401, 409} \<subseteq> C"
  shows "errs (codes C) (auth_refresh (auth_service R P th J env sha compare Z) raw)"
proof -
  have "codes C e" if "split_value v = Inl e" for v e
    using that by (auto simp: split_value_def Let_def split: json.splits if_splits)
  with assms show ?thesis
    unfolding auth_refresh_def auth_service_simps session_repo_simps user_repo_simps
    by (intro errs_intros thrown) auto
qed

lemma errs_logout [thrown]:
  assumes "401 \<in> C"
  shows "errs (codes C) (auth_logout (auth_service R P th J env sha compare Z) i u)"
    "errs (codes C) (auth_logoutAll (auth_service R P th J env sha compare Z) u)"
  unfolding auth_logout_def auth_logoutAll_def auth_service_simps session_repo_simps
  by (intro errs_intros thrown, simp add: assms)+

lemma errs_createUser [thrown]:
  assumes "{400, 409} \<subseteq> C"
  shows "errs (codes C) (service_createUser (user_service R P bcrypt Z) raw)"
  unfolding service_createUser_def user_service_simps user_repo_simps
  using assms by (intro errs_intros thrown) (auto intro: errs_fields)

lemma errs_getUserProfile [thrown]:
  assumes "404 \<in> C"
  shows "errs (codes C) (service_getUserProfile (user_service R P bcrypt Z) u)"
  unfolding service_getUserProfile_def readCachedProfile_def Let_def user_service_simps user_repo_simps
    cache_repo_simps
  using assms by (intro errs_intros thrown) auto

lemma errs_listUsers [thrown]:
  assumes "400 \<in> C"
  shows "errs (codes C) (service_listUsers (user_service R P bcrypt Z) raw)"
  unfolding service_listUsers_def user_service_simps user_repo_simps
  using assms by (intro errs_intros thrown) (auto intro: errs_fields)

subsection \<open>Middleware\<close>

lemma errs_authentication [thrown]:
  assumes "401 \<in> C"
  shows "errs (codes C) (authentication (verifyAccessToken J env) (session_get R) rq)"
  unfolding authentication_def Let_def case_prod_unfold
  using assms by (intro errs_intros thrown) auto

lemma errs_requireRole [thrown]: "403 \<in> C \<Longrightarrow> errs (codes C) (requireRole role rq)"
  unfolding requireRole_def by (intro errs_intros) auto

subsection \<open>Responses\<close>

text \<open>
  \<open>replies ok C m\<close>: a handler that returns answers with the status \<open>ok\<close>, or with a status in
  \<open>C\<close> and an error text; and what it throws is an \<open>AppError\<close> with a status in \<open>C\<close>, or no
  \<open>AppError\<close>.
\<close>

definition replies :: "int \<Rightarrow> int set \<Rightarrow> ('w, exn, response) act \<Rightarrow> bool" where
  "replies ok C m \<longleftrightarrow> errs (codes C) m \<and>
     (\<forall>w r w'. m w = (Inr r, w') \<longrightarrow> status r = ok \<or> status r \<in> C \<and> (\<exists>msg. body r = error_body msg))"

named_theorems replies_intros \<open>composition of replies\<close>

lemma replies_andthen:
  "errs (codes C) m \<Longrightarrow> (\<And>a. replies ok C (f a)) \<Longrightarrow> replies ok C (andthen m f)"
  unfolding replies_def by (blast intro: errs_andthen elim: andthen_InrE)

lemma replies_ok: "replies ok C (ret (json_response ok j))"
  by (simp add: replies_def errs_ret json_response_def)

lemma replies_429: "429 \<in> C \<Longrightarrow> replies ok C (ret (json_response 429 (error_body msg)))"
  by (auto simp: replies_def errs_ret json_response_def)

lemma replies_rate_limited:
  assumes "\<And>k n m. errs (\<lambda>e. \<not> is_AppError e) (hit k n m)" and "429 \<in> C" and "replies ok C (rest rq)"
  shows "replies ok C (rate_limited hit l rest rq)"
proof -
  have "errs (codes C) (hit k n m)" for k n m
    using assms(1) codes_not_AppError by (rule errs_mono)
  with assms(2,3) show ?thesis
    unfolding rate_limited_def by (intro replies_andthen) (simp_all add: replies_429)
qed

lemma replies_controllers:
  "{400, 409} \<subseteq> C \<Longrightarrow> replies 201 C (CreateUserController_handle (user_service R P bcrypt Z) rq)"
  "404 \<in> C \<Longrightarrow> replies 200 C (GetUserInfoController_handle (user_service R P bcrypt Z) rq)"
  "400 \<in> C \<Longrightarrow> replies 200 C (ListUsersController_handle (user_service R P bcrypt Z) rq)"
  "{400, 401, 429} \<subseteq> C \<Longrightarrow>
     replies 200 C (LoginUserController_handle (auth_service R P th J env sha compare Z) rq)"
  "401 \<in> C \<Longrightarrow> replies 200 C (LogoutController_handle (auth_service R P th J env sha compare Z) rq)"
  "401 \<in> C \<Longrightarrow> replies 200 C (LogoutAllController_handle (auth_service R P th J env sha compare Z) rq)"
  unfolding CreateUserController_handle_def GetUserInfoController_handle_def ListUsersController_handle_def
    LoginUserController_handle_def LogoutController_handle_def LogoutAllController_handle_def
  by (intro replies_andthen replies_ok thrown; assumption)+

lemma replies_refresh:
  assumes "{400, 401, 409} \<subseteq> C"
  shows "replies 200 C (RefreshTokenController_handle (auth_service R P th J env sha compare Z) rq)"
proof -
  have "codes C e" if "body_refreshToken rq = Inl e" for e
    using that by (auto simp: body_refreshToken_def split: option.splits json.splits)
  with assms show ?thesis
    unfolding RefreshTokenController_handle_def
    by (intro replies_andthen replies_ok thrown errs_lift_sum)
qed

lemma replies_authenticated:
  assumes "401 \<in> C" and "\<And>rq'. replies ok C (h rq')"
  shows "replies ok C (authenticated (createRouter R P J env sha bcrypt compare Z hit ipKey limits) h rq)"
  unfolding authenticated_def createRouter_simps
  using assms by (intro replies_andthen thrown)

text \<open>What a client sees behind the error handler.\<close>

lemma asyncHandler_replies:
  assumes "replies ok C m" and "asyncHandler m w = (resp, w')"
  shows "status resp = ok \<or> status resp \<in> insert 500 C \<and> (\<exists>msg. body resp = error_body msg)"
proof (cases "m w")
  case (Pair r w1)
  show ?thesis
  proof (cases r)
    case (Inl e)
    with assms Pair have "codes C e"
      by (auto simp: replies_def dest: errsD)
    with assms(2) Pair Inl show ?thesis
      by (cases e) (auto simp: asyncHandler_def errorHandler_def Let_def)
  next
    case (Inr x)
    with assms Pair show ?thesis
      by (auto simp: asyncHandler_def replies_def)
  qed
qed

text \<open>The statuses of every route of the router.\<close>

definition route_statuses :: "verb \<Rightarrow> string \<Rightarrow> (int \<times> int set) option" where
  "route_statuses m path = map_of
     [((POST, ''/users''), 201, {400, 409, 429}), ((POST, ''/login''), 200, {400, 401, 429}),
      ((POST, ''/auth/refresh''), 200, {400, 401, 409, 429}), ((POST, ''/auth/logout''), 200, {401, 429}),
      ((POST, ''/auth/logout-all''), 200, {401, 429}), ((GET, ''/users/me''), 200, {401, 404, 429}),
      ((GET, ''/admin/users''), 200, {400, 401, 403, 429})] (m, path)"

lemma v1_chain_replies:
  assumes hit: "\<And>k n m. errs (\<lambda>e. \<not> is_AppError e) (hit k n m)"
    and "v1_chain (createRouter R P J env sha bcrypt compare Z hit ipKey limits) m path = Some chain"
  shows "\<exists>ok C. route_statuses m path = Some (ok, C) \<and> 429 \<in> C \<and> replies ok C (chain rq)"
proof -
  have "replies 200 {400, 401, 403, 429} (andthen (requireRole Admin rq')
      (ListUsersController_handle (user_service R P bcrypt Z)))" for rq' :: request
    by (intro replies_andthen thrown replies_controllers) simp_all
  with assms(2) show ?thesis
    unfolding v1_chain_def createRouter_simps route_statuses_def
    by (auto split: if_splits intro!: replies_controllers replies_refresh replies_rate_limited [OF hit] replies_authenticated)
qed

lemma v1_route_replies:
  assumes hit: "\<And>k n m. errs (\<lambda>e. \<not> is_AppError e) (hit k n m)"
    and "v1_route (createRouter R P J env sha bcrypt compare Z hit ipKey limits) m path rq w = (resp, w')"
  shows "case route_statuses m path of
      Some (ok, C) \<Rightarrow> status resp = ok \<or> status resp \<in> insert 500 C \<and> (\<exists>msg. body resp = error_body msg)
    | None \<Rightarrow> status resp \<in> {404, 429, 500}"
proof (cases "v1_chain (createRouter R P J env sha bcrypt compare Z hit ipKey limits) m path")
  case None
  have "replies 404 {429} (rate_limited hit l (\<lambda>rq. ret NOT_FOUND) rq)" for l
    unfolding NOT_FOUND_def by (intro replies_rate_limited [OF hit] replies_ok) simp
  from asyncHandler_replies [OF this] assms(2) None have "status resp \<in> {404, 429, 500}"
    by (fastforce simp: v1_route_def)
  moreover have "route_statuses m path = None"
    using None by (auto simp: v1_chain_def route_statuses_def split: if_splits)
  ultimately show ?thesis by simp
next
  case (Some chain)
  from v1_chain_replies [OF hit Some, of rq] obtain ok C where
    rs: "route_statuses m path = Some (ok, C)" and "429 \<in> C" "replies ok C (chain rq)"
    by blast
  then have "replies ok C (rate_limited hit l (\<lambda>rq. case v1_chain (createRouter R P J env sha bcrypt compare Z hit ipKey limits) m path of
      None \<Rightarrow> ret NOT_FOUND | Some c \<Rightarrow> c rq) rq)" for l
    by (intro replies_rate_limited [OF hit]) (simp_all add: Some)
  from asyncHandler_replies [OF this] assms(2) rs show ?thesis
    by (simp add: v1_route_def)
qed

end
