(* ===== verification/DocumentProperties.thy ===== *)
theory DocumentProperties
  imports ApiDocument HttpProperties Responses
begin

section \<open>The program against the description of its API\<close>

text \<open>
  The routes and statuses of the program are those its own document promises, operation by
  operation; and the bodies the document allows are accepted.
\<close>

lemma doc_operation_paths: "doc_operation m path = doc_get (verb_key m) (js_field openapi_paths path)"
  by (simp add: doc_operation_def openapiSpec_def)

text \<open>The operations of the document, with what it says of them.\<close>

definition documented :: "((verb \<times> string) \<times> bool \<times> string list) list" where
  "documented =
     [((GET, ''/''), False, [''200'']), ((GET, ''/health''), False, [''200'']),
      ((GET, ''/ready''), False, [''200'', ''429'', ''503'']),
      ((GET, ''/metrics''), False, [''200'', ''401'', ''404'', ''429'']),
      ((POST, ''/v1/users''), False, [''201'', ''400'', ''409'', ''429'']),
      ((POST, ''/v1/login''), False, [''200'', ''400'', ''401'', ''429'']),
      ((POST, ''/v1/auth/refresh''), False, [''200'', ''400'', ''401'', ''409'', ''429'']),
      ((POST, ''/v1/auth/logout''), True, [''200'', ''401'', ''429'']),
      ((POST, ''/v1/auth/logout-all''), True, [''200'', ''401'', ''429'']),
      ((GET, ''/v1/users/me''), True, [''200'', ''401'', ''404'', ''429'']),
      ((GET, ''/v1/admin/users''), True, [''200'', ''400'', ''401'', ''403'', ''429''])]"

definition doc_entry :: "verb \<Rightarrow> string \<Rightarrow> (bool \<times> string list) option" where
  "doc_entry m path = map_option (\<lambda>op. (doc_secured op, doc_statuses op)) (doc_operation m path)"

lemma documented_paths:
  "path \<in> set (map fst openapi_paths) \<longleftrightarrow> path \<in> (snd \<circ> fst) ` set documented"
  by (simp add: openapi_paths_def documented_def)

lemma documented_entries: "\<forall>x \<in> set openapi_paths. \<forall>m \<in> {GET, POST}. doc_entry m (fst x) = map_of documented (m, fst x)"
  by code_simp

lemma doc_entry_documented: "doc_entry m path = map_of documented (m, path)"
proof (cases "path \<in> set (map fst openapi_paths)")
  case True
  then show ?thesis
    using documented_entries by (cases m) auto
next
  case False
  then have "js_field openapi_paths path = None"
    by (simp add: js_field_def map_of_eq_None_iff)
  then have "doc_entry m path = None"
    by (cases m) (simp_all add: doc_entry_def doc_operation_paths)
  moreover have "map_of documented (m, path) = None"
    using False unfolding documented_paths by (force simp: map_of_eq_None_iff)
  ultimately show ?thesis by simp
qed

lemma doc_operation_cases:
  "(case doc_operation m path of
      Some op \<Rightarrow> map_of documented (m, path) = Some (doc_secured op, doc_statuses op)
    | None \<Rightarrow> map_of documented (m, path) = None)"
  using doc_entry_documented [of m path] by (auto simp: doc_entry_def split: option.split)

definition v1_operations :: "(verb \<times> string) list" where
  "v1_operations =
     [(POST, ''/users''), (POST, ''/login''), (POST, ''/auth/refresh''), (POST, ''/auth/logout''),
      (POST, ''/auth/logout-all''), (GET, ''/users/me''), (GET, ''/admin/users'')]"

lemma v1_chain_operations: "v1_chain A m path \<noteq> None \<longleftrightarrow> (m, path) \<in> set v1_operations"
  by (auto simp: v1_chain_def v1_operations_def)

lemma documented_v1: "map_of documented (m, ''/v1'' @ path) \<noteq> None \<longleftrightarrow> (m, path) \<in> set v1_operations"
proof -
  have "map_of documented (m, ''/v1'' @ path) \<noteq> None \<longleftrightarrow> (m, ''/v1'' @ path) \<in> fst ` set documented"
    by (simp add: map_of_eq_None_iff)
  also have "\<dots> \<longleftrightarrow> (m, path) \<in> set v1_operations"
    by (cases m) (simp_all add: documented_def v1_operations_def)
  finally show ?thesis .
qed

definition meta_endpoints :: "string list" where
  "meta_endpoints = [''/'', ''/health'', ''/ready'', ''/metrics'']"

lemma documented_meta:
  assumes "take 4 meta \<noteq> ''/v1/''"
  shows "map_of documented (m, meta) \<noteq> None \<longleftrightarrow> m = GET \<and> meta \<in> set meta_endpoints"
proof -
  have "\<forall>x \<in> fst ` set documented. take 4 (snd x) = ''/v1/'' \<or> fst x = GET \<and> snd x \<in> set meta_endpoints"
    "\<forall>p \<in> set meta_endpoints. (GET, p) \<in> fst ` set documented"
    by code_simp+
  moreover have "map_of documented (m, meta) \<noteq> None \<longleftrightarrow> (m, meta) \<in> fst ` set documented"
    by (simp add: map_of_eq_None_iff)
  ultimately show ?thesis
    using assms by (metis fst_conv snd_conv)
qed

lemma meta_chain_endpoints: "meta_chain S meta \<noteq> None \<longleftrightarrow> meta \<in> set meta_endpoints"
  by (simp add: meta_chain_def meta_endpoints_def)

lemma documented_security:
  "\<forall>x \<in> set v1_operations. case map_of documented (fst x, ''/v1'' @ snd x) of
     Some (b, ss) \<Rightarrow> b \<longleftrightarrow> x \<in> protected_routes | None \<Rightarrow> False"
  unfolding protected_routes_def by code_simp

lemma doc_operation_None: "doc_operation m path \<noteq> None \<longleftrightarrow> map_of documented (m, path) \<noteq> None"
  using doc_operation_cases [of m path] by (simp split: option.splits)


subsection \<open>Statuses\<close>

lemma documented_statuses:
  "\<forall>x \<in> set v1_operations. case (route_statuses (fst x) (snd x), map_of documented (fst x, ''/v1'' @ snd x)) of
     (Some (ok, C), Some (b, ss)) \<Rightarrow> ok < 400 \<and> (\<lambda>c. js_digits (nat c)) ` insert ok C = set ss
   | _ \<Rightarrow> False"
  by code_simp

lemma route_statuses_operations: "route_statuses m path \<noteq> None \<longleftrightarrow> (m, path) \<in> set v1_operations"
proof -
  have "route_statuses m path \<noteq> None \<longleftrightarrow> v1_chain undefined m path \<noteq> None"
    by (auto simp: route_statuses_def v1_chain_def)
  then show ?thesis by (simp only: v1_chain_operations)
qed

text \<open>A response of the router, against the description of its operation.\<close>

lemma v1_route_documented:
  assumes hit: "\<And>k n m. errs (\<lambda>e. \<not> is_AppError e) (hit k n m)"
    and run: "v1_route (createRouter R P J env sha bcrypt compare Z hit ipKey limits) m path rq w = (resp, w')"
  shows "case doc_operation m (''/v1'' @ path) of
      Some op \<Rightarrow> (js_digits (nat (status resp)) \<in> set (doc_statuses op) \<or> status resp = 500) \<and>
        (400 \<le> status resp \<longrightarrow> (\<exists>msg. body resp = error_body msg))
    | None \<Rightarrow> status resp \<in> {404, 429, 500}"
proof (cases "(m, path) \<in> set v1_operations")
  case True
  with documented_statuses obtain ok C b ss where st: "route_statuses m path = Some (ok, C)"
    and d: "map_of documented (m, ''/v1'' @ path) = Some (b, ss)"
    and ok: "ok < 400" "set ss = (\<lambda>c. js_digits (nat c)) ` insert ok C"
    by (fastforce split: option.splits prod.splits)
  from d obtain op where op: "doc_operation m (''/v1'' @ path) = Some op" "doc_statuses op = ss"
    using doc_operation_cases [of m "''/v1'' @ path"] by (auto split: option.splits)
  from v1_route_replies [OF hit run] st
  have "status resp = ok \<or> status resp \<in> insert 500 C \<and> (\<exists>msg. body resp = error_body msg)"
    by simp
  with op ok show ?thesis by auto
next
  case False
  then have "route_statuses m path = None" "doc_operation m (''/v1'' @ path) = None"
    using route_statuses_operations documented_v1 doc_operation_None by blast+
  with v1_route_replies [OF hit run] show ?thesis by simp
qed

text \<open>A response of a meta endpoint.\<close>

definition meta_statuses :: "string \<Rightarrow> int set" where
  "meta_statuses path =
     (if path = ''/ready'' then {200, 429, 503} else if path = ''/metrics'' then {200, 401, 404, 429} else {200})"

lemma documented_meta_statuses:
  "\<forall>p \<in> set meta_endpoints. case map_of documented (GET, p) of
     Some (b, ss) \<Rightarrow> (\<lambda>c. js_digits (nat c)) ` meta_statuses p = set ss | None \<Rightarrow> False"
  by code_simp

lemma status_limited:
  assumes hit: "\<And>k n m. errs (\<lambda>e. \<not> is_AppError e) (hit k n m)" and "429 \<in> C"
    and rest: "errs (codes C) (rest rq)" "\<And>w r w'. rest rq w = (Inr r, w') \<Longrightarrow> status r \<in> C"
    and run: "asyncHandler (rate_limited hit l rest rq) w = (resp, w')"
  shows "status resp \<in> insert 500 C"
proof -
  have "errs (codes C) (hit k n m)" for k n m
    using hit codes_not_AppError by (rule errs_mono)
  then have e: "errs (codes C) (rate_limited hit l rest rq)"
    unfolding rate_limited_def by (intro errs_intros rest)
  show ?thesis
  proof (cases "rate_limited hit l rest rq w")
    case (Pair r w1)
    show ?thesis
    proof (cases r)
      case (Inl x)
      with e Pair have "codes C x" by (auto dest: errsD)
      with run Pair Inl show ?thesis
        by (cases x) (auto simp: asyncHandler_def errorHandler_def Let_def)
    next
      case (Inr x)
      with Pair have "status x \<in> C"
        using assms(2) rest(2)
        by (auto simp: rate_limited_def andthen_eq_Inr_iff json_response_def split: if_splits)
      with run Pair Inr show ?thesis
        by (simp add: asyncHandler_def)
    qed
  qed
qed

lemma meta_status:
  assumes hit: "\<And>k n m. errs (\<lambda>e. \<not> is_AppError e) (ap_hit (sv_app S) k n m)"
    and chain: "meta_chain S path = Some chain" and run: "asyncHandler (chain rq) w = (resp, w')"
  shows "path \<in> set meta_endpoints \<and> status resp \<in> insert 500 (meta_statuses path)"
proof -
  have p: "path \<in> set meta_endpoints"
    using chain meta_chain_endpoints [of S path] by simp
  have ready: "status (fst (ready_handler q g)) \<in> {200, 503}" for q g
    by (simp add: ready_handler_def ready_response_def json_response_def Let_def)
  have guard: "status refused \<in> {401, 404}" if "metricsGuard sha tk env rq = Some refused" for sha tk env refused
    using that by (auto simp: metricsGuard_def Let_def json_response_def split: if_splits)
  from p consider "path = ''/''" | "path = ''/health''" | "path = ''/ready''" | "path = ''/metrics''"
    by (auto simp: meta_endpoints_def)
  then have "status resp \<in> insert 500 (meta_statuses path)"
  proof cases
    case 1
    with chain run show ?thesis by (auto simp: meta_chain_def meta_statuses_def asyncHandler_def json_response_def)
  next
    case 2
    with chain run show ?thesis by (auto simp: meta_chain_def meta_statuses_def asyncHandler_def json_response_def)
  next
    case 3
    with chain have c: "chain = rate_limited (ap_hit (sv_app S)) (metaRateLimiter (sv_app S)) (\<lambda>request w.
        (Inr (fst (ready_handler (sv_query S w) (sv_ping S w))), w))"
      by (simp add: meta_chain_def)
    have "status resp \<in> insert 500 {200, 429, 503}"
      by (rule status_limited [OF hit _ _ _ run [unfolded c]]) (use ready in \<open>auto simp: errs_def\<close>)
    with 3 show ?thesis by (simp add: meta_statuses_def)
  next
    case 4
    with chain have c: "chain = rate_limited (ap_hit (sv_app S)) (metaRateLimiter (sv_app S)) (\<lambda>request.
        case metricsGuard (sv_sha S) (sv_metricsToken S) (sv_nodeEnv S) request of
          Some refused \<Rightarrow> ret refused
        | None \<Rightarrow> (\<lambda>w. (Inr (json_response 200 (sv_metrics S w)), w)))"
      by (simp add: meta_chain_def)
    have "status resp \<in> insert 500 {200, 401, 404, 429}"
      by (rule status_limited [OF hit _ _ _ run [unfolded c]])
        (use guard in \<open>fastforce simp: errs_def json_response_def split: option.splits\<close>)+
    with 4 show ?thesis by (simp add: meta_statuses_def)
  qed
  with p show ?thesis by simp
qed

lemma meta_documented:
  assumes hit: "\<And>k n m. errs (\<lambda>e. \<not> is_AppError e) (ap_hit (sv_app S) k n m)"
    and chain: "meta_chain S path = Some chain" and run: "asyncHandler (chain rq) w = (resp, w')"
  shows "\<exists>op. doc_operation GET path = Some op \<and>
    (js_digits (nat (status resp)) \<in> set (doc_statuses op) \<or> status resp = 500)"
proof -
  from meta_status [OF hit chain run] have p: "path \<in> set meta_endpoints"
    and st: "status resp = 500 \<or> status resp \<in> meta_statuses path"
    by auto
  from p documented_meta_statuses obtain b ss where d: "map_of documented (GET, path) = Some (b, ss)"
    and ss: "set ss = (\<lambda>c. js_digits (nat c)) ` meta_statuses path"
    by (fastforce split: option.splits)
  from d obtain op where "doc_operation GET path = Some op" "doc_statuses op = ss"
    using doc_operation_cases [of GET path] by (auto split: option.splits)
  with st ss show ?thesis by auto
qed

lemma v1_prefix:
  assumes "path = ''/v1'' \<or> take 4 path = ''/v1/''"
  shows "path = ''/v1'' @ drop 3 path"
proof -
  have "take 3 path = take 3 (take 4 path)"
    by simp
  with assms have "take 3 path = ''/v1''"
    by (auto simp del: take_take)
  then show ?thesis
    by (metis append_take_drop_id)
qed


subsection \<open>Bodies\<close>

definition text_between :: "json option \<Rightarrow> nat \<Rightarrow> nat \<Rightarrow> bool" where
  "text_between v lo hi \<longleftrightarrow> (\<exists>s. v = Some (JStr s) \<and> lo \<le> length s \<and> length s \<le> hi)"

definition users_schema :: json where
  "users_schema = the (doc_body_schema (the (doc_operation POST ''/v1/users'')))"

definition users_property :: "string \<Rightarrow> json" where
  "users_property k = the (doc_get k (doc_get ''properties'' (Some users_schema)))"

lemma users_schema_keys:
  "doc_get ''required'' (Some users_schema) = Some (JArr [JStr ''name'', JStr ''username'', JStr ''email'', JStr ''password''])"
  "doc_keys (doc_get ''properties'' (Some users_schema)) = [''name'', ''username'', ''email'', ''password'']"
  by code_simp+

lemma users_schema_bounds:
  "map (\<lambda>k. map (\<lambda>a. doc_get a (Some (users_property k))) [''type'', ''minLength'', ''maxLength''])
      [''name'', ''username'', ''email'', ''password''] =
    [[Some (JStr ''string''), Some (JNum 2), Some (JNum 100)], [Some (JStr ''string''), Some (JNum 3), Some (JNum 30)],
     [Some (JStr ''string''), None, None], [Some (JStr ''string''), Some (JNum 12), Some (JNum 72)]]"
  by code_simp

lemma users_properties:
  "conforms_text (users_property ''name'') v \<longleftrightarrow> text_between (Some v) 2 100"
  "conforms_text (users_property ''username'') v \<longleftrightarrow> text_between (Some v) 3 30"
  "conforms_text (users_property ''email'') v \<longleftrightarrow> (\<exists>s. v = JStr s)"
  "conforms_text (users_property ''password'') v \<longleftrightarrow> text_between (Some v) 12 72"
  using users_schema_bounds by (cases v; simp add: text_between_def)+

text \<open>What the description asks of a registration, and what the service accepts.\<close>

lemma registration_conforms:
  "conforms_object users_schema ob \<longleftrightarrow> text_between (js_field ob ''name'') 2 100 \<and>
    text_between (js_field ob ''username'') 3 30 \<and> text_between (js_field ob ''password'') 12 72 \<and>
    (\<exists>s. js_field ob ''email'' = Some (JStr s))"
  unfolding conforms_object_def users_schema_keys users_property_def [symmetric]
  by (cases "js_field ob ''name''"; cases "js_field ob ''username''"; cases "js_field ob ''password''";
      cases "js_field ob ''email''") (simp_all add: users_properties text_between_def conj_ac)

lemma text_field:
  "(\<exists>v. field_result email num (StringField err [MinLength lo m1, MaxLength hi m2]) x = Inr v) \<longleftrightarrow> text_between x lo hi"
  by (cases x; cases "the x") (auto simp: text_between_def not_less)

lemma trimmed_field:
  assumes "\<And>s. x = Some (JStr s) \<Longrightarrow> js_trim s = s"
  shows "field_result email num (StringField err (Trim # cs)) x = field_result email num (StringField err cs) x"
  using assms by (cases x; cases "the x") auto

lemma email_field:
  "(\<exists>v. field_result email num (StringField err [LowerCase, EmailFormat m]) x = Inr v) \<longleftrightarrow>
     (\<exists>s. x = Some (JStr s) \<and> email (js_toLowerCase s))"
  by (cases x; cases "the x") auto

lemma map_sum_Inr_iff: "map_sum id f x = Inr d \<longleftrightarrow> (\<exists>a. x = Inr a \<and> d = f a)"
  by (cases x) auto

lemma object_accepted:
  "(\<exists>d. object_result email num sch ob = Inr d) \<longleftrightarrow>
     (\<forall>(k, f) \<in> set sch. \<exists>v. field_result email num f (js_field ob k) = Inr v)"
  by (induction sch) (auto split: sum.split prod.splits simp: map_sum_Inr_iff)

lemma string_field_value: "field_result email num (StringField err cs) x = Inr v \<Longrightarrow> \<exists>s. v = JStr s"
  by (cases x; cases "the x") (auto simp: map_sum_Inr_iff)

lemma object_texts:
  "object_result email num sch ob = Inr d \<Longrightarrow> (k, StringField err cs) \<in> set sch \<Longrightarrow> distinct (map fst sch) \<Longrightarrow>
     \<exists>s. as_str (js_field d k) = Some s"
proof (induction sch arbitrary: d)
  case (Cons x sch)
  obtain k' f where x: "x = (k', f)" by (cases x)
  with Cons.prems(1) obtain v rest where v: "field_result email num f (js_field ob k') = Inr v"
    and rest: "object_result email num sch ob = Inr rest" and d: "d = (k', v) # rest"
    by (auto simp: map_sum_Inr_iff split: sum.splits)
  show ?case
  proof (cases "(k', f) = (k, StringField err cs)")
    case True
    with v d string_field_value [of email num err cs] show ?thesis by fastforce
  next
    case False
    with Cons.prems(2,3) x have "(k, StringField err cs) \<in> set sch" "k' \<noteq> k" "distinct (map fst sch)"
      by (auto simp: rev_image_eqI)
    with Cons.IH [OF rest] d show ?thesis by simp
  qed
qed simp

lemma create_fields_accepted:
  assumes "zod_library Z email num"
  shows "(\<exists>d. create_fields Z (Some (JObj ob)) = Inr d) \<longleftrightarrow> (\<exists>d. object_result email num createUserSchema ob = Inr d)"
proof (cases "object_result email num createUserSchema ob")
  case (Inl e)
  then show ?thesis by (simp add: create_fields_def zod_library.parse_object [OF assms])
next
  case (Inr d)
  have dist: "distinct (map fst createUserSchema)"
    by (simp add: createUserSchema_def)
  have "\<forall>k \<in> {''username'', ''name'', ''password'', ''email''}. \<exists>err cs. (k, StringField err cs) \<in> set createUserSchema"
    by (auto simp: createUserSchema_def)
  then have "\<forall>k \<in> {''username'', ''name'', ''password'', ''email''}. \<exists>s. as_str (js_field d k) = Some s"
    using object_texts [OF Inr _ dist] by blast
  with Inr show ?thesis
    by (auto simp: create_fields_def zod_library.parse_object [OF assms])
qed

lemma registration_accepted:
  assumes "zod_library Z email num"
    and trim: "\<forall>k s. k \<in> {''username'', ''name'', ''email''} \<longrightarrow> js_field ob k = Some (JStr s) \<longrightarrow> js_trim s = s"
  shows "(\<exists>d. create_fields Z (Some (JObj ob)) = Inr d) \<longleftrightarrow>
    text_between (js_field ob ''name'') 2 100 \<and> text_between (js_field ob ''username'') 3 30 \<and>
    text_between (js_field ob ''password'') 12 72 \<and>
    (\<exists>s. js_field ob ''email'' = Some (JStr s) \<and> email (js_toLowerCase s))"
proof -
  have t: "field_result email num (StringField err (Trim # cs)) (js_field ob k) =
      field_result email num (StringField err cs) (js_field ob k)" if "k \<in> {''username'', ''name'', ''email''}" for k err cs
    using trim that by (intro trimmed_field) blast
  have tn: "(\<exists>v. field_result email num (StringField err [Trim, MinLength lo m1, MaxLength hi m2]) (js_field ob k) = Inr v)
      \<longleftrightarrow> text_between (js_field ob k) lo hi" if "k = ''username'' \<or> k = ''name''" for k err lo hi m1 m2
  proof -
    have k: "k \<in> {''username'', ''name'', ''email''}" using that by blast
    show ?thesis unfolding t [OF k] text_field ..
  qed
  have te: "(\<exists>v. field_result email num (StringField err [Trim, LowerCase, EmailFormat m]) (js_field ob ''email'') = Inr v)
      \<longleftrightarrow> (\<exists>s. js_field ob ''email'' = Some (JStr s) \<and> email (js_toLowerCase s))" for err m
  proof -
    have k: "''email'' \<in> {''username'', ''name'', ''email''}" by blast
    show ?thesis unfolding t [OF k] email_field ..
  qed
  show ?thesis
    unfolding create_fields_accepted [OF assms(1)] object_accepted createUserSchema_def MAX_PASSWORD_LENGTH_def
    by (simp add: tn te text_field del: field_result.simps) (simp only: conj_ac)
qed


subsection \<open>Witnesses\<close>

definition demo_server :: "(ref_store, user_record list) world server" where
  "demo_server = \<lparr>sv_app = demo_app, sv_metricsToken = None, sv_nodeEnv = Some ''production'', sv_sha = demo_sha,
     sv_metrics = (\<lambda>w. JNull), sv_query = (\<lambda>w. Resolves 5 ()), sv_ping = (\<lambda>w. Pending),
     sv_docs = (\<lambda>path request. ret NOT_FOUND)\<rparr>"



end
