(* ===== verification/AuthProperties.thy ===== *)
theory AuthProperties
  imports Examples
begin

section \<open>What the authentication promises, end to end\<close>

text \<open>
  The methods of \<open>AuthService\<close> and the authentication middleware, wired to any Redis server
  and any PostgreSQL server with the documented behaviour (\<open>backend\<close>). Each property is an
  instance of a lemma of the locale; its witness runs the program on the installation of
  \<open>Examples\<close>.
\<close>

definition demo_credentials :: "json option" where
  "demo_credentials = Some (JObj [(''username'', JStr '' alice ''), (''password'', JStr ''correct horse'')])"

lemma demo_login_credentials [simp]:
  "login_credentials demo_zod demo_credentials = Inr (''alice'', ''correct horse'')"
  by code_simp

lemma demo_name [simp]: "ref_lower ''Alice'' = ref_lower ''alice''"
  by code_simp

lemma demo_token: "refresh_token ''s1'' ''1'' = ''s1.1''"
  by (simp add: refresh_token_def)

text \<open>The login of the example succeeds, and a refresh on the live session rotates it.\<close>

lemma demo_login: "\<exists>res w'. auth_login demo_auth demo_credentials demo_world = (Inr res, w')"
  unfolding demo_auth_def
  by (rule backend.service_login_accepted [OF demo.backend_axioms demo_world_ok demo_world_ok demo_world_ok,
        where u = demo_user]) (simp_all add: demo_empty demo_compare_def)

text \<open>
  C5. Login is sound: tokens are given only to a caller who presented a known name (in any case) and
  the password of that account, while the account was not locked for a second or more. The
  access token is for that user, the new session and the user's role; the session is stored,
  is in the user's index and holds the hash of the refresh token; the failure count and the
  lock are cleared; the accounts are unchanged.
\<close>

theorem login_grants:
  assumes "backend R val dl th P rows lower pg_text uuid" and "stores_ok val dl w"
    and "auth_login (auth_service R P th J env sha compare Z) raw w = (Inr res, w')"
  shows "\<exists>n p u i v tk. login_credentials Z raw = Inr (n, p) \<and>
    u \<in> set (rows (w_pg w)) \<and> lower (ur_username u) = lower n \<and> compare p (ur_passwordHash u) \<and>
    (\<forall>d. lock_at dl (w_redis w) (normalize n) = Some d \<longrightarrow> d < rd_now R (w_redis w) + 1000) \<and>
    res = \<lparr>lr_accessToken = tk, lr_refreshToken = refresh_token i v, lr_user = toPublicUser u\<rparr> \<and>
    signAccessToken J env (ur_id u) i (ur_role u) w' = (Inr tk, w') \<and>
    session_at val (w_redis w') = (session_at val (w_redis w))
      (i \<mapsto> new_session u (hashRefreshValidator sha v) (w_now w)) \<and>
    i \<in> index_at val (w_redis w') (ur_id u) \<and>
    failures_at val (w_redis w') (normalize n) = 0 \<and> lock_at dl (w_redis w') (normalize n) = None \<and>
    rows (w_pg w') = rows (w_pg w) \<and> stores_ok val dl w'"
  using backend.service_login [OF assms(1,2,2,2,3)] by (fastforce simp: stores_ok_def)

lemma login_grants_witness:
  "\<exists>res w' i. auth_login demo_auth demo_credentials demo_world = (Inr res, w') \<and>
     lr_user res = toPublicUser demo_user \<and> i \<in> index_at ref_value (w_redis w') ''u1''"
proof -
  obtain res w' where run: "auth_login demo_auth demo_credentials demo_world = (Inr res, w')"
    using demo_login by blast
  from login_grants [OF demo.backend_axioms demo_world_ok run [unfolded demo_auth_def]] run show ?thesis
    by auto
qed

text \<open>
  C6. Refresh is sound: new tokens are given only for a refresh token whose validator hashes to the
  current hash of a session that is alive and not past its absolute lifetime, and whose user
  still exists. The session is rotated to the hash of the new token and takes the user's
  present role, which the new access token carries; no other session and no index changes.
\<close>

theorem refresh_grants:
  assumes "backend R val dl th P rows lower pg_text uuid" and "sessions_ok val (w_redis w)"
    and "\<forall>i s. session_at val (w_redis w) i = Some s \<longrightarrow> uuid (se_userId s)"
    and "auth_refresh (auth_service R P th J env sha compare Z) raw w = (Inr res, w')"
  shows "\<exists>i v s u v' tk. raw = Some (JStr (refresh_token i v)) \<and> CHR ''.'' \<notin> set i \<and>
    session_at val (w_redis w) i = Some s \<and> se_refreshTokenHash s = hashRefreshValidator sha v \<and>
    w_now w < se_absoluteExpiresAt s \<and> u \<in> set (rows (w_pg w)) \<and> ur_id u = se_userId s \<and>
    res = \<lparr>rr_accessToken = tk, rr_refreshToken = refresh_token i v'\<rparr> \<and>
    signAccessToken J env (ur_id u) i (ur_role u) w' = (Inr tk, w') \<and>
    session_at val (w_redis w') = (session_at val (w_redis w))(i \<mapsto> rotated_session s
      \<lparr>rp_presentedHash = hashRefreshValidator sha v, rp_newHash = hashRefreshValidator sha v',
       rp_role = ur_role u, rp_now = w_now w\<rparr>) \<and>
    index_at val (w_redis w') = index_at val (w_redis w) \<and> sessions_ok val (w_redis w')"
  by (rule backend.service_refresh [OF assms(1,2,4)]) (use assms(3) in blast)

lemma demo_decided:
  assumes "v \<noteq> []"
  shows "\<exists>h p r w'. p = \<lparr>rp_presentedHash = hashRefreshValidator demo_sha v, rp_newHash = h,
      rp_role = Admin, rp_now = 1000\<rparr> \<and>
    auth_refresh demo_auth (Some (JStr (refresh_token ''s1'' v))) demo_live = (r, w') \<and>
    (case rotate_decision demo_session p of
       Rotated \<Rightarrow> \<exists>res. r = Inr res
     | Concurrent \<Rightarrow> r = Inl (ConflictError ''Refresh token was already rotated by a concurrent request.'')
     | _ \<Rightarrow> r = Inl (UnauthorizedError INVALID_REFRESH_TOKEN_MESSAGE))"
proof -
  have id: "se_userId demo_session = ''u1''"
    by (simp add: demo_session_def)
  show ?thesis
    using backend.service_refresh_decided [OF demo.backend_axioms demo_live_ok _ _ _ assms,
        of "''s1''" demo_session demo_user ref_jwt demo_env demo_sha demo_compare demo_zod]
    by (simp add: demo_store_session demo_auth_def id) blast
qed

lemma demo_refresh: "\<exists>res w'. auth_refresh demo_auth (Some (JStr ''s1.1'')) demo_live = (Inr res, w')"
  using demo_decided [of "''1''"]
  by (auto simp: demo_token rotate_decision_def hashRefreshValidator_def demo_sha_def demo_session_def)

lemma refresh_grants_witness:
  "\<exists>res w'. auth_refresh demo_auth (Some (JStr ''s1.1'')) demo_live = (Inr res, w') \<and>
     map_option se_role (session_at ref_value (w_redis w') ''s1'') = Some Admin"
proof -
  obtain res w' where run: "auth_refresh demo_auth (Some (JStr ''s1.1'')) demo_live = (Inr res, w')"
    using demo_refresh by blast
  have "\<forall>i s. session_at ref_value (w_redis demo_live) i = Some s \<longrightarrow> ref_uuid (se_userId s)"
    by (simp add: demo_store_session demo_session_def)
  from refresh_grants [OF demo.backend_axioms demo_live_ok this run [unfolded demo_auth_def]] run
  show ?thesis
    by (auto simp: demo_store_session rotated_session_def split: if_splits)
qed

text \<open>What \<open>refresh\<close> hands to the rotation, and its outcome by the rotation's decision.\<close>

definition presented ::
  "(string \<Rightarrow> string) \<Rightarrow> string \<Rightarrow> string \<Rightarrow> user_record \<Rightarrow> ('r, 'p) world \<Rightarrow> rotate_params" where
  "presented sha v h u w = \<lparr>rp_presentedHash = hashRefreshValidator sha v, rp_newHash = h,
     rp_role = ur_role u, rp_now = w_now w\<rparr>"

lemma refresh_by_decision:
  assumes "backend R val dl th P rows lower pg_text uuid" and "sessions_ok val (w_redis w)" and "healthy w"
    and "CHR ''.'' \<notin> set i" "i \<noteq> []" "v \<noteq> []" and "session_at val (w_redis w) i = Some s"
    and "u \<in> set (rows (w_pg w))" "ur_id u = se_userId s" "uuid (se_userId s)" and "getSecret env = Inr secret"
  shows "\<exists>h r w'.
    auth_refresh (auth_service R P th J env sha compare Z) (Some (JStr (refresh_token i v))) w = (r, w') \<and>
    (case rotate_decision s (presented sha v h u w) of
       Rotated \<Rightarrow> \<exists>res. r = Inr res
     | Concurrent \<Rightarrow> r = Inl (ConflictError ''Refresh token was already rotated by a concurrent request.'')
     | _ \<Rightarrow> r = Inl (UnauthorizedError INVALID_REFRESH_TOKEN_MESSAGE)) \<and>
    session_at val (w_redis w') = (session_at val (w_redis w))
      (i := snd (rotate_spec (Some s) (presented sha v h u w)))"
proof -
  have sign: "\<exists>tk. signAccessToken J env (ur_id u) i (ur_role u) w = (Inr tk, w)" for w :: "('a, 'b) world"
    by (simp add: signAccessToken_apply assms(11))
  show ?thesis
    unfolding presented_def
    using backend.service_refresh_decided [OF assms(1-10) sign, of sha compare Z]
    by (elim exE conjE) (intro exI conjI, assumption, simp_all)
qed

text \<open>
  C7. Replay is detected: presenting, for a live session of an existing user, a validator whose hash
  is neither the current one nor, for the 30 seconds after a rotation, the previous one, is
  answered with the generic 401 and destroys the session; every other session stays.
\<close>

theorem refresh_replay_revokes:
  assumes "backend R val dl th P rows lower pg_text uuid" and "sessions_ok val (w_redis w)" and "healthy w"
    and "CHR ''.'' \<notin> set i" "i \<noteq> []" "v \<noteq> []" and "session_at val (w_redis w) i = Some s"
    and "u \<in> set (rows (w_pg w))" "ur_id u = se_userId s" "uuid (se_userId s)" and "getSecret env = Inr secret"
    and "hashRefreshValidator sha v \<noteq> se_refreshTokenHash s"
    and "\<not> (se_previousRefreshTokenHash s = Some (hashRefreshValidator sha v) \<and>
      (\<exists>t. se_rotatedAt s = Some t \<and> w_now w - t \<le> REFRESH_GRACE_PERIOD_MS))"
  shows "\<exists>w'. auth_refresh (auth_service R P th J env sha compare Z) (Some (JStr (refresh_token i v))) w =
      (Inl (UnauthorizedError INVALID_REFRESH_TOKEN_MESSAGE), w') \<and>
    session_at val (w_redis w') = (session_at val (w_redis w))(i := None)"
proof -
  have "rotate_decision s (presented sha v h u w) = Reused" for h
    using assms(12,13) by (auto simp: rotate_decision_def presented_def)
  then show ?thesis
    using refresh_by_decision [OF assms(1-11), of J sha compare Z] by (simp add: rotate_spec_def)
qed

lemma refresh_replay_revokes_witness:
  "\<exists>w'. auth_refresh demo_auth (Some (JStr (refresh_token ''s1'' ''stolen''))) demo_live =
      (Inl (UnauthorizedError INVALID_REFRESH_TOKEN_MESSAGE), w') \<and> session_at ref_value (w_redis w') ''s1'' = None"
  using refresh_replay_revokes [OF demo.backend_axioms demo_live_ok, of "''s1''" "''stolen''" demo_session demo_user
      demo_env "replicate 32 (CHR ''k'')" demo_sha ref_jwt demo_compare demo_zod] demo_secret
  by (simp add: demo_store_session demo_auth_def hashRefreshValidator_def demo_sha_def
      demo_session_def) (metis fun_upd_same)

text \<open>
  C8. Concurrent refreshes are forgiven: presenting the previous validator of a live session up to and
  including 30 seconds after the rotation that replaced it is answered with a 409, and no
  session changes, so the tokens of the request that won stay good.
\<close>

theorem refresh_concurrent_grace:
  assumes "backend R val dl th P rows lower pg_text uuid" and "sessions_ok val (w_redis w)" and "healthy w"
    and "CHR ''.'' \<notin> set i" "i \<noteq> []" "v \<noteq> []" and "session_at val (w_redis w) i = Some s"
    and "u \<in> set (rows (w_pg w))" "ur_id u = se_userId s" "uuid (se_userId s)" and "getSecret env = Inr secret"
    and "hashRefreshValidator sha v \<noteq> se_refreshTokenHash s"
    and "se_previousRefreshTokenHash s = Some (hashRefreshValidator sha v)"
    and "se_rotatedAt s = Some t" and "w_now w - t \<le> 30 * 1000"
  shows "\<exists>w'. auth_refresh (auth_service R P th J env sha compare Z) (Some (JStr (refresh_token i v))) w =
      (Inl (ConflictError ''Refresh token was already rotated by a concurrent request.''), w') \<and>
    session_at val (w_redis w') = session_at val (w_redis w)"
proof -
  have "rotate_decision s (presented sha v h u w) = Concurrent" for h
    using assms(12-15) by (auto simp: rotate_decision_def presented_def REFRESH_GRACE_PERIOD_MS_def)
  then show ?thesis
    using refresh_by_decision [OF assms(1-11), of J sha compare Z] assms(7) by (simp add: rotate_spec_def fun_upd_idem)
qed

text \<open>The store of \<open>SessionSystem\<close> after its rotation, exactly 30 seconds later.\<close>

definition demo_grace :: "(ref_store, user_record list) world" where
  "demo_grace = demo_world\<lparr>w_redis := demo_rotated, w_now := 30000\<rparr>"

lemma demo_rotated_session:
  "sessions_ok ref_value demo_rotated \<and> session_at ref_value demo_rotated ''s1'' = Some (rotated_session demo_session
     \<lparr>rp_presentedHash = ''h1'', rp_newHash = ''h2'', rp_role = User, rp_now = 0\<rparr>)"
proof -
  let ?p = "\<lparr>rp_presentedHash = ''h1'', rp_newHash = ''h2'', rp_role = User, rp_now = 0\<rparr>"
  have run: "rotate_script ref_redis (sessionKey ''s1'') (userSessionsKey ''u1'') (rp_presentedHash ?p) (rp_newHash ?p)
      (rp_role ?p) (rp_now ?p) REFRESH_GRACE_PERIOD_MS SESSION_IDLE_TTL_SECONDS ''s1'' demo_opened = (Inr Rotated, demo_rotated)"
    using demo_rotate_run by simp
  from ref_server.rotate_script_refines(2,4) [OF demo_opened_ok run] show ?thesis
    by (simp add: demo_opened_session rotate_spec_def rotate_decision_def)
      (simp add: demo_session_def)
qed

lemma refresh_concurrent_grace_witness:
  "\<exists>w'. auth_refresh demo_auth (Some (JStr (refresh_token ''s1'' ''1''))) demo_grace =
      (Inl (ConflictError ''Refresh token was already rotated by a concurrent request.''), w')"
proof -
  have w: "w_redis demo_grace = demo_rotated" "w_pg demo_grace = [demo_user]" "w_now demo_grace = 30000" "healthy demo_grace"
    by (simp_all add: demo_grace_def)
  have s: "se_refreshTokenHash (rotated_session demo_session p) = rp_newHash p"
    "se_previousRefreshTokenHash (rotated_session demo_session p) = Some (rp_presentedHash p)"
    "se_rotatedAt (rotated_session demo_session p) = Some (rp_now p)"
    "se_userId (rotated_session demo_session p) = ''u1''" for p
    by (simp_all add: rotated_session_def demo_session_def)
  have ok: "sessions_ok ref_value (w_redis demo_grace)"
    by (simp add: w demo_rotated_session)
  show ?thesis
    using refresh_concurrent_grace [OF demo.backend_axioms ok _ _ _ _ _ _ _ _ demo_secret, of "''s1''" "''1''"
        "rotated_session demo_session \<lparr>rp_presentedHash = ''h1'', rp_newHash = ''h2'', rp_role = User, rp_now = 0\<rparr>"
        demo_user demo_sha 0 ref_jwt demo_compare demo_zod]
    by (simp add: w s demo_rotated_session demo_auth_def hashRefreshValidator_def demo_sha_def) blast
qed



text \<open>
  C10. Logout ends the session at once: after a successful logout no access token of that session,
  however long it is still valid, gets any request through the authentication.
\<close>

theorem logout_ends_session:
  assumes "backend R val dl th P rows lower pg_text uuid" and "sessions_ok val (w_redis w)"
    and "auth_logout (auth_service R P th J env sha compare Z) (Some i) (Some u) w = (Inr x, w1)"
    and "w_redis w2 = w_redis w1"
    and "authentication (verifyAccessToken J env) (session_get R) rq w2 = (Inr rq', w3)"
  shows "rq_sessionId rq' \<noteq> Some i"
proof
  assume i: "rq_sessionId rq' = Some i"
  have server: "redis_server R val dl"
    using assms(1) by (simp add: backend_def redis_throttle_def)
  have gone: "session_at val (w_redis w2) i = None"
    using backend.service_logout [OF assms(1-3)] assms(4) by auto
  have del: "session_delete R i u w = (Inr x, w1)"
    using assms(3) by (simp add: auth_logout_def split: if_splits)
  have ok: "sessions_ok val (w_redis w2)"
    using redis_server.session_delete_laws(1) [OF server assms(2) del] assms(4) by simp
  from authentication_Inr [OF assms(5)] obtain token p w' s where
    "verifyAccessToken J env token w2 = (Inr p, w')" and got: "session_get R (at_sessionId p) w' = (Inr (Some s), w3)"
    and rq': "rq' = rq\<lparr>rq_userId := Some (at_subject p), rq_sessionId := Some (at_sessionId p),
      rq_userRole := Some (at_role p)\<rparr>"
    by (elim exE conjE)
  then have "w' = w2" "at_sessionId p = i"
    using i by (simp_all add: verifyAccessToken_apply split: sum.splits)
  with redis_server.session_get_laws(5) [OF server ok, of i "Inr (Some s)" w3] got gone show False
    by simp
qed

lemma logout_ends_session_witness:
  "\<exists>w1. auth_logout demo_auth (Some ''s1'') (Some ''u1'') demo_live = (Inr (), w1) \<and>
     (\<forall>rq' w3. authentication (verifyAccessToken ref_jwt demo_env) (session_get ref_redis) demo_request w1 = (Inr rq', w3)
        \<longrightarrow> rq_sessionId rq' \<noteq> Some ''s1'')"
proof -
  obtain w1 where "session_delete ref_redis ''s1'' ''u1'' demo_live = (Inr (), w1)"
    using ref_server.session_delete_laws(4) [OF demo_live_ok surjective_pairing, of "''s1''" "''u1''"]
    by (simp add: prod_eq_iff)
  then have run: "auth_logout demo_auth (Some ''s1'') (Some ''u1'') demo_live = (Inr (), w1)"
    by (simp add: auth_logout_def demo_auth_def)
  from logout_ends_session [OF demo.backend_axioms demo_live_ok run [unfolded demo_auth_def] refl] run
  show ?thesis by blast
qed

text \<open>
  C12. A locked account is closed: while its lock has a second or more to run, a login with any
  password is answered with a 429 and a positive \<open>Retry-After\<close>, and neither the failure
  count, nor the lock, nor any session changes.
\<close>

theorem locked_account_refused:
  assumes "backend R val dl th P rows lower pg_text uuid" and "stores_ok val dl w" and "healthy w"
    and "login_credentials Z raw = Inr (n, p)"
    and "lock_at dl (w_redis w) (normalize n) = Some d" and "rd_now R (w_redis w) + 1000 \<le> d"
  shows "\<exists>m t w'. auth_login (auth_service R P th J env sha compare Z) raw w =
      (Inl (TooManyRequestsError m t), w') \<and> 0 < t \<and>
    failures_at val (w_redis w') = failures_at val (w_redis w) \<and> lock_at dl (w_redis w') = lock_at dl (w_redis w) \<and>
    session_at val (w_redis w') = session_at val (w_redis w)"
  using backend.service_login_locked [OF assms(1,2,2,3-6)] by blast

definition demo_locked :: "(ref_store, user_record list) world" where
  "demo_locked = demo_world\<lparr>w_redis := rd_set ref_redis ref_init (lockKey ''alice'') (Json (JNum 1)) 60\<rparr>"

lemma demo_locked_facts:
  "stores_ok ref_value ref_dl demo_locked" "healthy demo_locked" "rd_now ref_redis (w_redis demo_locked) = 0"
  "lock_at ref_dl (w_redis demo_locked) (normalize ''alice'') = Some 60000"
  unfolding stores_ok_def sessions_ok_def throttle_ok_def counter_ok_def cache_ok_def lock_at_def
  by (simp_all add: demo_locked_def ref_value_put ref_dl_put key_defs lockKey_def session_key_ok_def)

lemma locked_account_refused_witness:
  "\<exists>m t w'. auth_login demo_auth demo_credentials demo_locked = (Inl (TooManyRequestsError m t), w') \<and> 0 < t"
  using locked_account_refused [OF demo.backend_axioms demo_locked_facts(1,2) demo_login_credentials demo_locked_facts(4),
      of ref_jwt demo_env demo_sha demo_compare]
  by (simp add: demo_auth_def demo_locked_facts(3) del: ref_redis_simps) blast

text \<open>
  C13. A wrong guess reveals nothing and is counted: for an account that is not locked, an unknown name
  and a wrong password get the very same 401, and each raises the failure count of that name by
  one and sets the lock that the count calls for; no session and no account changes.
\<close>

theorem login_refusal_uniform:
  assumes "backend R val dl th P rows lower pg_text uuid" and "stores_ok val dl w" and "healthy w"
    and "login_credentials Z raw = Inr (n, p)"
    and "lock_at dl (w_redis w) (normalize n) = None" and "pg_text n"
    and "\<forall>u \<in> set (rows (w_pg w)). lower (ur_username u) = lower n \<longrightarrow> \<not> compare p (ur_passwordHash u)"
  shows "\<exists>w'. auth_login (auth_service R P th J env sha compare Z) raw w =
      (Inl (UnauthorizedError ''Invalid credentials.''), w') \<and>
    (let k = failures_at val (w_redis w) (normalize n) + 1 in
      failures_at val (w_redis w') = (failures_at val (w_redis w))(normalize n := k) \<and>
      lock_at dl (w_redis w') = (lock_at dl (w_redis w))(normalize n := lock_after th k (rd_now R (w_redis w)) None)) \<and>
    session_at val (w_redis w') = session_at val (w_redis w) \<and> index_at val (w_redis w') = index_at val (w_redis w)"
proof -
  have "\<not> compare p (ur_passwordHash u)"
    if "find (\<lambda>u. lower (ur_username u) = lower n) (rows (w_pg w)) = Some u" for u
    using that assms(7) by (auto simp: find_Some_iff)
  then show ?thesis
    using backend.service_login_refused [OF assms(1,2,2,2,3-6), of compare J env sha] unfolding Let_def by blast
qed

definition mallory_credentials :: "json option" where
  "mallory_credentials = Some (JObj [(''username'', JStr ''mallory''), (''password'', JStr ''guess'')])"

lemma login_refusal_uniform_witness:
  "\<exists>w'. auth_login demo_auth mallory_credentials demo_world = (Inl (UnauthorizedError ''Invalid credentials.''), w') \<and>
     failures_at ref_value (w_redis w') (normalize ''mallory'') = 1"
proof -
  have c: "login_credentials demo_zod mallory_credentials = Inr (''mallory'', ''guess'')"
    by code_simp
  show ?thesis
    using login_refusal_uniform [OF demo.backend_axioms demo_world_ok _ c, of demo_compare ref_jwt demo_env demo_sha]
    by (auto simp: demo_empty demo_auth_def demo_compare_def ref_pg_text_def Let_def)
qed

text \<open>
  C29. A deleted account loses its sessions with the next refresh: when the session is alive but no
  row has its user's id, the answer is the generic 401, every session in that user's index is
  gone, and the index is empty.
\<close>

theorem deleted_account_loses_sessions:
  assumes "backend R val dl th P rows lower pg_text uuid" and "sessions_ok val (w_redis w)" and "healthy w"
    and "CHR ''.'' \<notin> set i" "i \<noteq> []" "v \<noteq> []" and "session_at val (w_redis w) i = Some s"
    and "\<forall>u \<in> set (rows (w_pg w)). ur_id u \<noteq> se_userId s" "uuid (se_userId s)"
  shows "\<exists>w'. auth_refresh (auth_service R P th J env sha compare Z) (Some (JStr (refresh_token i v))) w =
      (Inl (UnauthorizedError INVALID_REFRESH_TOKEN_MESSAGE), w') \<and>
    index_at val (w_redis w') = (index_at val (w_redis w))(se_userId s := {}) \<and>
    (\<forall>j \<in> index_at val (w_redis w) (se_userId s). session_at val (w_redis w') j = None)"
  by (rule backend.service_refresh_deleted [OF assms])

lemma deleted_account_loses_sessions_witness:
  "\<exists>w'. auth_refresh demo_auth (Some (JStr (refresh_token ''s1'' ''1''))) (demo_live\<lparr>w_pg := []\<rparr>) =
     (Inl (UnauthorizedError INVALID_REFRESH_TOKEN_MESSAGE), w')"
proof -
  have none: "ref_rows [] = []" and id: "se_userId demo_session = ''u1''"
    by (simp_all add: ref_rows_def table_ok_def demo_session_def)
  show ?thesis
    using deleted_account_loses_sessions [OF demo.backend_axioms, of "demo_live\<lparr>w_pg := []\<rparr>" "''s1''" "''1''" demo_session
        ref_jwt demo_env demo_sha demo_compare demo_zod] demo_store_ok
    by (simp add: demo_store_session demo_auth_def none id) blast
qed

text \<open>
  A refused login opens nothing: whenever a login is answered with an error of the service (a
  malformed body, a locked account, wrong credentials), every session and every index is as
  it was.
\<close>

theorem refused_login_opens_nothing:
  assumes "backend R val dl th P rows lower pg_text uuid" and "stores_ok val dl w"
    and "auth_login (auth_service R P th J env sha compare Z) raw w = (Inl e, w')" and "is_AppError e"
  shows "session_at val (w_redis w') = session_at val (w_redis w) \<and>
    index_at val (w_redis w') = index_at val (w_redis w)"
  using backend.service_login_rejected [OF assms(1,2,2,3,4)] by blast

lemma refused_login_opens_nothing_witness:
  "\<exists>m w'. auth_login demo_auth None demo_world = (Inl (ValidationError m), w') \<and>
     session_at ref_value (w_redis w') = (\<lambda>_. None)"
proof -
  obtain m where "auth_login demo_auth None demo_world = (Inl (ValidationError m), demo_world)"
    by (simp add: auth_login_def demo_auth_def login_credentials_def parseOrThrow_def demo_zod_def ref_zod_def)
  with refused_login_opens_nothing [OF demo.backend_axioms demo_world_ok this [unfolded demo_auth_def]] show ?thesis
    by (auto simp: demo_empty)
qed

text \<open>
  The profile cache is no part of the login's contract: a login with a cache whose every write
  fails, with whatever error, has exactly the answers and the effects of one with a cache
  that accepts every write.
\<close>

theorem login_ignores_cache_failures:
  "auth_login (D\<lparr>ad_cache := \<lparr>ca_get = g, ca_set = (\<lambda>i p. raise e)\<rparr>\<rparr>) raw =
   auth_login (D\<lparr>ad_cache := \<lparr>ca_get = g, ca_set = (\<lambda>i p. ret ())\<rparr>\<rparr>) raw"
proof -
  have "attempt (raise e) (\<lambda>error. ret ()) = (ret () :: ('a, exn, unit) act)"
    "attempt (ret ()) (\<lambda>error. ret ()) = (ret () :: ('a, exn, unit) act)"
    by (simp_all add: attempt_def fun_eq_iff)
  then have "open_session (D\<lparr>ad_cache := \<lparr>ca_get = g, ca_set = (\<lambda>i p. raise e)\<rparr>\<rparr>) =
      open_session (D\<lparr>ad_cache := \<lparr>ca_get = g, ca_set = (\<lambda>i p. ret ())\<rparr>\<rparr>)"
    by (intro ext) (simp add: open_session_def Let_def)
  then show ?thesis
    by (simp add: auth_login_def cong: option.case_cong sum.case_cong if_cong)
qed

end
