(* ===== verification/JourneyProperties.thy ===== *)
theory JourneyProperties
  imports AuthProperties
begin

section \<open>From the login on\<close>

text \<open>
  What the tokens of a login are good for: progress, where the other theories are about
  safety. A later world (\<open>w2\<close>) is any in which the session is still the one the login stored,
  the account still exists and the servers answer.
\<close>

lemma js_split_none: "c \<notin> set t \<Longrightarrow> js_split c t = [t]"
  by (induction t) auto

lemma bearer_header:
  assumes "CHR '' '' \<notin> set t"
  shows "auth_header_parts (''Bearer '' @ t) = (''Bearer'', Some t)"
  by (simp add: auth_header_parts_def js_split_none [OF assms])

text \<open>The access token of a live session passes the authentication for its 15 minutes.\<close>

lemma own_token_passes:
  assumes "redis_server R val dl" and "jwt_library J" and "sessions_ok val (w_redis w)" and "healthy w"
    and "session_at val (w_redis w) i = Some s" and "se_userId s = u" and "getSecret env = Inr secret"
    and "u \<noteq> []" "i \<noteq> []" and "w_now w div 1000 < t0 div 1000 + 900"
    and "rq_authorization rq = Some (''Bearer '' @ tk)" and "CHR '' '' \<notin> set tk" "tk \<noteq> []"
    and "tk = jwt_sign J i (role_string r) secret (signing_options u) t0"
  shows "\<exists>w'. authentication (verifyAccessToken J env) (session_get R) rq w =
    (Inr (rq\<lparr>rq_userId := Some u, rq_sessionId := Some i, rq_userRole := Some (role_string r)\<rparr>), w')"
proof -
  have ver: "verifyAccessToken J env tk w = (Inr \<lparr>at_subject = u, at_sessionId = i, at_role = role_string r\<rparr>, w)"
    using jwt_library.own_token_accepted [OF assms(2,7-10)] assms(14) by simp
  obtain w' where "session_get R i w = (Inr (Some s), w')"
    using redis_server.session_get_laws(6) [OF assms(1,3) surjective_pairing assms(4), of i] assms(5)
    by (simp add: prod_eq_iff)
  with ver show ?thesis
    using assms(6,11-13) by (simp add: authentication_def bearer_header [simplified] act_simps)
qed

text \<open>
  C38. A login opens the session it promises: as long as the session is in the store and the account in
  the table, its access token passes the authentication for 15 minutes, as its user and with
  the user's role, and within the 30 days of the session its refresh token is exchanged for new
  tokens. (The drawn id and validator are not empty and the id has no dot, as in a UUID; the
  signed token has no space.)
\<close>

theorem login_session_usable:
  assumes "backend R val dl th P rows lower pg_text uuid" and "jwt_library J" and "stores_ok val dl w"
    and "\<forall>u \<in> set (rows (w_pg w)). uuid (ur_id u) \<and> ur_id u \<noteq> []"
    and "auth_login (auth_service R P th J env sha compare Z) raw w = (Inr res, w')"
    and "healthy w2" and "sessions_ok val (w_redis w2)" and "rows (w_pg w2) = rows (w_pg w')"
    and "session_at val (w_redis w2) = session_at val (w_redis w')"
    and "lr_accessToken res \<noteq> []" and "CHR '' '' \<notin> set (lr_accessToken res)"
  shows "\<exists>i v. lr_refreshToken res = refresh_token i v \<and> (CHR ''.'' \<notin> set i \<and> i \<noteq> [] \<and> v \<noteq> [] \<longrightarrow>
    (w_now w2 div 1000 < w_now w div 1000 + 15 * 60 \<longrightarrow>
      (\<forall>rq. rq_authorization rq = Some (''Bearer '' @ lr_accessToken res) \<longrightarrow>
        (\<exists>w3. authentication (verifyAccessToken J env) (session_get R) rq w2 =
          (Inr (rq\<lparr>rq_userId := Some (up_id (lr_user res)), rq_sessionId := Some i,
                    rq_userRole := Some (role_string (up_role (lr_user res)))\<rparr>), w3)))) \<and>
    (w_now w2 < w_now w + SESSION_ABSOLUTE_TTL_SECONDS * 1000 \<longrightarrow>
      (\<exists>res2 w3. auth_refresh (auth_service R P th J env sha compare Z) (Some (JStr (lr_refreshToken res))) w2 =
        (Inr res2, w3))))"
proof -
  from backend.service_login [OF assms(1,3,3,3,5)] obtain u i v tk where
    u: "u \<in> set (rows (w_pg w))" and res: "res = \<lparr>lr_accessToken = tk, lr_refreshToken = refresh_token i v, lr_user = toPublicUser u\<rparr>"
    and sign: "signAccessToken J env (ur_id u) i (ur_role u) w' = (Inr tk, w')"
    and stored: "session_at val (w_redis w') = (session_at val (w_redis w))
      (i \<mapsto> new_session u (hashRefreshValidator sha v) (w_now w))"
    and rest: "rows (w_pg w') = rows (w_pg w)" "w_now w' = w_now w"
    by blast
  from sign obtain secret where secret: "getSecret env = Inr secret"
    and tk: "tk = jwt_sign J i (role_string (ur_role u)) secret (signing_options (ur_id u)) (w_now w)"
    by (auto simp: signAccessToken_apply rest(2) split: sum.splits)
  let ?s = "new_session u (hashRefreshValidator sha v) (w_now w)"
  have server: "redis_server R val dl"
    using assms(1) by (simp add: backend_def redis_throttle_def)
  have live: "session_at val (w_redis w2) i = Some ?s"
    using assms(9) stored by simp
  have owner: "se_userId ?s = ur_id u" and hash: "se_refreshTokenHash ?s = hashRefreshValidator sha v"
    and ends: "se_absoluteExpiresAt ?s = w_now w + SESSION_ABSOLUTE_TTL_SECONDS * 1000"
    by (simp_all add: new_session_def)
  have id: "uuid (ur_id u)" "ur_id u \<noteq> []" and u2: "u \<in> set (rows (w_pg w2))"
    using assms(4,8) u rest by auto
  have "\<exists>w3. authentication (verifyAccessToken J env) (session_get R) rq w2 =
      (Inr (rq\<lparr>rq_userId := Some (ur_id u), rq_sessionId := Some i, rq_userRole := Some (role_string (ur_role u))\<rparr>), w3)"
    if "i \<noteq> []" "w_now w2 div 1000 < w_now w div 1000 + 900" "rq_authorization rq = Some (''Bearer '' @ tk)" for rq
    using own_token_passes [OF server assms(2,7,6) live owner secret id(2) that] assms(10,11) tk res by simp
  moreover have "\<exists>res2 w3. auth_refresh (auth_service R P th J env sha compare Z) (Some (JStr (refresh_token i v))) w2 =
      (Inr res2, w3)"
    if shape: "CHR ''.'' \<notin> set i" "i \<noteq> []" "v \<noteq> []" and "w_now w2 < w_now w + SESSION_ABSOLUTE_TTL_SECONDS * 1000"
  proof -
    have "rotate_decision ?s (presented sha v h u w2) = Rotated" for h
      using that(4) by (simp add: rotate_decision_def presented_def hash ends)
    with refresh_by_decision [OF assms(1,7,6) shape live u2 owner [symmetric] _ secret, of J sha compare Z] id owner
    show ?thesis by (simp) blast
  qed
  ultimately show ?thesis
    using res by (intro exI [of _ i] exI [of _ v]) (simp add: toPublicUser_def)
qed

text \<open>On the example: Alice logs in and exchanges the refresh token at once.\<close>

lemma one_dot: "refresh_token i v = ''r.rr'' \<Longrightarrow> i = ''r'' \<and> v = ''rr''"
  by (auto simp: refresh_token_def append_eq_Cons_conv)

lemma login_session_usable_witness:
  "\<exists>res w' res2 w3. auth_login demo_auth demo_credentials demo_world = (Inr res, w') \<and>
     auth_refresh demo_auth (Some (JStr (lr_refreshToken res))) w' = (Inr res2, w3)"
proof -
  have "case auth_login demo_auth demo_credentials demo_world of
      (Inr res, w') \<Rightarrow> w_faults w' = [] \<and> w_now w' = 0 \<and> lr_refreshToken res = ''r.rr'' \<and>
        lr_accessToken res \<noteq> [] \<and> CHR '' '' \<notin> set (lr_accessToken res)
    | _ \<Rightarrow> False"
    by code_simp
  then obtain res w' where run: "auth_login demo_auth demo_credentials demo_world = (Inr res, w')"
    and w': "healthy w'" "w_now w' = 0" and res: "lr_refreshToken res = ''r.rr''" "lr_accessToken res \<noteq> []"
      "CHR '' '' \<notin> set (lr_accessToken res)"
    by (auto simp: healthy_def split: prod.splits sum.splits)
  have "sessions_ok ref_value (w_redis w')"
    using backend.service_login [OF demo.backend_axioms demo_world_ok demo_world_ok demo_world_ok run [unfolded demo_auth_def]]
    by blast
  from login_session_usable [OF demo.backend_axioms ref_jwt.jwt_library_axioms demo_world_ok _ run [unfolded demo_auth_def]
      w'(1) this refl refl res(2,3)] w'(2) res(1) run show ?thesis
    by (auto simp: SESSION_ABSOLUTE_TTL_SECONDS_def demo_auth_def dest!: one_dot [OF sym] one_dot)
qed

end
