(* ===== verification/SessionFaults.thy ===== *)
theory SessionFaults
  imports SessionContract
begin

section \<open>The session repository when calls fail\<close>

text \<open>
  The contract \<open>session_store\<close> says what a call that succeeds has done. A caller that gets an
  error knows less: the call may have been lost before the server or after it, and of a
  transaction some commands may have failed. \<open>resilient_store\<close> bounds what can have happened:
  whatever the answer, the sessions are as before or as after the call.
\<close>

locale resilient_store = session_store S sess idx ok up clock
  for S :: "'w session_ops" and sess :: "'w \<Rightarrow> string \<Rightarrow> session option" and idx and ok and up and clock +
  assumes create_any: "ok w \<Longrightarrow> so_create S i rec w = (r, w') \<Longrightarrow>
          sess w' = sess w \<or> sess w' = (sess w)(i \<mapsto> rec)"
    and rotate_any: "ok w \<Longrightarrow> so_rotate S i uid p w = (r1, w') \<Longrightarrow>
          sess w' = sess w \<or> sess w' = (sess w)(i := snd (rotate_spec (sess w i) p))"
    and delete_any: "ok w \<Longrightarrow> so_delete S i uid w = (r, w') \<Longrightarrow>
          sess w' = sess w \<or> sess w' = (sess w)(i := None)"
    and delete_all_any: "ok w \<Longrightarrow> so_deleteAllForUser S uid w = (r2, w') \<Longrightarrow>
          sess w' = sess w \<or> sess w' = (\<lambda>i. if i \<in> idx w uid then None else sess w i)"

context redis_server
begin

lemma session_create_any:
  assumes "sessions_ok val (w_redis w)" and "session_create R i rec w = (r, w')"
  shows "session_at val (w_redis w') = session_at val (w_redis w) \<or>
    session_at val (w_redis w') = (session_at val (w_redis w))(i \<mapsto> rec)"
proof -
  let ?P = "\<lambda>st. sessions_ok val st \<and> (session_at val st = session_at val (w_redis w) \<or>
    session_at val st = (session_at val (w_redis w))(i \<mapsto> rec))"
  have pos: "0 < SESSION_ABSOLUTE_TTL_SECONDS"
    by (simp add: session_constants)
  have "execOrThrow (create_queue R i rec (session_ttl (se_absoluteExpiresAt rec) (w_now w))) w = (r, w')"
    using assms(2) by (simp add: session_create_def session_ttl_def Let_def act_simps)
  then have "?P (w_redis w')"
    by (rule execOrThrow_invariant [where P = ?P])
      (use assms(1) in \<open>auto simp: create_queue_def session_views cmd_set_def JSON_stringify_def pos split: if_splits\<close>)
  then show ?thesis by blast
qed

lemma session_rotate_any:
  assumes "sessions_ok val (w_redis w)" and "session_rotate R i uid p w = (r, w')"
  shows "session_at val (w_redis w') = session_at val (w_redis w) \<or> session_at val (w_redis w') =
    (session_at val (w_redis w))(i := snd (rotate_spec (session_at val (w_redis w) i) p))"
proof -
  let ?c = "rotate_script R (sessionKey i) (userSessionsKey uid) (rp_presentedHash p) (rp_newHash p)
      (rp_role p) (rp_now p) REFRESH_GRACE_PERIOD_MS SESSION_IDLE_TTL_SECONDS i"
  have "redis_call ?c w = (r, w')"
    using assms(2) by (simp add: session_rotate_def)
  from redis_call_state [OF this]
    rotate_script_refines(2) [OF assms(1), of i uid p "fst (?c (w_redis w))" "snd (?c (w_redis w))"]
  show ?thesis by auto
qed

lemma session_delete_any:
  assumes "sessions_ok val (w_redis w)" and "session_delete R i uid w = (r, w')"
  shows "session_at val (w_redis w') = session_at val (w_redis w) \<or>
    session_at val (w_redis w') = (session_at val (w_redis w))(i := None)"
proof -
  let ?P = "\<lambda>st. sessions_ok val st \<and> (session_at val st = session_at val (w_redis w) \<or>
    session_at val st = (session_at val (w_redis w))(i := None))"
  have "execOrThrow (delete_queue R i uid) w = (r, w')"
    using assms(2) by (simp add: session_delete_def)
  then have "?P (w_redis w')"
    by (rule execOrThrow_invariant [where P = ?P])
      (use assms(1) in \<open>auto simp: delete_queue_def session_views\<close>)
  then show ?thesis by blast
qed

lemma session_deleteAll_any:
  assumes "sessions_ok val (w_redis w)" and "session_deleteAllForUser R uid w = (r, w')"
  shows "session_at val (w_redis w') = session_at val (w_redis w) \<or> session_at val (w_redis w') =
    (\<lambda>i. if i \<in> index_at val (w_redis w) uid then None else session_at val (w_redis w) i)"
proof -
  let ?c = "delete_all_script R (userSessionsKey uid) SESSION_PREFIX"
  have "redis_call ?c w = (r, w')"
    using assms(2) by (simp add: session_deleteAllForUser_def)
  from redis_call_state [OF this]
    delete_all_script_refines(2) [OF assms(1) surjective_pairing, of uid]
  show ?thesis by auto
qed

end

sublocale redis_server \<subseteq> sess_faults: resilient_store "session_repo R"
  "\<lambda>w. session_at val (w_redis w)" "\<lambda>w. index_at val (w_redis w)"
  "\<lambda>w. sessions_ok val (w_redis w)" healthy w_now
proof (unfold_locales, simp_all only: session_repo_simps, goal_cases)
  case (1 w i rec r w')
  then show ?case by (rule session_create_any)
next
  case (2 w i uid p r w')
  then show ?case by (rule session_rotate_any)
next
  case (3 w i uid r w')
  then show ?case by (rule session_delete_any)
next
  case (4 w uid r w')
  then show ?case by (rule session_deleteAll_any)
qed

end
