(* ===== verification/SessionRefinement.thy ===== *)
theory SessionRefinement
  imports Backend SessionFaults
begin

section \<open>The service as a machine on sessions\<close>

text \<open>
  What the authentication service may do to the sessions, as an abstract machine: its states
  are the live sessions by id, its events the calls of the service. \<open>session_step us now ix ev\<close>
  is its transition relation, with the accounts \<open>us\<close>, the time \<open>now\<close> and the index \<open>ix\<close> of each
  user's sessions. The refinement: every call of the service, whatever it answers and
  whatever fails on the way, is one step of the machine or none.
\<close>

type_synonym sessions = "string \<Rightarrow> session option"

datatype session_event = Opening | Refreshing string | Ending string | EndingAll string | Reading

inductive session_step ::
  "user_record list \<Rightarrow> int \<Rightarrow> (string \<Rightarrow> string set) \<Rightarrow> session_event \<Rightarrow> sessions \<Rightarrow> sessions \<Rightarrow> bool"
  for us and now and ix where
  same: "session_step us now ix ev S S"
| opened: "u \<in> set us \<Longrightarrow> session_step us now ix Opening S (S(i \<mapsto> new_session u h now))"
| judged: "S i = Some s \<Longrightarrow> u \<in> set us \<Longrightarrow> ur_id u = se_userId s \<Longrightarrow> rp_role p = ur_role u \<Longrightarrow> rp_now p = now \<Longrightarrow>
    session_step us now ix (Refreshing i) S (S(i := snd (rotate_spec (Some s) p)))"
| orphaned: "S i = Some s \<Longrightarrow> se_userId s \<notin> ur_id ` set us \<Longrightarrow>
    session_step us now ix (Refreshing i) S (\<lambda>j. if j \<in> ix (se_userId s) then None else S j)"
| ended: "session_step us now ix (Ending i) S (S(i := None))"
| all_ended: "session_step us now ix (EndingAll u) S (\<lambda>j. if j \<in> ix u then None else S j)"

inductive_cases reading_stepE: "session_step us now ix Reading S S'"
inductive_cases opening_stepE: "session_step us now ix Opening S S'"
inductive_cases refreshing_stepE: "session_step us now ix (Refreshing i) S S'"
inductive_cases ending_stepE: "session_step us now ix (Ending i) S S'"
inductive_cases ending_all_stepE: "session_step us now ix (EndingAll u) S S'"

text \<open>How a sequence of two actions can end.\<close>

lemma andthen_cases:
  assumes "andthen m f w = (r, w')"
  obtains (first) e where "m w = (Inl e, w')" "r = Inl e" | (second) a w1 where "m w = (Inr a, w1)" "f a w1 = (r, w')"
  using assms by (auto simp: andthen_def split: prod.splits sum.splits)

locale resilient_auth = auth_backend D sess idx sok up clock th fails lock tok tclock cached cok users lower pg_text uuid +
  faults: resilient_store "ad_sessions D" sess idx sok up clock
  for D :: "'w auth_deps" and sess and idx and sok and up and clock and th and fails and lock and tok and tclock
    and cached and cok and users and lower and pg_text and uuid
begin

lemma open_session_any:
  assumes "sok w" "tok w" "cok w" and "open_session D n u w = (r, w')"
  shows "sess w' = sess w \<or> (\<exists>i h. sess w' = (sess w)(i \<mapsto> new_session u h (clock w)))"
  using assms(4) unfolding open_session_def
proof (cases rule: andthen_cases)
  case (first e)
  with throttle_steps(1) [OF assms(2)] show ?thesis by blast
next
  case (second x w1)
  note f1 = throttle_steps [OF assms(2) disjI2 [OF disjI2 [OF second(1)]]]
  obtain i w2 where s2: "ad_randomUUID D w1 = (Inr i, w2)"
    using uuid_draw [of w1] by blast
  obtain t w3 where s3: "ad_generateRefreshToken D w2 = (Inr t, w3)"
    using token_draw [of w2] by blast
  note f2 = draw_steps [OF disjI1 [OF s2]] draw_steps [OF disjI2 [OF s3]]
  have w3: "sok w3" "cok w3" "clock w3 = clock w" "sess w3 = sess w"
    using f1 f2 assms(1,3) by simp_all
  let ?s = "new_session u (rt_hash t) (clock w)"
  from second(2) s2 s3 have "andthen (so_create (ad_sessions D) i ?s) (\<lambda>_.
      let publicUser = toPublicUser u in
      andthen (attempt (ca_set (ad_cache D) (ur_id u) publicUser) (\<lambda>error. ret ())) (\<lambda>_.
      andthen (ad_signAccessToken D (ur_id u) i (ur_role u)) (\<lambda>accessToken.
        ret \<lparr>lr_accessToken = accessToken, lr_refreshToken = i @ ''.'' @ rt_validator t, lr_user = publicUser\<rparr>))) w3 =
      (r, w')"
    by (simp add: act_simps now_reads w3(3))
  then show ?thesis
  proof (cases rule: andthen_cases)
    case (first e)
    with faults.create_any [OF w3(1) first(1)] w3(4) show ?thesis by auto
  next
    case made: (second y w4)
    have w4: "cok w4"
      using session_steps(6) [OF w3(1) disjI2 [OF disjI1 [OF made(1)]]] w3(2) by simp
    obtain ra w5 where s5: "attempt (ca_set (ad_cache D) (ur_id u) (toPublicUser u)) (\<lambda>_. ret ()) w4 = (ra, w5)"
      by (meson surj_pair)
    note f5 = cache_try [OF w4 s5]
    have "w' = w5"
      using made(2) s5 f5(1) sign_reads [of "ur_id u" i "ur_role u" w5]
      by (auto simp: Let_def act_simps andthen_def split: sum.splits)
    with f5(2) faults.create_any [OF w3(1) made(1)] w3(4) show ?thesis by auto
  qed
qed

lemma login_step:
  assumes "sok w" "tok w" "cok w" and "auth_login D raw w = (r, w')"
  shows "session_step (users w) (clock w) (idx w) Opening (sess w) (sess w')"
proof (cases "login_credentials (ad_zod D) raw")
  case (Inl e)
  with assms(4) show ?thesis by (auto simp: auth_login_def intro: same)
next
  case (Inr np)
  then obtain n p where c: "login_credentials (ad_zod D) raw = Inr (n, p)" by (cases np) auto
  note f1 = throttle_steps [OF assms(2), of n]
  from assms(4) have "andthen (th_assert (ad_throttle D) n) (\<lambda>_.
      andthen (us_findByUsername (ad_users D) n) (login_answer D n p)) w = (r, w')"
    by (simp add: login_steps [OF c])
  then show ?thesis
  proof (cases rule: andthen_cases)
    case (first e)
    with f1(1) have "sess w' = sess w" by blast
    then show ?thesis by (simp add: same)
  next
    case s1: (second x w1)
    note f1 = f1 [OF disjI1 [OF s1(1)]]
    from s1(2) show ?thesis
    proof (cases rule: andthen_cases)
      case (first e)
      with user_steps(1) [OF disjI1 [OF first(1)]] f1 show ?thesis by (simp add: same)
    next
      case s2: (second ru w2)
      note f2 = user_steps [OF disjI1 [OF s2(1)]]
      have w2: "sess w2 = sess w" "sok w2" "tok w2" "cok w2" "clock w2 = clock w" "users w1 = users w"
        using f1 f2 assms(1-3) by simp_all
      have ru: "ru = find (\<lambda>u. lower (ur_username u) = lower n) (users w)"
        using accounts.find_name [OF s2(1)] w2(6) by simp
      show ?thesis
      proof (cases "\<exists>u. ru = Some u \<and> ad_compare D p (ur_passwordHash u)")
        case True
        then obtain u where u: "ru = Some u" "open_session D n u w2 = (r, w')"
          using s2(2) by (auto simp: login_answer_def)
        moreover have "u \<in> set (users w)"
          using ru [unfolded u(1), symmetric] by (auto simp: find_Some_iff)
        ultimately show ?thesis
          using open_session_any [OF w2(2-4) u(2)] w2(1,5) by (auto intro: same opened)
      next
        case False
        with s2(2) have "login_refusal D n w2 = (r, w')"
          by (auto simp: login_answer_def split: option.splits if_splits)
        then obtain r3 where "th_record (ad_throttle D) n w2 = (r3, w')"
          by (auto simp: login_refusal_def andthen_def split: prod.splits sum.splits)
        with throttle_steps(1) [OF w2(3) disjI2 [OF disjI1]] w2(1) have "sess w' = sess w" by metis
        then show ?thesis by (simp add: same)
      qed
    qed
  qed
qed

text \<open>The refresh names its session in the token; from any other text it changes nothing.\<close>

lemma refresh_user_step:
  assumes "sok w" and "sess w i = Some s" and "u \<in> set us" and "ur_id u = se_userId s"
    and "refresh_user D i vo s u w = (r, w')"
  shows "session_step us (clock w) ix (Refreshing i) (sess w) (sess w')"
proof -
  obtain t w1 where s1: "ad_generateRefreshToken D w = (Inr t, w1)"
    using token_draw [of w] by blast
  note f1 = draw_steps [OF disjI2 [OF s1]]
  have w1: "sok w1" "sess w1 = sess w" "clock w1 = clock w"
    using f1 assms(1) by simp_all
  show ?thesis
  proof (cases vo)
    case None
    with assms(5) s1 w1(2) show ?thesis by (simp add: refresh_user_def act_simps same)
  next
    case (Some v)
    let ?p = "\<lparr>rp_presentedHash = ad_hashRefreshValidator D v, rp_newHash = rt_hash t, rp_role = ur_role u, rp_now = clock w\<rparr>"
    obtain ra w2 where s2: "so_rotate (ad_sessions D) i (se_userId s) ?p w1 = (ra, w2)"
      by (meson surj_pair)
    have "w' = w2"
      using assms(5) s1 s2 Some sign_reads [of "ur_id u" i "ur_role u" w2]
      by (cases ra) (auto simp: refresh_user_def act_simps now_reads w1(3) andthen_def refresh_answer_def
          split: rotate_outcome.splits sum.splits)
    with faults.rotate_any [OF w1(1) s2] w1(2) assms(2) show ?thesis
      using judged [of "sess w" i s u us ?p "clock w" ix, OF assms(2-4)] by (auto intro: same)
  qed
qed

lemma refresh_step:
  assumes "sok w" and "auth_refresh D raw w = (r, w')" and "\<And>i s. sess w i = Some s \<Longrightarrow> uuid (se_userId s)"
  shows "\<exists>i. session_step (users w) (clock w) (idx w) (Refreshing i) (sess w) (sess w')"
proof (cases "\<exists>rv i vo. raw = Some rv \<and> js_truthy (Some rv) \<and> split_value rv = Inr (Some (i, vo))")
  case False
  then have "w' = w"
    using assms(2) by (cases raw) (auto simp: auth_refresh_def split: if_splits sum.splits option.splits)
  then show ?thesis by (auto intro: same)
next
  case True
  then obtain rv i vo where rv: "raw = Some rv" "js_truthy (Some rv)" "split_value rv = Inr (Some (i, vo))"
    by blast
  from assms(2) have "andthen (so_get (ad_sessions D) i) (refresh_session D i vo) w = (r, w')"
    by (simp add: rv(1) refresh_steps [OF rv(2,3)])
  then have "session_step (users w) (clock w) (idx w) (Refreshing i) (sess w) (sess w')"
  proof (cases rule: andthen_cases)
    case (first e)
    with sessions.get_frame [OF assms(1) first(1)] show ?thesis by (simp add: same)
  next
    case s1: (second so w1)
    note f1 = session_steps [OF assms(1) disjI1 [OF s1(1)]] sessions.get_frame [OF assms(1) s1(1)]
    show ?thesis
    proof (cases so)
      case None
      with s1(2) f1 show ?thesis by (simp add: refresh_session_def same)
    next
      case (Some s)
      have live: "sess w i = Some s"
        using sessions.get [OF assms(1) s1(1)] Some by simp
      from s1(2) Some have "andthen (us_findById (ad_users D) (se_userId s)) (\<lambda>user. case user of
         None \<Rightarrow> andthen (so_deleteAllForUser (ad_sessions D) (se_userId s)) (\<lambda>_.
                 raise (UnauthorizedError INVALID_REFRESH_TOKEN_MESSAGE))
       | Some u \<Rightarrow> refresh_user D i vo s u) w1 = (r, w')"
        by (simp add: refresh_session_def)
      then show ?thesis
      proof (cases rule: andthen_cases)
        case (first e)
        with user_steps(1) [OF disjI2 [OF first(1)]] f1 show ?thesis by (simp add: same)
      next
        case s2: (second ru w2)
        note f2 = user_steps [OF disjI2 [OF s2(1)]]
        have w2: "sok w2" "sess w2 = sess w" "idx w2 = idx w" "clock w2 = clock w" "users w1 = users w"
          using f1 f2 assms(1) by simp_all
        have ru: "ru = find (\<lambda>u. ur_id u = se_userId s) (users w)"
          using accounts.find_id [OF assms(3) [OF live] s2(1)] w2(5) by simp
        show ?thesis
        proof (cases ru)
          case None
          with s2(2) obtain rd where s3: "so_deleteAllForUser (ad_sessions D) (se_userId s) w2 = (rd, w')"
            by (auto simp: andthen_def split: prod.splits sum.splits)
          have "se_userId s \<notin> ur_id ` set (users w)"
            using ru [unfolded None, symmetric] by (auto simp: find_None_iff)
          from orphaned [of "sess w" i, OF live this, of "clock w" "idx w"]
          have gone: "session_step (users w) (clock w) (idx w) (Refreshing i) (sess w)
            (\<lambda>j. if j \<in> idx w (se_userId s) then None else sess w j)" .
          from faults.delete_all_any [OF w2(1) s3] show ?thesis
            unfolding w2(2,3) by (elim disjE) (simp_all add: same gone)
        next
          case u: (Some u)
          have "u \<in> set (users w)" "ur_id u = se_userId s"
            using ru [unfolded u, symmetric] by (auto simp: find_Some_iff)
          moreover have "refresh_user D i vo s u w2 = (r, w')"
            using s2(2) u by simp
          ultimately show ?thesis
            using refresh_user_step [OF w2(1), of i s u "users w" vo r w' "idx w"] live w2(2,4) by simp
        qed
      qed
    qed
  qed
  then show ?thesis by blast
qed

lemma logout_step:
  assumes "sok w" and "auth_logout D (Some i) ui w = (r, w')"
  shows "session_step us now ix (Ending i) (sess w) (sess w')"
  using assms(2) faults.delete_any [OF assms(1)]
  by (cases ui) (auto simp: auth_logout_def split: if_splits intro: same, metis same ended)

lemma logoutAll_step:
  assumes "sok w" and "auth_logoutAll D (Some u) w = (r, w')"
  shows "session_step us now (idx w) (EndingAll u) (sess w) (sess w')"
  using assms(2) faults.delete_all_any [OF assms(1)]
  by (auto simp: auth_logoutAll_def split: if_splits intro: same) (metis same all_ended)

end

sublocale backend \<subseteq> steps: resilient_auth "auth_service R P th J env sha compare Z"
  "\<lambda>w. session_at val (w_redis w)" "\<lambda>w. index_at val (w_redis w)" "\<lambda>w. sessions_ok val (w_redis w)"
  healthy w_now th "\<lambda>w. failures_at val (w_redis w)" "\<lambda>w. lock_at dl (w_redis w)"
  "\<lambda>w. throttle_ok val dl (w_redis w)" "\<lambda>w. rd_now R (w_redis w)"
  "\<lambda>w. profile_at val (w_redis w)" "\<lambda>w. cache_ok val (w_redis w)"
  "\<lambda>w. rows (w_pg w)" lower pg_text uuid
proof (intro resilient_auth.intro)
  show "resilient_store (ad_sessions (auth_service R P th J env sha compare Z)) (\<lambda>w. session_at val (w_redis w))
    (\<lambda>w. index_at val (w_redis w)) (\<lambda>w. sessions_ok val (w_redis w)) healthy w_now"
    unfolding auth_service_simps by (rule sess_faults.resilient_store_axioms)
qed (rule auth.auth_backend_axioms)

context backend
begin

lemmas service_login_step = steps.login_step [unfolded auth_service_simps, OF stores_okD(1) stores_okD(2) stores_okD(3)]
lemmas service_refresh_step = steps.refresh_step
lemmas service_logout_step = steps.logout_step
lemmas service_logoutAll_step = steps.logoutAll_step

end

end
