(* ===== verification/HttpSessions.thy ===== *)
theory HttpSessions
  imports HttpProperties AuthProperties SessionRefinement
begin

section \<open>Every request is one step of the session machine\<close>

text \<open>
  The refinement of \<open>SessionRefinement\<close> for whole HTTP requests: limiter, authentication,
  controller and service together. \<open>still V m\<close>: the action \<open>m\<close> leaves the view \<open>V\<close> of the
  world as it is, whatever its outcome.
\<close>

definition still :: "('w \<Rightarrow> 'v) \<Rightarrow> ('w, 'e, 'a) act \<Rightarrow> bool" where
  "still V m \<longleftrightarrow> (\<forall>w. V (snd (m w)) = V w)"

named_theorems still_intros \<open>composition of still\<close>

lemma stillD: "still V m \<Longrightarrow> m w = (r, w') \<Longrightarrow> V w' = V w"
  unfolding still_def by (metis snd_conv)

lemma stillI: "(\<And>w r w'. m w = (r, w') \<Longrightarrow> V w' = V w) \<Longrightarrow> still V m"
  unfolding still_def by (metis prod.collapse)

lemma still_andthen [still_intros]: "still V m \<Longrightarrow> (\<And>a. still V (f a)) \<Longrightarrow> still V (andthen m f)"
  by (rule stillI, erule andthen_cases) (metis stillD)+

lemma still_attempt [still_intros]: "still V m \<Longrightarrow> (\<And>e. still V (h e)) \<Longrightarrow> still V (attempt m h)"
  by (rule stillI) (auto simp: attempt_def split: prod.splits sum.splits dest: stillD, metis stillD)

lemma still_pure [still_intros]: "still V (ret a)" "still V (raise e)" "still V (lift_sum s)"
  by (simp_all add: still_def lift_sum_def split: sum.split)

lemma still_cases [still_intros]:
  "(b \<Longrightarrow> still V m) \<Longrightarrow> (\<not> b \<Longrightarrow> still V n) \<Longrightarrow> still V (if b then m else n)"
  "(x = None \<Longrightarrow> still V m) \<Longrightarrow> (\<And>a. x = Some a \<Longrightarrow> still V (f a)) \<Longrightarrow> still V (case x of None \<Rightarrow> m | Some a \<Rightarrow> f a)"
  "(\<And>e. s = Inl e \<Longrightarrow> still V (g e)) \<Longrightarrow> (\<And>a. s = Inr a \<Longrightarrow> still V (h a)) \<Longrightarrow> still V (case_sum g h s)"
  "(\<And>a b. p = (a, b) \<Longrightarrow> still V (k a b)) \<Longrightarrow> still V (case p of (a, b) \<Rightarrow> k a b)"
  by (auto split: option.split sum.split prod.split)

subsection \<open>What the calls leave alone\<close>

lemma still_pg_call [still_intros]: "still w_redis (pg_call q)"
  by (rule stillI) (rule pg_call_frame)

lemma still_local [still_intros]:
  "still w_redis (pg_read q)" "still w_redis draw" "still w_redis date_now"
  unfolding pg_read_def by (rule still_pg_call) (simp_all add: still_def)

lemma still_promise_all2 [still_intros]: "still V m \<Longrightarrow> still V n \<Longrightarrow> still V (promise_all2 m n)"
  by (rule stillI) (auto simp: promise_all2_def split: prod.splits dest!: stillD)

lemma still_views: "still w_redis m \<Longrightarrow> still (\<lambda>w. session_at val (w_redis w)) m"
  by (simp add: still_def)

lemma still_read: "still (\<lambda>w. (w_redis w, w_pg w, w_now w)) (redis_call (\<lambda>st. (Inr (g st), st)))"
proof (rule stillI)
  fix w w' :: "('a, 'b) world" and r :: "exn + 'c"
  assume run: "redis_call (\<lambda>st. (Inr (g st), st)) w = (r, w')"
  from redis_call_state [OF run] redis_call_frame [OF run]
  show "(w_redis w', w_pg w', w_now w') = (w_redis w, w_pg w, w_now w)"
    by auto
qed

lemma still_read_redis: "still w_redis (redis_call (\<lambda>st. (Inr (g st), st)))"
  by (rule stillI) (auto dest: stillD [OF still_read])

lemma still_authentication:
  "still (\<lambda>w. (w_redis w, w_pg w, w_now w)) (authentication (verifyAccessToken J env) (session_get R) rq)"
proof -
  have "still (\<lambda>w. (w_redis w, w_pg w, w_now w)) (verifyAccessToken J env t)" for t
    by (auto simp: still_def verifyAccessToken_apply split: sum.split)
  moreover have "still (\<lambda>w. (w_redis w, w_pg w, w_now w)) (session_get R i)" for i
    unfolding session_get_def by (intro still_intros still_read)
  ultimately show ?thesis
    unfolding authentication_def Let_def by (intro still_intros)
qed

text \<open>The routes that do not concern the sessions.\<close>

lemma still_createUser: "still w_redis (CreateUserController_handle (user_service R P bcrypt Z) rq)"
  unfolding CreateUserController_handle_def service_createUser_def user_service_simps user_repo_simps
    user_existsByUsername_def user_existsByEmail_def user_create_def
  by (intro still_intros; simp split: exn.split option.split; intro conjI allI impI still_intros)

lemma still_listUsers:
  "still w_redis (andthen (requireRole Admin rq) (ListUsersController_handle (user_service R P bcrypt Z)))"
  unfolding requireRole_def ListUsersController_handle_def service_listUsers_def user_service_simps user_repo_simps
    user_listPaginated_def
  by (intro still_intros)

lemma still_getUserInfo:
  assumes "redis_server R val dl"
  shows "still (\<lambda>w. session_at val (w_redis w)) (GetUserInfoController_handle (user_service R P bcrypt Z) rq)"
proof -
  have "still w_redis (cache_getUserProfile R i)" for i
    unfolding cache_getUserProfile_def by (intro still_intros still_read_redis)
  moreover have "still (\<lambda>w. session_at val (w_redis w)) (cache_setUserProfile R i p n)" for i p n
    by (rule stillI) (rule profile_keys_views(1) [OF redis_server.cache_set_unchanged [OF assms]])
  ultimately show ?thesis
    unfolding GetUserInfoController_handle_def service_getUserProfile_def readCachedProfile_def Let_def
      user_service_simps user_repo_simps cache_repo_simps user_findById_def
    by (intro still_intros) (auto intro: still_views still_intros)
qed


subsection \<open>The refinement\<close>

text \<open>The caller of a request: the user and session its access token was signed for, if the session is alive.\<close>

definition caller ::
  "jwt_lib \<Rightarrow> string option \<Rightarrow> ('r \<Rightarrow> string \<Rightarrow> rval option) \<Rightarrow> request \<Rightarrow> ('r, 'p) world \<Rightarrow> string \<Rightarrow> string \<Rightarrow> bool" where
  "caller J env val rq w u i \<longleftrightarrow> (\<exists>token r s. auth_header_parts (the (rq_authorization rq)) = (''Bearer'', Some token) \<and>
     signed_for J env (w_now w) token u i r \<and> session_at val (w_redis w) i = Some s \<and> se_userId s = u)"

text \<open>The events a route may cause.\<close>

definition may_cause ::
  "jwt_lib \<Rightarrow> string option \<Rightarrow> ('r \<Rightarrow> string \<Rightarrow> rval option) \<Rightarrow> verb \<Rightarrow> string \<Rightarrow> request \<Rightarrow> ('r, 'p) world \<Rightarrow>
   session_event \<Rightarrow> bool" where
  "may_cause J env val m path rq w ev = (case ev of
     Reading \<Rightarrow> True
   | Opening \<Rightarrow> (m, path) = (POST, ''/login'')
   | Refreshing i \<Rightarrow> (m, path) = (POST, ''/auth/refresh'')
   | Ending i \<Rightarrow> (m, path) = (POST, ''/auth/logout'') \<and> (\<exists>u. caller J env val rq w u i)
   | EndingAll u \<Rightarrow> (m, path) = (POST, ''/auth/logout-all'') \<and> (\<exists>i. caller J env val rq w u i))"

definition full_view ::
  "('r \<Rightarrow> string \<Rightarrow> rval option) \<Rightarrow> ('r \<Rightarrow> string \<Rightarrow> int option) \<Rightarrow> ('p \<Rightarrow> user_record list) \<Rightarrow> ('r, 'p) world \<Rightarrow>
   sessions \<times> (string \<Rightarrow> string set) \<times> bool \<times> user_record list \<times> int" where
  "full_view val dl rows w =
     (session_at val (w_redis w), index_at val (w_redis w), stores_ok val dl w, rows (w_pg w), w_now w)"

lemma still_hit:
  assumes "limiter_store R val dl hit"
  shows "still (full_view val dl rows) (hit k n m)"
proof (rule stillI)
  fix w r w'
  assume "hit k n m w = (r, w')"
  with assms have u: "unchanged (rd_now R) val dl rate_key (w_redis w) (w_redis w')"
    and o: "w_pg w' = w_pg w" "w_now w' = w_now w"
    by (auto simp: limiter_store_def)
  have "\<not> rate_key (''login:failures:'' @ b)" "\<not> rate_key (''login:lock:'' @ b)" "\<not> rate_key (profileKey i)" for b i
    by (simp_all add: rate_key_def key_defs)
  with session_view [OF u] throttle_view [OF u] profile_view [OF u] o
  show "full_view val dl rows w' = full_view val dl rows w"
    by (simp add: full_view_def stores_ok_def)
qed

text \<open>What is in front of a handler leaves the view alone, or the handler runs.\<close>

lemma limited_cases:
  assumes "limiter_store R val dl hit" and "rate_limited hit l rest rq w = (r, w')"
  obtains (stopped) "full_view val dl rows w' = full_view val dl rows w"
  | (passed) w1 where "full_view val dl rows w1 = full_view val dl rows w" "rest rq w1 = (r, w')"
  using assms(2) unfolding rate_limited_def
proof (cases rule: andthen_cases)
  case (first e)
  then show ?thesis using stopped stillD [OF still_hit [OF assms(1)] first(1)] by blast
next
  case (second within w1)
  note v = stillD [OF still_hit [OF assms(1)] second(1)]
  show ?thesis
  proof (cases within)
    case True
    with second(2) v show ?thesis by (intro passed) simp_all
  next
    case False
    with second(2) v show ?thesis by (intro stopped) simp
  qed
qed

lemma authenticated_cases:
  assumes "redis_server R val dl" and "jwt_library J" and "stores_ok val dl w"
    and "authenticated (createRouter R P J env sha bcrypt compare Z hit ipKey limits) h rq w = (r, w')"
  obtains (stopped) "full_view val dl rows w' = full_view val dl rows w"
  | (passed) u i role w1 where "full_view val dl rows w1 = full_view val dl rows w" "caller J env val rq w u i"
      "h (rq\<lparr>rq_userId := Some u, rq_sessionId := Some i, rq_userRole := Some role\<rparr>) w1 = (r, w')"
  using assms(4) unfolding authenticated_def createRouter_simps
proof (cases rule: andthen_cases)
  case (first e)
  then show ?thesis
    using stopped stillD [OF still_authentication first(1)] by (simp add: full_view_def stores_ok_def)
next
  case (second rq' w1)
  have v: "full_view val dl rows w1 = full_view val dl rows w"
    using stillD [OF still_authentication second(1)] by (simp add: full_view_def stores_ok_def)
  from authenticated_session [OF assms(1,2) stores_okD(1) [OF assms(3)] second(1)] obtain token u i role s where
    "auth_header_parts (the (rq_authorization rq)) = (''Bearer'', Some token)" "signed_for J env (w_now w) token u i role"
    "session_at val (w_redis w) i = Some s" "se_userId s = u"
    "rq' = rq\<lparr>rq_userId := Some u, rq_sessionId := Some i, rq_userRole := Some role\<rparr>"
    by blast
  with v second(2) show ?thesis
    by (intro passed) (auto simp: caller_def)
qed

lemma full_viewD:
  assumes "full_view val dl rows w1 = full_view val dl rows w"
  shows "session_at val (w_redis w1) = session_at val (w_redis w)" "index_at val (w_redis w1) = index_at val (w_redis w)"
    "stores_ok val dl w1 = stores_ok val dl w" "rows (w_pg w1) = rows (w_pg w)" "w_now w1 = w_now w"
  using assms by (simp_all add: full_view_def)

text \<open>A controller does to the world what its service does.\<close>

lemma controller_world:
  assumes "andthen m (\<lambda>a. ret (f a)) w = (r, w')"
  obtains x where "m w = (x, w')"
  using assms by (cases rule: andthen_cases) auto

lemma if_SomeE:
  "(if b then Some c else e) = Some x \<Longrightarrow> (b \<Longrightarrow> x = c \<Longrightarrow> P) \<Longrightarrow> (e = Some x \<Longrightarrow> P) \<Longrightarrow> P"
  by (cases b) auto

lemma v1_routes:
  assumes "v1_chain A m path = Some chain"
  obtains (users) "chain = CreateUserController_handle (ap_user A)"
  | (login) "(m, path) = (POST, ''/login'')"
      "chain = rate_limited (ap_hit A) (loginRateLimiter A) (LoginUserController_handle (ap_auth A))"
  | (refresh) "(m, path) = (POST, ''/auth/refresh'')"
      "chain = rate_limited (ap_hit A) (refreshRateLimiter A) (RefreshTokenController_handle (ap_auth A))"
  | (logout) "(m, path) = (POST, ''/auth/logout'')" "chain = authenticated A (LogoutController_handle (ap_auth A))"
  | (logout_all) "(m, path) = (POST, ''/auth/logout-all'')"
      "chain = authenticated A (LogoutAllController_handle (ap_auth A))"
  | (me) "chain = authenticated A (GetUserInfoController_handle (ap_user A))"
  | (admin) "chain = authenticated A (\<lambda>request.
      andthen (requireRole Admin request) (ListUsersController_handle (ap_user A)))"
  using assms unfolding v1_chain_def
  by (elim if_SomeE)
    (erule users, erule (1) login, erule (1) refresh, erule (1) logout, erule (1) logout_all, erule me, erule admin, simp)

text \<open>A chain of the router, from the world in which the limiter let the request through.\<close>

lemma chain_step:
  assumes "backend R val dl (LoginThrottle_new (rc_loginThrottle limits)) P rows lower pg_text uuid" and "jwt_library J"
    and "limiter_store R val dl hit" and ok: "stores_ok val dl w"
    and ids: "\<forall>i s. session_at val (w_redis w) i = Some s \<longrightarrow> uuid (se_userId s)"
    and "v1_chain (createRouter R P J env sha bcrypt compare Z hit ipKey limits) m path = Some chain"
    and "chain rq w = (r, w')"
  shows "\<exists>ev. may_cause J env val m path rq w ev \<and>
    session_step (rows (w_pg w)) (w_now w) (index_at val (w_redis w)) ev (session_at val (w_redis w)) (session_at val (w_redis w'))"
proof -
  let ?A = "createRouter R P J env sha bcrypt compare Z hit ipKey limits"
  have server: "redis_server R val dl"
    using assms(1) by (simp add: backend_def redis_throttle_def)
  have unmoved: ?thesis if "session_at val (w_redis w') = session_at val (w_redis w)"
    using that same by (intro exI [of _ Reading]) (simp add: may_cause_def)
  from assms(6) show ?thesis
  proof (cases rule: v1_routes)
    case users
    with assms(7) stillD [OF still_createUser, of R P bcrypt Z rq w r w'] show ?thesis
      by (intro unmoved) simp
  next
    case login
    from assms(3) assms(7) [unfolded login(2) createRouter_simps] show ?thesis
    proof (cases rule: limited_cases [where rows = rows])
      case stopped
      then show ?thesis by (intro unmoved full_viewD)
    next
      case (passed w1)
      note v = full_viewD [OF passed(1)]
      from passed(2) obtain x where
        "auth_login (auth_service R P (LoginThrottle_new (rc_loginThrottle limits)) J env sha compare Z) (rq_body rq) w1 = (x, w')"
        unfolding LoginUserController_handle_def by (rule controller_world)
      from backend.service_login_step [OF assms(1) _ _ _ this] ok v login(1) show ?thesis
        by (intro exI [of _ Opening]) (simp add: may_cause_def)
    qed
  next
    case refresh
    from assms(3) assms(7) [unfolded refresh(2) createRouter_simps] show ?thesis
    proof (cases rule: limited_cases [where rows = rows])
      case stopped
      then show ?thesis by (intro unmoved full_viewD)
    next
      case (passed w1)
      note v = full_viewD [OF passed(1)]
      show ?thesis
      proof (cases "body_refreshToken rq")
        case (Inl e)
        with passed(2) v(1) show ?thesis
          by (intro unmoved) (simp add: RefreshTokenController_handle_def)
      next
        case (Inr token)
        with passed(2) obtain x where
          "auth_refresh (auth_service R P (LoginThrottle_new (rc_loginThrottle limits)) J env sha compare Z) token w1 = (x, w')"
          unfolding RefreshTokenController_handle_def by (simp, elim controller_world)
        from backend.service_refresh_step [OF assms(1) _ this] ok v ids obtain i where
          "session_step (rows (w_pg w)) (w_now w) (index_at val (w_redis w)) (Refreshing i)
            (session_at val (w_redis w)) (session_at val (w_redis w'))"
          by (auto simp: stores_ok_def)
        with refresh(1) show ?thesis
          by (intro exI [of _ "Refreshing i"]) (simp add: may_cause_def)
      qed
    qed
  next
    case logout
    from server assms(2) ok assms(7) [unfolded logout(2)] show ?thesis
    proof (cases rule: authenticated_cases [where rows = rows])
      case stopped
      then show ?thesis by (intro unmoved full_viewD)
    next
      case (passed u i role w1)
      note v = full_viewD [OF passed(1)]
      from passed(3) obtain x where
        "auth_logout (auth_service R P (LoginThrottle_new (rc_loginThrottle limits)) J env sha compare Z) (Some i) (Some u) w1 = (x, w')"
        unfolding LogoutController_handle_def createRouter_simps by (elim controller_world) simp
      from backend.service_logout_step [OF assms(1) _ this] ok v logout(1) passed(2) show ?thesis
        by (intro exI [of _ "Ending i"]) (auto simp: may_cause_def stores_ok_def)
    qed
  next
    case logout_all
    from server assms(2) ok assms(7) [unfolded logout_all(2)] show ?thesis
    proof (cases rule: authenticated_cases [where rows = rows])
      case stopped
      then show ?thesis by (intro unmoved full_viewD)
    next
      case (passed u i role w1)
      note v = full_viewD [OF passed(1)]
      from passed(3) obtain x where
        "auth_logoutAll (auth_service R P (LoginThrottle_new (rc_loginThrottle limits)) J env sha compare Z) (Some u) w1 = (x, w')"
        unfolding LogoutAllController_handle_def createRouter_simps by (elim controller_world) simp
      from backend.service_logoutAll_step [OF assms(1) _ this, of "rows (w_pg w)" "w_now w"] ok v logout_all(1) passed(2)
      show ?thesis
        by (intro exI [of _ "EndingAll u"]) (auto simp: may_cause_def stores_ok_def)
    qed
  next
    case me
    from server assms(2) ok assms(7) [unfolded me] show ?thesis
    proof (cases rule: authenticated_cases [where rows = rows])
      case stopped
      then show ?thesis by (intro unmoved full_viewD)
    next
      case (passed u i role w1)
      from stillD [OF still_getUserInfo [OF server] passed(3) [unfolded createRouter_simps]] full_viewD(1) [OF passed(1)]
      show ?thesis by (intro unmoved) simp
    qed
  next
    case admin
    from server assms(2) ok assms(7) [unfolded admin] show ?thesis
    proof (cases rule: authenticated_cases [where rows = rows])
      case stopped
      then show ?thesis by (intro unmoved full_viewD)
    next
      case (passed u i role w1)
      from stillD [OF still_listUsers passed(3) [unfolded createRouter_simps]] full_viewD(1) [OF passed(1)]
      show ?thesis by (intro unmoved) simp
    qed
  qed
qed

lemma asyncHandler_world: "asyncHandler h w = (resp, w') \<Longrightarrow> \<exists>r. h w = (r, w')"
  by (auto simp: asyncHandler_def split: prod.splits sum.splits)

lemma request_step:
  assumes "backend R val dl (LoginThrottle_new (rc_loginThrottle limits)) P rows lower pg_text uuid" and "jwt_library J"
    and "limiter_store R val dl hit" and ok: "stores_ok val dl w"
    and ids: "\<forall>i s. session_at val (w_redis w) i = Some s \<longrightarrow> uuid (se_userId s)"
    and "v1_route (createRouter R P J env sha bcrypt compare Z hit ipKey limits) m path rq w = (resp, w')"
  shows "\<exists>ev. may_cause J env val m path rq w ev \<and>
    session_step (rows (w_pg w)) (w_now w) (index_at val (w_redis w)) ev (session_at val (w_redis w)) (session_at val (w_redis w'))"
proof -
  let ?A = "createRouter R P J env sha bcrypt compare Z hit ipKey limits"
  have unmoved: ?thesis if "session_at val (w_redis w') = session_at val (w_redis w)"
    using that same by (intro exI [of _ Reading]) (simp add: may_cause_def)
  from asyncHandler_world [OF assms(6) [unfolded v1_route_def createRouter_simps]] obtain r where
    run: "rate_limited hit (apiRateLimiter ?A) (\<lambda>request.
      case v1_chain ?A m path of None \<Rightarrow> ret NOT_FOUND | Some chain \<Rightarrow> chain request) rq w = (r, w')"
    by (elim exE)
  from assms(3) run show ?thesis
  proof (cases rule: limited_cases [where rows = rows])
    case stopped
    then show ?thesis by (intro unmoved full_viewD)
  next
    case (passed w1)
    note v = full_viewD [OF passed(1)]
    show ?thesis
    proof (cases "v1_chain ?A m path")
      case None
      with passed(2) v(1) show ?thesis by (intro unmoved) simp
    next
      case (Some chain)
      with passed(2) have "chain rq w1 = (r, w')" by simp
      from chain_step [OF assms(1-3) _ _ Some this] ok ids v show ?thesis
        by (simp add: may_cause_def caller_def cong: session_event.case_cong)
    qed
  qed
qed

text \<open>
  C28. Refinement: one HTTP request is one step of the session machine. Whatever the route, the answer
  and the failures of the network, the live sessions afterwards are those before, or: a login
  opened one session of an account; a refresh replaced one session by what the rotation's
  specification says for it, or revoked the sessions of an account that is gone; a logout ended
  the caller's session, or all of the caller's indexed sessions. No other route touches them.
\<close>

theorem http_request_is_one_step:
  assumes "backend R val dl (LoginThrottle_new (rc_loginThrottle limits)) P rows lower pg_text uuid" and "jwt_library J"
    and "limiter_store R val dl hit" and "stores_ok val dl w"
    and "\<forall>i s. session_at val (w_redis w) i = Some s \<longrightarrow> uuid (se_userId s)"
    and "v1_route (createRouter R P J env sha bcrypt compare Z hit ipKey limits) m path rq w = (resp, w')"
  shows "\<exists>ev. may_cause J env val m path rq w ev \<and>
    session_step (rows (w_pg w)) (w_now w) (index_at val (w_redis w)) ev (session_at val (w_redis w)) (session_at val (w_redis w'))"
  by (rule request_step [OF assms])

text \<open>What the machine's steps mean for one session.\<close>

lemma rotated_identity:
  assumes "snd (rotate_spec (Some s) p) = Some s'"
  shows "se_userId s' = se_userId s" "se_createdAt s' = se_createdAt s" "se_absoluteExpiresAt s' = se_absoluteExpiresAt s"
  using assms by (auto simp: rotate_spec_def rotated_session_def split: rotate_outcome.splits)

lemma session_step_new:
  assumes "session_step us now ix ev S S'" and "S' i = Some s'" and "S i = None"
  shows "ev = Opening \<and> (\<exists>u h. u \<in> set us \<and> s' = new_session u h now)"
  using assms by (cases rule: session_step.cases) (auto split: if_splits)

lemma session_step_old:
  assumes "session_step us now ix ev S S'" and "S i = Some s" and "S' i = Some s'" and "ev \<noteq> Opening"
  shows "se_userId s' = se_userId s \<and> se_createdAt s' = se_createdAt s \<and> se_absoluteExpiresAt s' = se_absoluteExpiresAt s"
  using assms by (cases rule: session_step.cases) (auto split: if_splits dest: rotated_identity)

text \<open>
  C32. Sessions come from logins and keep their identity: over any request, a session that appears was
  opened by a login, now, for an account of the table; and over any request but a login a
  session that stays keeps its owner, its creation time and its absolute end, so no refresh can
  prolong it or hand it to somebody else.
\<close>

theorem sessions_come_from_logins:
  assumes "backend R val dl (LoginThrottle_new (rc_loginThrottle limits)) P rows lower pg_text uuid" and "jwt_library J"
    and "limiter_store R val dl hit" and "stores_ok val dl w"
    and "\<forall>i s. session_at val (w_redis w) i = Some s \<longrightarrow> uuid (se_userId s)"
    and "v1_route (createRouter R P J env sha bcrypt compare Z hit ipKey limits) m path rq w = (resp, w')"
    and "session_at val (w_redis w') i = Some s'"
  shows "case session_at val (w_redis w) i of
      None \<Rightarrow> (m, path) = (POST, ''/login'') \<and> (\<exists>u h. u \<in> set (rows (w_pg w)) \<and> s' = new_session u h (w_now w))
    | Some s \<Rightarrow> (m, path) = (POST, ''/login'') \<or> se_userId s' = se_userId s \<and> se_createdAt s' = se_createdAt s \<and>
        se_absoluteExpiresAt s' = se_absoluteExpiresAt s"
proof -
  obtain ev where cause: "may_cause J env val m path rq w ev" and step: "session_step (rows (w_pg w)) (w_now w)
      (index_at val (w_redis w)) ev (session_at val (w_redis w)) (session_at val (w_redis w'))"
    using request_step [OF assms(1-6)] by blast
  have login: "(m, path) = (POST, ''/login'')" if "ev = Opening"
    using cause that by (simp add: may_cause_def)
  show ?thesis
  proof (cases "session_at val (w_redis w) i")
    case None
    with session_step_new [OF step assms(7)] login show ?thesis by simp
  next
    case (Some s)
    with session_step_old [OF step Some assms(7)] login show ?thesis by auto
  qed
qed

lemma demo_ids: "\<forall>i s. session_at ref_value (w_redis demo_live) i = Some s \<longrightarrow> ref_uuid (se_userId s)"
  by (simp add: demo_store_session demo_session_def)

lemma demo_backend:
  "backend ref_redis ref_value ref_dl (LoginThrottle_new (rc_loginThrottle DEFAULT_RATE_LIMITS)) ref_pg ref_rows
     ref_lower ref_pg_text ref_uuid"
  using demo.backend_axioms by (simp add: DEFAULT_RATE_LIMITS_def default_throttle_def)

lemma demo_logout:
  "session_at ref_value (w_redis (snd (v1_route demo_app POST ''/auth/logout'' demo_request demo_live))) ''s1'' = None"
  by code_simp

lemma demo_live_stores_ok: "stores_ok ref_value ref_dl demo_live"
proof -
  let ?st = "rd_set ref_redis ref_init (sessionKey ''s1'') (Json (session_json demo_session)) 604800"
  have "unchanged (rd_now ref_redis) ref_value ref_dl session_key ref_init ?st"
    by (rule ref_server.unchanged_commands(1)) simp_all
  moreover have "unchanged (rd_now ref_redis) ref_value ref_dl session_key ?st demo_store"
    unfolding demo_store_def
  proof (rule ref_server.unchanged_commands(4))
    have "sessions_ok ref_value ?st"
      by (intro ref_server.sessions_ok_updates ref_init_ok) simp
    then show "\<not> is_text (ref_value ?st (userSessionsKey ''u1''))"
      by (rule sessions_okD(2))
  qed simp
  ultimately have "unchanged (rd_now ref_redis) ref_value ref_dl session_key ref_init demo_store"
    by (rule unchanged_trans)
  from session_keys_views [OF this] demo_world_ok demo_live_ok show ?thesis
    by (simp add: stores_ok_def)
qed

lemma http_request_is_one_step_witness:
  "\<exists>ev. may_cause ref_jwt demo_env ref_value POST ''/auth/logout'' demo_request demo_live ev \<and> ev \<noteq> Reading"
proof -
  let ?w' = "snd (v1_route demo_app POST ''/auth/logout'' demo_request demo_live)"
  obtain ev where ev: "may_cause ref_jwt demo_env ref_value POST ''/auth/logout'' demo_request demo_live ev"
    "session_step [demo_user] 1000 (index_at ref_value demo_store) ev (session_at ref_value demo_store)
      (session_at ref_value (w_redis ?w'))"
    using http_request_is_one_step [where env = demo_env and sha = demo_sha and bcrypt = demo_bcrypt and
        compare = demo_compare and Z = demo_zod and ipKey = "\<lambda>a. a" and m = POST and path = "''/auth/logout''" and
        rq = demo_request, OF demo_backend ref_jwt.jwt_library_axioms demo_limiter demo_live_stores_ok demo_ids surjective_pairing]
    by (simp add: demo_app_def) blast
  then have "ev \<noteq> Reading"
    using demo_logout by (auto simp: demo_store_session elim: reading_stepE)
  with ev(1) show ?thesis by blast
qed

lemma sessions_come_from_logins_witness:
  "\<exists>s. session_at ref_value (w_redis (snd (v1_route demo_app POST ''/login'' (demo_request\<lparr>rq_body := demo_credentials\<rparr>)
      demo_live))) ''r'' = Some s \<and> se_userId s = ''u1'' \<and> se_createdAt s = 1000"
proof -
  let ?rq = "demo_request\<lparr>rq_body := demo_credentials\<rparr>"
  have "session_at ref_value (w_redis (snd (v1_route demo_app POST ''/login'' ?rq demo_live))) ''r'' \<noteq> None"
    by code_simp
  then obtain s where s: "session_at ref_value (w_redis (snd (v1_route demo_app POST ''/login'' ?rq demo_live))) ''r'' = Some s"
    by blast
  from sessions_come_from_logins [where env = demo_env and sha = demo_sha and bcrypt = demo_bcrypt and
      compare = demo_compare and Z = demo_zod and ipKey = "\<lambda>a. a" and m = POST and path = "''/login''" and rq = ?rq,
      OF demo_backend ref_jwt.jwt_library_axioms demo_limiter demo_live_stores_ok demo_ids surjective_pairing
        s [unfolded demo_app_def]]
  have "\<exists>h. s = new_session demo_user h 1000"
    by (simp add: demo_store_session)
  with s show ?thesis
    by (auto simp: new_session_def)
qed

end
