(* ===== verification/Reachable.thy ===== *)
theory Reachable
  imports HttpSessions
begin

section \<open>All reachable worlds\<close>

text \<open>
  The hypotheses the other properties make about the stores hold by themselves: they are an
  invariant of every request under every failure. \<open>preserves I m\<close>: the action \<open>m\<close> keeps \<open>I\<close>.
\<close>

definition preserves :: "('w \<Rightarrow> bool) \<Rightarrow> ('w, 'e, 'a) act \<Rightarrow> bool" where
  "preserves I m \<longleftrightarrow> (\<forall>w r w'. I w \<longrightarrow> m w = (r, w') \<longrightarrow> I w')"

named_theorems preserves_intros \<open>composition of preserves\<close>

lemma preservesI: "(\<And>w r w'. I w \<Longrightarrow> m w = (r, w') \<Longrightarrow> I w') \<Longrightarrow> preserves I m"
  by (auto simp: preserves_def)

lemma preservesD: "preserves I m \<Longrightarrow> m w = (r, w') \<Longrightarrow> I w \<Longrightarrow> I w'"
  by (auto simp: preserves_def)

lemma preserves_andthen [preserves_intros]: "preserves I m \<Longrightarrow> (\<And>a. preserves I (f a)) \<Longrightarrow> preserves I (andthen m f)"
  by (rule preservesI, erule andthen_cases) (metis preservesD)+

lemma preserves_attempt [preserves_intros]:
  assumes "preserves I m" and "\<And>e. preserves I (h e)"
  shows "preserves I (attempt m h)"
proof (rule preservesI)
  fix w r w'
  assume I: "I w" and run: "attempt m h w = (r, w')"
  obtain x w1 where m: "m w = (x, w1)" by (meson surj_pair)
  have "I w1" using preservesD [OF assms(1) m I] .
  with run m assms(2) show "I w'"
    by (cases x) (auto simp: attempt_def dest: preservesD)
qed

lemma preserves_pure [preserves_intros]: "preserves I (ret a)" "preserves I (raise e)" "preserves I (lift_sum s)"
  by (simp_all add: preserves_def lift_sum_def split: sum.split)

lemma preserves_cases [preserves_intros]:
  "(b \<Longrightarrow> preserves I m) \<Longrightarrow> (\<not> b \<Longrightarrow> preserves I n) \<Longrightarrow> preserves I (if b then m else n)"
  "(x = None \<Longrightarrow> preserves I m) \<Longrightarrow> (\<And>a. x = Some a \<Longrightarrow> preserves I (f a)) \<Longrightarrow>
     preserves I (case x of None \<Rightarrow> m | Some a \<Rightarrow> f a)"
  "(\<And>e. s = Inl e \<Longrightarrow> preserves I (g e)) \<Longrightarrow> (\<And>a. s = Inr a \<Longrightarrow> preserves I (h a)) \<Longrightarrow> preserves I (case_sum g h s)"
  "(\<And>a b. p = (a, b) \<Longrightarrow> preserves I (k a b)) \<Longrightarrow> preserves I (case p of (a, b) \<Rightarrow> k a b)"
  "preserves I a \<Longrightarrow> preserves I b' \<Longrightarrow> preserves I c \<Longrightarrow> preserves I d \<Longrightarrow> preserves I (case_rotate_outcome a b' c d out)"
  by (auto split: option.split sum.split prod.split rotate_outcome.split)

lemma preserves_promise_all2 [preserves_intros]: "preserves I m \<Longrightarrow> preserves I n \<Longrightarrow> preserves I (promise_all2 m n)"
  by (rule preservesI) (auto simp: promise_all2_def split: prod.splits dest: preservesD)

text \<open>What leaves a part of the world as it is preserves every property of that part.\<close>

lemma preserves_still: "still V m \<Longrightarrow> (\<And>w w'. V w' = V w \<Longrightarrow> I w' = I w) \<Longrightarrow> preserves I m"
  by (rule preservesI) (metis stillD)

subsection \<open>The Redis store\<close>

lemma stores_ok_redis: "w_redis w' = w_redis w \<Longrightarrow> stores_ok val dl w' = stores_ok val dl w"
  by (simp add: stores_ok_def)

lemma preserves_redis_still: "still w_redis m \<Longrightarrow> preserves (stores_ok val dl) m"
  by (rule preserves_still [where V = w_redis]) (simp_all add: stores_ok_def)

text \<open>An action on the keys of one component keeps the others well formed.\<close>

lemma stores_ok_sessions:
  assumes "unchanged now val dl session_key (w_redis w) (w_redis w')" and "stores_ok val dl w" and "sessions_ok val (w_redis w')"
  shows "stores_ok val dl w'"
  using session_keys_views [OF assms(1)] assms(2,3) by (simp add: stores_ok_def)

lemma stores_ok_throttle:
  assumes "unchanged now val dl throttle_key (w_redis w) (w_redis w')" and "stores_ok val dl w" and "throttle_ok val dl (w_redis w')"
  shows "stores_ok val dl w'"
  using throttle_keys_views [OF assms(1)] assms(2,3) by (simp add: stores_ok_def)

lemma stores_ok_profiles:
  assumes "unchanged now val dl profile_key (w_redis w) (w_redis w')" and "stores_ok val dl w" and "cache_ok val (w_redis w')"
  shows "stores_ok val dl w'"
  using profile_keys_views [OF assms(1)] assms(2,3) by (simp add: stores_ok_def)

context redis_server
begin

lemma preserves_sessions:
  "preserves (stores_ok val dl) (session_create R i s)" "preserves (stores_ok val dl) (session_rotate R i u p)"
  "preserves (stores_ok val dl) (session_delete R i u)" "preserves (stores_ok val dl) (session_deleteAllForUser R u)"
  by (rule preservesI, rule stores_ok_sessions, erule (1) session_ops_unchanged [OF stores_okD(1)], assumption,
      erule (1) session_create_laws(1) [OF stores_okD(1)] session_rotate_laws(1) [OF stores_okD(1)]
        session_delete_laws(1) [OF stores_okD(1)] session_deleteAll_laws(1) [OF stores_okD(1)])+

lemma preserves_session_get: "preserves (stores_ok val dl) (session_get R i)"
  unfolding session_get_def by (intro preserves_redis_still still_intros still_read_redis)

lemma preserves_cache:
  "preserves (stores_ok val dl) (cache_getUserProfile R i)"
  "preserves (stores_ok val dl) (cache_setUserProfile R i p DEFAULT_TTL_SECONDS)"
proof -
  show "preserves (stores_ok val dl) (cache_getUserProfile R i)"
    unfolding cache_getUserProfile_def by (intro preserves_redis_still still_intros still_read_redis)
  show "preserves (stores_ok val dl) (cache_setUserProfile R i p DEFAULT_TTL_SECONDS)"
    by (rule preservesI, rule stores_ok_profiles, erule cache_set_unchanged, assumption,
        erule (1) cache_set_laws(1) [OF stores_okD(3)])
qed

end

context redis_throttle
begin

lemma preserves_throttle:
  "preserves (stores_ok val dl) (assertNotThrottled R n)" "preserves (stores_ok val dl) (recordFailure R th n)"
  "preserves (stores_ok val dl) (throttle_reset R n)"
proof -
  show "preserves (stores_ok val dl) (assertNotThrottled R n)"
    unfolding assertNotThrottled_def by (intro preserves_redis_still still_intros still_read_redis)
  show "preserves (stores_ok val dl) (recordFailure R th n)"
    by (rule preservesI, rule stores_ok_throttle, erule throttle_ops_unchanged(2) [OF stores_okD(2) valid, rotated], assumption,
        assumption, erule record_laws(1) [OF stores_okD(2) valid, rotated], assumption)
  show "preserves (stores_ok val dl) (throttle_reset R n)"
    by (rule preservesI, rule stores_ok_throttle, erule throttle_ops_unchanged(3) [OF stores_okD(2) valid, rotated], assumption,
        assumption, erule reset_laws(1) [OF stores_okD(2), rotated], assumption)
qed

end

subsection \<open>The table and the whole world\<close>

text \<open>The identifiers of the table are such as the server writes them.\<close>

definition world_ok ::
  "('r \<Rightarrow> string \<Rightarrow> rval option) \<Rightarrow> ('r \<Rightarrow> string \<Rightarrow> int option) \<Rightarrow> ('p \<Rightarrow> user_record list) \<Rightarrow>
   (string \<Rightarrow> bool) \<Rightarrow> ('r, 'p) world \<Rightarrow> bool" where
  "world_ok val dl rows uuid w \<longleftrightarrow> stores_ok val dl w \<and> (\<forall>u \<in> set (rows (w_pg w)). uuid (ur_id u))"

text \<open>What touches one of the two servers keeps the other's half.\<close>

lemma world_redis: "preserves (stores_ok val dl) m \<Longrightarrow> still w_pg m \<Longrightarrow> preserves (world_ok val dl rows uuid) m"
  by (rule preservesI) (auto simp: world_ok_def dest: preservesD stillD)

lemma still_pg [still_intros]:
  "still w_pg (redis_call c)" "still w_pg (redis_multi cs)" "still w_pg draw" "still w_pg date_now"
  by (rule stillI, rule redis_call_frame redis_multi_frame, assumption)+ (simp_all add: still_def)

lemma still_pg_repositories [still_intros]:
  "still w_pg (session_create R i s)" "still w_pg (session_rotate R i u p)" "still w_pg (session_delete R i u)"
  "still w_pg (session_deleteAllForUser R u)" "still w_pg (session_get R i)"
  "still w_pg (cache_getUserProfile R i)" "still w_pg (cache_setUserProfile R i q n)"
  "still w_pg (assertNotThrottled R b)" "still w_pg (recordFailure R th b)" "still w_pg (throttle_reset R b)"
  unfolding session_create_def session_rotate_def session_delete_def session_deleteAllForUser_def session_get_def
    cache_getUserProfile_def cache_setUserProfile_def assertNotThrottled_def recordFailure_def throttle_reset_def
    execOrThrow_def Let_def
  by (intro still_intros)+

text \<open>Reading the table, drawing values and reading the clock touch neither.\<close>

lemma world_local [preserves_intros]:
  "preserves (world_ok val dl rows uuid) (pg_read q)" "preserves (world_ok val dl rows uuid) draw"
  "preserves (world_ok val dl rows uuid) date_now"
  by (auto simp: preserves_def world_ok_def stores_ok_def pg_read_frame(1,2) draw_def date_now_def)

text \<open>The Redis operations on the whole world.\<close>

context redis_throttle
begin

lemma world_repositories:
  "preserves (world_ok val dl rows uuid) (session_create R i s)" "preserves (world_ok val dl rows uuid) (session_rotate R i u p)"
  "preserves (world_ok val dl rows uuid) (session_delete R i u)"
  "preserves (world_ok val dl rows uuid) (session_deleteAllForUser R u)" "preserves (world_ok val dl rows uuid) (session_get R i)"
  "preserves (world_ok val dl rows uuid) (cache_getUserProfile R i)"
  "preserves (world_ok val dl rows uuid) (cache_setUserProfile R i q DEFAULT_TTL_SECONDS)"
  "preserves (world_ok val dl rows uuid) (assertNotThrottled R b)"
  "preserves (world_ok val dl rows uuid) (recordFailure R th b)" "preserves (world_ok val dl rows uuid) (throttle_reset R b)"
  by (rule world_redis, rule preserves_sessions preserves_session_get preserves_cache preserves_throttle, rule still_intros)+

end

context postgres
begin

text \<open>An insert adds at most a row whose identifier the server accepted.\<close>

lemma insert_rows:
  assumes "pq_insert P s nu = (x, s')"
  shows "rows s' = rows s \<or> uuid (nu_id nu) \<and> (\<exists>xs ys. rows s = xs @ ys \<and> rows s' = xs @ inserted_row nu # ys)"
proof (cases "storable pg_text uuid nu")
  case False
  with insert_refused [of nu s] assms show ?thesis by auto
next
  case True
  then show ?thesis
    using insert_new [of nu s] insert_clash [of nu s] assms
    by (cases "violated lower (rows s) nu = {}") (auto simp: storable_def)
qed

lemma world_create: "preserves (world_ok val dl rows uuid) (user_create P nu)"
proof -
  have "preserves (world_ok val dl rows uuid) (pg_call (\<lambda>s. pq_insert P s nu))"
  proof (rule preservesI)
    fix w r w'
    assume ok: "world_ok val dl rows uuid w" and run: "pg_call (\<lambda>s. pq_insert P s nu) w = (r, w')"
    have "\<forall>u \<in> set (rows (w_pg w')). uuid (ur_id u)"
      using pg_call_frame(5) [OF run] ok insert_rows [of "w_pg w" nu "fst (pq_insert P (w_pg w) nu)" "w_pg w'"]
      by (auto simp: world_ok_def inserted_row_def)
    with ok pg_call_frame(1) [OF run] show "world_ok val dl rows uuid w'"
      by (simp add: world_ok_def stores_ok_def)
  qed
  then show ?thesis
    unfolding user_create_def
    by (rule preserves_attempt) (auto intro!: preserves_intros split: exn.split option.split)
qed

end

subsection \<open>The services and the router\<close>

context backend
begin

lemma world_login: "preserves (world_ok val dl rows uuid) (auth_login (auth_service R P th J env sha compare Z) raw)"
  unfolding auth_login_def open_session_def Let_def auth_service_simps session_repo_simps throttle_service_simps
    cache_repo_simps user_repo_simps user_findByUsername_def generateRefreshToken_def signAccessToken_def
  by (intro preserves_intros world_repositories)

lemma world_refresh: "preserves (world_ok val dl rows uuid) (auth_refresh (auth_service R P th J env sha compare Z) raw)"
  unfolding auth_refresh_def Let_def auth_service_simps session_repo_simps user_repo_simps user_findById_def
    generateRefreshToken_def signAccessToken_def
  by (intro preserves_intros world_repositories)

lemma world_logout:
  "preserves (world_ok val dl rows uuid) (auth_logout (auth_service R P th J env sha compare Z) i u)"
  "preserves (world_ok val dl rows uuid) (auth_logoutAll (auth_service R P th J env sha compare Z) u)"
  unfolding auth_logout_def auth_logoutAll_def auth_service_simps session_repo_simps
  by (intro preserves_intros world_repositories)+

lemma world_account:
  "preserves (world_ok val dl rows uuid) (service_createUser (user_service R P bcrypt Z) raw)"
  "preserves (world_ok val dl rows uuid) (service_getUserProfile (user_service R P bcrypt Z) i)"
  "preserves (world_ok val dl rows uuid) (service_listUsers (user_service R P bcrypt Z) raw)"
  unfolding service_createUser_def service_getUserProfile_def service_listUsers_def readCachedProfile_def Let_def
    user_service_simps user_repo_simps cache_repo_simps user_existsByUsername_def user_existsByEmail_def
    user_findById_def user_listPaginated_def
  by (intro preserves_intros world_repositories world_create)+

end

text \<open>What is in front of a handler.\<close>

lemma world_ok_view: "full_view val dl rows w' = full_view val dl rows w \<Longrightarrow> world_ok val dl rows uuid w' = world_ok val dl rows uuid w"
  by (simp add: full_view_def world_ok_def)

lemma world_limited:
  assumes "limiter_store R val dl hit" and "preserves (world_ok val dl rows uuid) (h rq)"
  shows "preserves (world_ok val dl rows uuid) (rate_limited hit l h rq)"
  unfolding rate_limited_def
  by (intro preserves_intros assms(2) preserves_still [OF still_hit [OF assms(1), of rows]] world_ok_view)

lemma world_authenticated:
  assumes "\<And>rq'. preserves (world_ok val dl rows uuid) (h rq')"
  shows "preserves (world_ok val dl rows uuid) (authenticated (createRouter R P J env sha bcrypt compare Z hit ipKey limits) h rq)"
  unfolding authenticated_def createRouter_simps
  by (intro preserves_andthen assms preserves_still [OF still_authentication]) (simp add: world_ok_def stores_ok_def)

lemma world_request:
  assumes "backend R val dl (LoginThrottle_new (rc_loginThrottle limits)) P rows lower pg_text uuid"
    and "limiter_store R val dl hit"
    and "v1_route (createRouter R P J env sha bcrypt compare Z hit ipKey limits) m path rq w = (resp, w')"
    and "world_ok val dl rows uuid w"
  shows "world_ok val dl rows uuid w'"
proof -
  let ?A = "createRouter R P J env sha bcrypt compare Z hit ipKey limits"
  have chain: "preserves (world_ok val dl rows uuid) (chain rq)" if "v1_chain ?A m path = Some chain" for chain
    using that
    by (cases rule: v1_routes)
      (simp_all add: CreateUserController_handle_def LoginUserController_handle_def RefreshTokenController_handle_def
        LogoutController_handle_def LogoutAllController_handle_def GetUserInfoController_handle_def
        ListUsersController_handle_def requireRole_def world_limited [OF assms(2)] world_authenticated preserves_intros
        backend.world_login [OF assms(1)] backend.world_refresh [OF assms(1)] backend.world_logout [OF assms(1)]
        backend.world_account [OF assms(1)])
  obtain r where run: "rate_limited hit (apiRateLimiter ?A) (\<lambda>request.
      case v1_chain ?A m path of None \<Rightarrow> ret NOT_FOUND | Some chain \<Rightarrow> chain request) rq w = (r, w')"
    using asyncHandler_world [OF assms(3) [unfolded v1_route_def createRouter_simps]] by (elim exE)
  have "preserves (world_ok val dl rows uuid) (rate_limited hit (apiRateLimiter ?A) (\<lambda>request.
      case v1_chain ?A m path of None \<Rightarrow> ret NOT_FOUND | Some chain \<Rightarrow> chain request) rq)"
    by (rule world_limited [OF assms(2)]) (intro preserves_intros chain)
  from preservesD [OF this run assms(4)] show ?thesis .
qed

subsection \<open>Reachability\<close>

text \<open>
  \<open>served R A rows uuid w0 w\<close>: the world \<open>w\<close> can come about from \<open>w0\<close> while the program serves
  requests. A request runs under whatever faults are pending; between requests the server's
  time passes, the clock of the process and the random source are anything, new faults come
  up, and somebody else may edit the table of accounts.
\<close>

inductive served ::
  "'r redis \<Rightarrow> ('r, 'p) world app \<Rightarrow> ('p \<Rightarrow> user_record list) \<Rightarrow> (string \<Rightarrow> bool) \<Rightarrow> ('r, 'p) world \<Rightarrow> ('r, 'p) world \<Rightarrow> bool"
  for R and A and rows and uuid and w0 where
  begun: "served R A rows uuid w0 w0"
| answered: "served R A rows uuid w0 w \<Longrightarrow> v1_route A m path rq w = (resp, w') \<Longrightarrow> served R A rows uuid w0 w'"
| waited: "served R A rows uuid w0 w \<Longrightarrow> 0 \<le> d \<Longrightarrow> \<forall>u \<in> set (rows p). uuid (ur_id u) \<Longrightarrow>
    served R A rows uuid w0 \<lparr>w_redis = rd_pass R (w_redis w) d, w_pg = p, w_now = t, w_random = rs, w_drawn = n, w_faults = fs\<rparr>"

text \<open>What holds of every stored session: it has an owner the table can look up, and its three dates agree.\<close>

definition session_sound :: "(string \<Rightarrow> bool) \<Rightarrow> session \<Rightarrow> bool" where
  "session_sound uuid s \<longleftrightarrow> uuid (se_userId s) \<and>
     se_absoluteExpiresAt s = se_createdAt s + SESSION_ABSOLUTE_TTL_SECONDS * 1000 \<and>
     se_expiresAt s < se_absoluteExpiresAt s + 1000"

lemma new_session_sound: "uuid (ur_id u) \<Longrightarrow> session_sound uuid (new_session u h now)"
  by (simp add: session_sound_def new_session_def session_constants)

lemma rotated_session_sound:
  assumes "snd (rotate_spec (Some s) p) = Some s'" and "session_sound uuid s"
  shows "session_sound uuid s'"
  using assms session_ttl_bounds(3) [of "rp_now p" "se_absoluteExpiresAt s"]
  by (auto simp: rotate_spec_def rotate_decision_def rotated_session_def session_sound_def
      split: rotate_outcome.splits if_splits)

lemma step_sound:
  assumes "session_step us now ix ev S S'" and "\<forall>u \<in> set us. uuid (ur_id u)" and "\<forall>i s. S i = Some s \<longrightarrow> session_sound uuid s"
  shows "\<forall>i s. S' i = Some s \<longrightarrow> session_sound uuid s"
  using assms
  by (cases rule: session_step.cases)
    (auto simp: new_session_sound split: if_splits intro: rotated_session_sound)

context redis_server
begin

lemma pass_views:
  assumes "0 \<le> d" and "stores_ok val dl w"
  shows "sessions_ok val (rd_pass R (w_redis w) d)" "throttle_ok val dl (rd_pass R (w_redis w) d)"
    "cache_ok val (rd_pass R (w_redis w) d)"
    "session_at val (rd_pass R (w_redis w) d) i = Some s \<Longrightarrow> session_at val (w_redis w) i = Some s"
  using assms(2)
  by (auto simp: stores_ok_def sessions_ok_def throttle_ok_def counter_ok_def cache_ok_def session_at_def
      val_pass [OF assms(1)] dl_pass [OF assms(1)] split: if_splits)

end

lemma served_well_formed:
  assumes "backend R val dl (LoginThrottle_new (rc_loginThrottle limits)) P rows lower pg_text uuid" and "jwt_library J"
    and "limiter_store R val dl hit"
    and "served R (createRouter R P J env sha bcrypt compare Z hit ipKey limits) rows uuid w0 w"
    and "world_ok val dl rows uuid w0" and "\<forall>i s. session_at val (w_redis w0) i = Some s \<longrightarrow> session_sound uuid s"
  shows "world_ok val dl rows uuid w \<and> (\<forall>i s. session_at val (w_redis w) i = Some s \<longrightarrow> session_sound uuid s)"
  using assms(4)
proof (induction rule: served.induct)
  case begun
  show ?case using assms(5,6) by blast
next
  case (answered w m path rq resp w')
  then have ok: "world_ok val dl rows uuid w" and sound: "\<forall>i s. session_at val (w_redis w) i = Some s \<longrightarrow> session_sound uuid s"
    by blast+
  then have ids: "\<forall>i s. session_at val (w_redis w) i = Some s \<longrightarrow> uuid (se_userId s)"
    and us: "\<forall>u \<in> set (rows (w_pg w)). uuid (ur_id u)" and st: "stores_ok val dl w"
    by (auto simp: session_sound_def world_ok_def)
  obtain ev where "session_step (rows (w_pg w)) (w_now w) (index_at val (w_redis w)) ev
      (session_at val (w_redis w)) (session_at val (w_redis w'))"
    using request_step [OF assms(1-3) st ids answered.hyps(2)] by blast
  from world_request [OF assms(1,3) answered.hyps(2) ok] step_sound [OF this us sound] show ?case by blast
next
  case (waited w d p t rs n fs)
  have server: "redis_server R val dl"
    using assms(1) by (simp add: backend_def redis_throttle_def)
  have "stores_ok val dl w"
    using waited.IH by (simp add: world_ok_def)
  note v = redis_server.pass_views [OF server waited.hyps(2) this]
  from waited.IH waited.hyps(3) show ?case
    by (auto simp: world_ok_def stores_ok_def v(1-3) dest!: v(4))
qed

text \<open>
  C30. Reachable worlds are well formed: start the program on an empty Redis server and any table with
  proper identifiers, let it serve any requests, with any failures of the network, clocks and
  edits of the table in between. Then every key of the sessions, the login throttle and the
  profile cache holds a value of its own kind, every table row has a proper identifier, and
  every live session belongs to such an identifier, has its absolute end exactly the absolute
  lifetime after its creation, and its idle end never a full second later than that. So what
  the other properties assume of the stores is never violated by the program itself.
\<close>

theorem reachable_worlds_well_formed:
  assumes "backend R val dl (LoginThrottle_new (rc_loginThrottle limits)) P rows lower pg_text uuid" and "jwt_library J"
    and "limiter_store R val dl hit"
    and "served R (createRouter R P J env sha bcrypt compare Z hit ipKey limits) rows uuid w0 w"
    and "\<forall>k. val (w_redis w0) k = None" and "\<forall>u \<in> set (rows (w_pg w0)). uuid (ur_id u)"
  shows "stores_ok val dl w \<and> (\<forall>u \<in> set (rows (w_pg w)). uuid (ur_id u)) \<and>
    (\<forall>i s. session_at val (w_redis w) i = Some s \<longrightarrow> uuid (se_userId s) \<and>
       se_absoluteExpiresAt s = se_createdAt s + SESSION_ABSOLUTE_TTL_SECONDS * 1000 \<and>
       se_expiresAt s < se_absoluteExpiresAt s + 1000)"
proof -
  have "world_ok val dl rows uuid w0" "\<forall>i s. session_at val (w_redis w0) i = Some s \<longrightarrow> session_sound uuid s"
    using assms(5,6)
    by (simp_all add: world_ok_def stores_ok_def sessions_ok_def throttle_ok_def counter_ok_def cache_ok_def session_at_def)
  from served_well_formed [OF assms(1-4) this] show ?thesis
    unfolding world_ok_def session_sound_def by blast
qed

definition demo_served :: "(ref_store, user_record list) world" where
  "demo_served = snd (v1_route demo_app POST ''/login'' (demo_request\<lparr>rq_body := demo_credentials\<rparr>) demo_world)"

lemma demo_served_session: "session_at ref_value (w_redis demo_served) ''r'' \<noteq> None"
  unfolding demo_served_def by code_simp

lemma reachable_worlds_well_formed_witness:
  "stores_ok ref_value ref_dl demo_served \<and>
   (\<exists>s. session_at ref_value (w_redis demo_served) ''r'' = Some s \<and> ref_uuid (se_userId s))"
proof -
  have "served ref_redis (createRouter ref_redis ref_pg ref_jwt demo_env demo_sha demo_bcrypt demo_compare demo_zod
      (\<lambda>k n m. ret True) (\<lambda>a. a) DEFAULT_RATE_LIMITS) ref_rows ref_uuid demo_world demo_served"
    unfolding demo_served_def demo_app_def by (rule answered [OF begun surjective_pairing])
  from reachable_worlds_well_formed [OF demo_backend ref_jwt.jwt_library_axioms demo_limiter this] demo_served_session
  show ?thesis
    by (auto simp: ref_uuid_def)
qed

end
