(* ===== verification/ThrottleCrowd.thy ===== *)
theory ThrottleCrowd
  imports ThrottleSystem
begin

section \<open>Many clients against the login throttle\<close>

text \<open>
  A login checks the lock, compares the password and then records the failure; between the
  check and the record other requests run. \<open>crowd_step\<close> is any number of clients that guess
  the password of one account: \<open>cr_tried\<close> counts the requests that have passed the check and
  not yet ended. What the sequential bound of \<open>ThrottleSystem\<close> becomes without the order.
\<close>

record 'r crowd =
  cr_store :: 'r
  cr_tried :: nat

inductive crowd_step :: "'r redis \<Rightarrow> string \<Rightarrow> 'r crowd \<Rightarrow> 'r crowd \<Rightarrow> bool" for R and n where
  passed: "rd_ttl R (cr_store c) (lockKey n) \<le> 0 \<Longrightarrow> crowd_step R n c (c\<lparr>cr_tried := Suc (cr_tried c)\<rparr>)"
| failed: "cr_tried c = Suc m \<Longrightarrow>
     record_failure_script R (failuresKey n) (lockKey n) (failureWindowSeconds default_throttle)
       (freeAttempts default_throttle) (baseDelaySeconds default_throttle)
       (maxDelaySeconds default_throttle) (cr_store c) = (Inr k, st') \<Longrightarrow>
     crowd_step R n c \<lparr>cr_store = st', cr_tried = m\<rparr>"
| succeeded: "cr_tried c = Suc m \<Longrightarrow>
     crowd_step R n c \<lparr>cr_store = rd_del R (rd_del R (cr_store c) (failuresKey n)) (lockKey n), cr_tried = m\<rparr>"
| vanished: "cr_tried c = Suc m \<Longrightarrow> crowd_step R n c (c\<lparr>cr_tried := m\<rparr>)"
| time: "0 \<le> d \<Longrightarrow> crowd_step R n c (c\<lparr>cr_store := rd_pass R (cr_store c) d\<rparr>)"

inductive crowd_reach :: "'r redis \<Rightarrow> string \<Rightarrow> 'r \<Rightarrow> 'r crowd \<Rightarrow> bool" for R and n and st0 where
  crowd_start: "crowd_reach R n st0 \<lparr>cr_store = st0, cr_tried = 0\<rparr>"
| crowd_next: "crowd_reach R n st0 c \<Longrightarrow> crowd_step R n c c' \<Longrightarrow> crowd_reach R n st0 c'"

context redis_server
begin

text \<open>
  The invariant: a lock ends within 15 minutes, and so does the window of the counted
  failures; nothing throttles an account for ever.
\<close>

definition crowd_ok :: "string \<Rightarrow> 'r \<Rightarrow> bool" where
  "crowd_ok n st \<longleftrightarrow> throttle_ok val dl st \<and>
     (\<forall>d. lock_at dl st (normalize n) = Some d \<longrightarrow> d \<le> rd_now R st + 900000) \<and>
     (failures_at val st (normalize n) \<noteq> 0 \<longrightarrow> (\<exists>x. dl st (failuresKey n) = Some x \<and> x \<le> rd_now R st + 900000))"

lemma crowd_record:
  assumes "crowd_ok n st"
    and run: "record_failure_script R (failuresKey n) (lockKey n) (failureWindowSeconds default_throttle)
       (freeAttempts default_throttle) (baseDelaySeconds default_throttle)
       (maxDelaySeconds default_throttle) st = (r, st')"
  shows "crowd_ok n st'"
proof -
  have ok: "throttle_ok val dl st"
    using assms(1) by (simp add: crowd_ok_def)
  note vw = record_failure_views [OF ok default_throttle_valid run]
  have "throttle_delay 1 900 e * 1000 \<le> 900000" for e
    using throttle_delay_le [of 1 900 e] by simp
  then have "d \<le> rd_now R st' + 900000" if "lock_at dl st' (normalize n) = Some d" for d
    using that assms(1) by (auto simp: vw(3,6) lock_after_def crowd_ok_def split: if_splits)
  moreover have "\<exists>x. dl st' (failuresKey n) = Some x \<and> x \<le> rd_now R st' + 900000"
    using assms(1) by (simp add: vw(5,6) crowd_ok_def)
  ultimately show ?thesis
    using vw(4) by (simp add: crowd_ok_def)
qed

lemma crowd_reset:
  assumes "crowd_ok n st"
  shows "crowd_ok n (rd_del R (rd_del R st (failuresKey n)) (lockKey n))"
  using assms throttle_ok_del reset_views by (simp add: crowd_ok_def)

lemma crowd_later:
  assumes "crowd_ok n st" and "0 \<le> d"
  shows "crowd_ok n (rd_pass R st d)"
  using assms(1) guess_pass_views [OF assms(2), of st] now_pass [OF assms(2), of st] assms(2)
  by (fastforce simp: crowd_ok_def split: if_splits)

lemma crowd_invariant:
  assumes "crowd_reach R n st0 c" and "crowd_ok n st0"
  shows "crowd_ok n (cr_store c)"
  using assms
proof (induction rule: crowd_reach.induct)
  case (crowd_next c c')
  then have "crowd_ok n (cr_store c)" by blast
  with crowd_next.hyps(2) show ?case
    by (cases rule: crowd_step.cases) (auto intro: crowd_record crowd_reset crowd_later)
qed simp

text \<open>All checks before the first record: each of them passes.\<close>

lemma crowd_all_pass:
  assumes "rd_ttl R st (lockKey n) \<le> 0"
  shows "crowd_reach R n st \<lparr>cr_store = st, cr_tried = N\<rparr>"
proof (induction N)
  case 0
  show ?case by (rule crowd_start)
next
  case (Suc N)
  from crowd_next [OF Suc passed] assms show ?case by simp
qed

lemma crowd_all_recorded:
  assumes "crowd_reach R n st0 \<lparr>cr_store = st, cr_tried = N\<rparr>" and "throttle_ok val dl st"
  shows "\<exists>st'. crowd_reach R n st0 \<lparr>cr_store = st', cr_tried = 0\<rparr> \<and> rd_now R st' = rd_now R st \<and>
    failures_at val st' (normalize n) = failures_at val st (normalize n) + int N"
  using assms
proof (induction N arbitrary: st)
  case (Suc N)
  obtain r st1 where run: "record_failure_script R (failuresKey n) (lockKey n) (failureWindowSeconds default_throttle)
       (freeAttempts default_throttle) (baseDelaySeconds default_throttle) (maxDelaySeconds default_throttle) st = (r, st1)"
    by (meson surj_pair)
  note vw = record_failure_views [OF Suc.prems(2) default_throttle_valid run]
  have "crowd_step R n \<lparr>cr_store = st, cr_tried = Suc N\<rparr> \<lparr>cr_store = st1, cr_tried = N\<rparr>"
    by (rule failed) (simp, simp add: run [unfolded vw(1)] del: default_throttle_simps)
  from Suc.IH [OF crowd_next [OF Suc.prems(1) this] vw(4)] show ?case
    by (auto simp: vw(2,6))
qed auto

end

subsection \<open>Properties\<close>

text \<open>
  C36. Any number of clients guess the password of one account, in every interleaving of their checks
  and records: a lock ends at the latest 15 minutes from now, the counted failures are
  forgotten at the latest 15 minutes from now, so nobody can throttle the account for longer
  without new attempts. But the throttle bounds guesses made one after the other only: for every
  \<open>N\<close> there is a run in which no time passes and \<open>N\<close> wrong passwords are compared.
\<close>

theorem throttle_under_concurrency:
  assumes "redis_server R val dl" and "throttle_ok val dl st0"
    and "failures_at val st0 (normalize n) = 0" and "lock_at dl st0 (normalize n) = None"
  shows "(\<forall>c. crowd_reach R n st0 c \<longrightarrow>
      (\<forall>d. lock_at dl (cr_store c) (normalize n) = Some d \<longrightarrow> d \<le> rd_now R (cr_store c) + 900000) \<and>
      (failures_at val (cr_store c) (normalize n) \<noteq> 0 \<longrightarrow>
        (\<exists>x. dl (cr_store c) (failuresKey n) = Some x \<and> x \<le> rd_now R (cr_store c) + 900000))) \<and>
    (\<exists>st. crowd_reach R n st0 \<lparr>cr_store = st, cr_tried = 0\<rparr> \<and> rd_now R st = rd_now R st0 \<and>
      failures_at val st (normalize n) = int N)"
proof -
  have "redis_server.crowd_ok R val dl n st0"
    using assms(2-4) by (simp add: redis_server.crowd_ok_def [OF assms(1)])
  note inv = redis_server.crowd_invariant [OF assms(1) _ this, unfolded redis_server.crowd_ok_def [OF assms(1)]]
  have "rd_ttl R st0 (lockKey n) \<le> 0"
    by (rule redis_server.lock_ttl(1) [OF assms(1,2,4)])
  from redis_server.crowd_all_recorded [OF assms(1) redis_server.crowd_all_pass [OF assms(1) this] assms(2)] assms(3) inv
  show ?thesis by fastforce
qed

lemma throttle_under_concurrency_witness:
  "\<exists>st. crowd_reach ref_redis ''bob'' ref_init \<lparr>cr_store = st, cr_tried = 0\<rparr> \<and>
     failures_at ref_value st (normalize ''bob'') = 100"
  using throttle_under_concurrency [OF ref_server.redis_server_axioms ref_init_throttle(1-3), of "''bob''" 100] by auto

end
