(* ===== verification/Operations.thy ===== *)
theory Operations
  imports Server
begin

section \<open>Configuration and observation\<close>

text \<open>
  What the process reads from its environment and what it reports about requests:
  \<open>src/redisConfig.ts\<close>, \<open>src/postgres.ts\<close>, \<open>scripts/migrate.js\<close>, the defaults of
  \<open>createApp\<close>, the histogram of \<open>src/metrics.ts\<close> with the middleware that feeds it, and the
  fields \<open>src/logger.ts\<close> chooses for the line of a request. The clients, the runner of the
  migrations, pino and the metrics library are outside the repository; the model ends with the
  options and values they are given.
\<close>

type_synonym process_env = "string \<Rightarrow> string option"

subsection \<open>\<open>Number\<close> of a text\<close>

text \<open>
  JavaScript's \<open>Number(text)\<close>: surrounding space is dropped and an empty text is 0; a prefix
  selects another base; a decimal numeral may have a sign, a fraction and an exponent.
  \<open>Fraction\<close> stands for every number that is not whole, infinity among them.
\<close>

definition digit_value :: "char \<Rightarrow> nat" where
  "digit_value c =
     (let n = of_char c :: nat in
      if 48 \<le> n \<and> n \<le> 57 then n - 48
      else if 97 \<le> n \<and> n \<le> 122 then n - 87
      else if 65 \<le> n \<and> n \<le> 90 then n - 55
      else 36)"

definition in_base :: "nat \<Rightarrow> string \<Rightarrow> number" where
  "in_base b s =
     (if s \<noteq> [] \<and> list_all (\<lambda>c. digit_value c < b) s
      then Whole (foldl (\<lambda>n c. n * int b + int (digit_value c)) 0 s) else NaN)"

text \<open>The texts before and after the first character with a property.\<close>

definition cut_at :: "(char \<Rightarrow> bool) \<Rightarrow> string \<Rightarrow> string \<times> string option" where
  "cut_at P s = (case dropWhile (\<lambda>c. \<not> P c) s of
     [] \<Rightarrow> (s, None) | c # rest \<Rightarrow> (takeWhile (\<lambda>c. \<not> P c) s, Some rest))"

definition signed_digits :: "string \<Rightarrow> int option" where
  "signed_digits s =
     (let (sign, ds) = (case s of [] \<Rightarrow> (1, []) | c # cs \<Rightarrow>
        if c = CHR ''-'' then (-1, cs) else if c = CHR ''+'' then (1, cs) else (1, s)) in
      if ds \<noteq> [] \<and> list_all js_digit ds then Some (sign * js_number ds) else None)"

definition scaled :: "int \<Rightarrow> int \<Rightarrow> number" where
  "scaled m k =
     (if 0 \<le> k then Whole (m * 10 ^ nat k)
      else if 10 ^ nat (- k) dvd m then Whole (m div 10 ^ nat (- k)) else Fraction)"

definition unsigned_decimal :: "string \<Rightarrow> number" where
  "unsigned_decimal s =
     (if s = ''Infinity'' then Fraction
      else
        let (mantissa, exponent) = cut_at (\<lambda>c. c = CHR ''e'' \<or> c = CHR ''E'') s;
            (whole, frac) = cut_at (\<lambda>c. c = CHR ''.'') mantissa;
            decimals = (case frac of None \<Rightarrow> [] | Some f \<Rightarrow> f)
        in if whole @ decimals = [] \<or> \<not> list_all js_digit (whole @ decimals) then NaN
           else case exponent of
             None \<Rightarrow> scaled (js_number (whole @ decimals)) (- int (length decimals))
           | Some e \<Rightarrow> (case signed_digits e of
               None \<Rightarrow> NaN
             | Some k \<Rightarrow> scaled (js_number (whole @ decimals)) (k - int (length decimals))))"

definition js_negate :: "number \<Rightarrow> number" where
  "js_negate x = (case x of Whole n \<Rightarrow> Whole (- n) | _ \<Rightarrow> x)"

definition js_Number :: "string \<Rightarrow> number" where
  "js_Number s =
     (let t = js_trim s; base = take 2 t in
      if t = [] then Whole 0
      else if base = ''0x'' \<or> base = ''0X'' then in_base 16 (drop 2 t)
      else if base = ''0o'' \<or> base = ''0O'' then in_base 8 (drop 2 t)
      else if base = ''0b'' \<or> base = ''0B'' then in_base 2 (drop 2 t)
      else if hd t = CHR ''-'' then js_negate (unsigned_decimal (tl t))
      else if hd t = CHR ''+'' then unsigned_decimal (tl t)
      else unsigned_decimal t)"

text \<open>\<open>Number(undefined)\<close> is not a number.\<close>

definition env_number :: "string option \<Rightarrow> number" where
  "env_number v = (case v of None \<Rightarrow> NaN | Some s \<Rightarrow> js_Number s)"

text \<open>\<open>a || b\<close> on numbers and on texts.\<close>

definition or_number :: "number \<Rightarrow> int \<Rightarrow> number" where
  "or_number x d = (case x of NaN \<Rightarrow> Whole d | Whole n \<Rightarrow> Whole (if n = 0 then d else n) | Fraction \<Rightarrow> Fraction)"

definition or_text :: "string option \<Rightarrow> string \<Rightarrow> string" where
  "or_text v d = (if js_falsy v then d else the v)"

subsection \<open>The connections\<close>

record redis_options =
  ro_host :: string
  ro_port :: number
  ro_password :: "string option"
  ro_tls :: bool

definition redisClient_options :: "process_env \<Rightarrow> redis_options" where
  "redisClient_options env =
     \<lparr>ro_host = or_text (env ''REDIS_HOST'') ''localhost'',
      ro_port = or_number (env_number (env ''REDIS_PORT'')) 6379,
      ro_password = (if js_falsy (env ''REDIS_PASSWORD'') then None else env ''REDIS_PASSWORD''),
      ro_tls = (env ''REDIS_TLS'' = Some ''true'')\<rparr>"

record pool_options =
  po_host :: "string option"
  po_port :: number
  po_user :: "string option"
  po_password :: "string option"
  po_database :: "string option"

definition pool_options_of :: "process_env \<Rightarrow> pool_options" where
  "pool_options_of env =
     \<lparr>po_host = env ''POSTGRES_HOST'', po_port = env_number (env ''POSTGRES_PORT''),
      po_user = env ''POSTGRES_USER'', po_password = env ''POSTGRES_PASSWORD'',
      po_database = env ''POSTGRES_DB''\<rparr>"

text \<open>
  \<open>scripts/migrate.js\<close>: the options of the runner (no \<open>count\<close> limit is \<open>Infinity\<close>, here
  \<open>None\<close>), and the exit code: 1 when the runner rejects.
\<close>

datatype direction = Up | Down

record migration =
  mi_databaseUrl :: pool_options
  mi_dir :: string
  mi_table :: string
  mi_direction :: direction
  mi_count :: "nat option"

definition migrate_options :: "string list \<Rightarrow> process_env \<Rightarrow> migration" where
  "migrate_options argv env =
     (let dir = (if 2 < length argv \<and> argv ! 2 = ''down'' then Down else Up) in
      \<lparr>mi_databaseUrl = \<lparr>po_host = env ''POSTGRES_HOST'', po_port = env_number (env ''POSTGRES_PORT''),
         po_user = env ''POSTGRES_USER'', po_password = env ''POSTGRES_PASSWORD'',
         po_database = env ''POSTGRES_DB''\<rparr>,
       mi_dir = ''migrations'', mi_table = ''pgmigrations'', mi_direction = dir,
       mi_count = (case dir of Down \<Rightarrow> Some 1 | Up \<Rightarrow> None)\<rparr>)"

definition migrate_exit :: "exn + 'a \<Rightarrow> int" where
  "migrate_exit result = (case result of Inl e \<Rightarrow> 1 | Inr a \<Rightarrow> 0)"

subsection \<open>The server's settings\<close>

text \<open>
  The defaults of \<open>createApp\<close> (evaluated when the module is loaded, so a refused
  \<open>TRUST_PROXY\<close> stops the start), and the port.
\<close>

definition createApp_options :: "process_env \<Rightarrow> exn + trust_proxy \<times> string option" where
  "createApp_options env = (case parseTrustProxy (env ''TRUST_PROXY'') of
     Inl e \<Rightarrow> Inl e
   | Inr trustProxy \<Rightarrow> Inr (trustProxy, env ''METRICS_TOKEN''))"

datatype port = PortNumber int | PortText string

definition PORT :: "process_env \<Rightarrow> port" where
  "PORT env =
     (if env ''NODE_ENV'' = Some ''test'' then PortNumber 0
      else if js_falsy (env ''PORT'') then PortNumber 3000 else PortText (the (env ''PORT'')))"

subsection \<open>The histogram\<close>

record histogram =
  hi_name :: string
  hi_help :: string
  hi_labelNames :: "string list"

definition httpRequestDuration :: histogram where
  "httpRequestDuration =
     \<lparr>hi_name = ''http_request_duration_seconds'',
      hi_help = ''HTTP request duration in seconds, labeled by method, route, and status code'',
      hi_labelNames = [''method'', ''route'', ''status'']\<rparr>"

text \<open>What Express shows of a request whose response has been sent.\<close>

record finished =
  fi_method :: string
  fi_baseUrl :: string
  fi_route :: "string option"
  fi_status :: int

definition duration_labels :: "finished \<Rightarrow> (string \<times> json) list" where
  "duration_labels f =
     [(''method'', JStr (fi_method f)),
      (''route'', JStr (case fi_route f of Some path \<Rightarrow> fi_baseUrl f @ path | None \<Rightarrow> ''unmatched'')),
      (''status'', JNum (fi_status f))]"

subsection \<open>The fields of a log line\<close>

definition logger_level :: "process_env \<Rightarrow> string" where
  "logger_level env = or_text (env ''LOG_LEVEL'') ''info''"

record base_logger =
  bl_level :: string
  bl_level_formatter :: "string \<Rightarrow> json"

definition createLogger :: "process_env \<Rightarrow> base_logger" where
  "createLogger env = \<lparr>bl_level = logger_level env, bl_level_formatter = (\<lambda>label. JObj [(''level'', JStr label)])\<rparr>"

definition requestId_props :: "string \<Rightarrow> json" where
  "requestId_props i = JObj [(''requestId'', JStr i)]"

definition req_serializer :: "string \<Rightarrow> string \<Rightarrow> json" where
  "req_serializer meth url = JObj [(''method'', JStr meth), (''path'', JStr url)]"

definition res_serializer :: "int \<Rightarrow> json" where
  "res_serializer st = JObj [(''status'', JNum st)]"

definition customSuccessMessage :: "string \<Rightarrow> string \<Rightarrow> nat \<Rightarrow> string" where
  "customSuccessMessage meth url st = meth @ '' '' @ url @ '' '' @ js_digits st"

definition customErrorMessage :: "string \<Rightarrow> string \<Rightarrow> nat \<Rightarrow> string \<Rightarrow> string" where
  "customErrorMessage meth url st message =
     meth @ '' '' @ url @ '' '' @ js_digits st @ '' '' @ EM_DASH @ '' '' @ message"

text \<open>
  What \<open>createHttpLogger\<close> hands to pino-http. \<open>hl_genReqId\<close> also yields the headers it sets on
  the response; its second argument is the identifier \<open>randomUUID\<close> would draw.
\<close>

record http_logger =
  hl_genReqId :: "string option \<Rightarrow> string \<Rightarrow> string \<times> (string \<times> string) list"
  hl_customProps :: "string \<Rightarrow> json"
  hl_req :: "string \<Rightarrow> string \<Rightarrow> json"
  hl_res :: "int \<Rightarrow> json"
  hl_customLogLevel :: "int \<Rightarrow> bool \<Rightarrow> log_level"
  hl_customSuccessMessage :: "string \<Rightarrow> string \<Rightarrow> nat \<Rightarrow> string"
  hl_customErrorMessage :: "string \<Rightarrow> string \<Rightarrow> nat \<Rightarrow> string \<Rightarrow> string"

definition createHttpLogger :: http_logger where
  "createHttpLogger =
     \<lparr>hl_genReqId = (\<lambda>existing fresh. let i = genReqId existing fresh in (i, [(''X-Request-Id'', i)])),
      hl_customProps = requestId_props, hl_req = req_serializer, hl_res = res_serializer,
      hl_customLogLevel = customLogLevel, hl_customSuccessMessage = customSuccessMessage,
      hl_customErrorMessage = customErrorMessage\<rparr>"

text \<open>pino's levels are ordered by severity; the more severe status never has the less severe level.\<close>

fun severity :: "log_level \<Rightarrow> nat" where
  "severity Info = 30"
| "severity Warn = 40"
| "severity Error = 50"

lemma severity_inj: "severity a = severity b \<Longrightarrow> a = b"
  by (cases a; cases b) simp_all

instantiation log_level :: linorder
begin

definition less_eq_log_level :: "log_level \<Rightarrow> log_level \<Rightarrow> bool" where
  "less_eq_log_level a b \<longleftrightarrow> severity a \<le> severity b"

definition less_log_level :: "log_level \<Rightarrow> log_level \<Rightarrow> bool" where
  "less_log_level a b \<longleftrightarrow> severity a < severity b"

instance
  by intro_classes (auto simp: less_eq_log_level_def less_log_level_def intro: severity_inj)

end

lemma customLogLevel_mono:
  assumes "st \<le> st'"
  shows "customLogLevel st failed \<le> customLogLevel st' failed" and "customLogLevel st False \<le> customLogLevel st failed"
  using assms by (auto simp: customLogLevel_def less_eq_log_level_def)

subsection \<open>What they guarantee\<close>

lemma cut_at_absent: "list_all (\<lambda>c. \<not> P c) s \<Longrightarrow> cut_at P s = (s, None)"
  by (simp add: cut_at_def list_all_iff dropWhile_eq_Nil_conv [THEN iffD2])

text \<open>A decimal numeral is read back, with any space around it.\<close>

lemma js_Number_digits:
  assumes "js_trim s = js_digits n"
  shows "js_Number s = Whole (int n)"
proof -
  note d = js_digits_read [of n, THEN conjunct1] js_digits_read [of n, THEN conjunct2, THEN conjunct1]
    js_digits_read [of n, THEN conjunct2, THEN conjunct2]
  have no: "\<not> js_digit (CHR ''-'')" "\<not> js_digit (CHR ''+'')" "\<not> js_digit (CHR ''.'')" "\<not> js_digit (CHR ''e'')"
    "\<not> js_digit (CHR ''E'')" "\<not> js_digit (CHR ''x'')" "\<not> js_digit (CHR ''X'')" "\<not> js_digit (CHR ''o'')"
    "\<not> js_digit (CHR ''O'')" "\<not> js_digit (CHR ''b'')" "\<not> js_digit (CHR ''B'')" "\<not> js_digit (CHR ''I'')"
    by (simp_all add: js_digit_def)
  have digits: "js_digit c" if "c \<in> set (js_digits n)" for c
    using d(1) that by (simp add: list_all_iff)
  have first: "hd (js_digits n) \<noteq> c" if "\<not> js_digit c" for c
    using digits [of "hd (js_digits n)"] d(3) that by auto
  have base: "take 2 (js_digits n) \<noteq> [CHR ''0'', c]" if "\<not> js_digit c" for c
  proof
    assume "take 2 (js_digits n) = [CHR ''0'', c]"
    then have "c \<in> set (take 2 (js_digits n))" by simp
    then show False using digits in_set_takeD [of c 2 "js_digits n"] that by blast
  qed
  have "unsigned_decimal (js_digits n) = Whole (int n)"
  proof -
    have "js_digits n \<noteq> ''Infinity''"
      using first [OF no(12)] by auto
    moreover have "cut_at (\<lambda>c. c = CHR ''e'' \<or> c = CHR ''E'') (js_digits n) = (js_digits n, None)"
      "cut_at (\<lambda>c. c = CHR ''.'') (js_digits n) = (js_digits n, None)"
      by (rule cut_at_absent; unfold list_all_iff; use no(3-5) digits in metis)+
    ultimately show ?thesis
      using d by (simp add: unsigned_decimal_def scaled_def)
  qed
  then show ?thesis
    using assms d(3) base [OF no(6)] base [OF no(7)] base [OF no(8)] base [OF no(9)] base [OF no(10)] base [OF no(11)]
      first [OF no(1)] first [OF no(2)]
    by (simp add: js_Number_def Let_def)
qed

text \<open>Without settings the client goes to the local server, and a decimal port other than 0 is used as written.\<close>

lemma redis_defaults:
  "redisClient_options (\<lambda>_. None) = \<lparr>ro_host = ''localhost'', ro_port = Whole 6379, ro_password = None, ro_tls = False\<rparr>"
  "env ''REDIS_PORT'' = Some (js_digits n) \<Longrightarrow> ro_port (redisClient_options env) = Whole (if n = 0 then 6379 else int n)"
proof -
  show "redisClient_options (\<lambda>_. None) = \<lparr>ro_host = ''localhost'', ro_port = Whole 6379, ro_password = None, ro_tls = False\<rparr>"
    by (simp add: redisClient_options_def or_text_def env_number_def or_number_def)
  have "js_trim (js_digits n) = js_digits n"
    by (rule js_trim_digits) (use js_digits_read [of n] in blast)
  then show "ro_port (redisClient_options env) = Whole (if n = 0 then 6379 else int n)"
    if "env ''REDIS_PORT'' = Some (js_digits n)"
    using that by (simp add: redisClient_options_def env_number_def js_Number_digits or_number_def)
qed

text \<open>The migrations run on the database the service uses, one step at a time when they go down.\<close>

lemma migrations_on_the_same_database:
  "mi_databaseUrl (migrate_options argv env) = pool_options_of env"
  "mi_count (migrate_options argv env) = Some k \<Longrightarrow> k = 1 \<and> argv ! 2 = ''down''"
  by (auto simp: migrate_options_def pool_options_of_def Let_def split: if_splits)

text \<open>
  Every observation has exactly the declared labels (the metrics library throws at any other),
  and its route is one of finitely many texts: no path of a request enters a label.
\<close>

lemma observation_labels:
  "map fst (duration_labels f) = hi_labelNames httpRequestDuration"
  by (simp add: duration_labels_def httpRequestDuration_def)

lemma route_labels_bounded:
  assumes "finite mounts" and "finite patterns"
  shows "finite {l. \<exists>f. fi_baseUrl f \<in> mounts \<and> (\<forall>p. fi_route f = Some p \<longrightarrow> p \<in> patterns) \<and>
    map_of (duration_labels f) ''route'' = Some l}" (is "finite ?L")
proof -
  have "?L \<subseteq> insert (JStr ''unmatched'') ((\<lambda>(b, p). JStr (b @ p)) ` (mounts \<times> patterns))"
    by (auto simp: duration_labels_def split: option.splits)
  then show ?thesis
    using assms by (auto intro: finite_subset)
qed

text \<open>
  The identifier in the log is the one in the response's header, and, as long as the server's own
  identifiers are short and plain, neither a line break nor a quote gets into either.
\<close>

lemma request_id_echoed:
  assumes "CLIENT_REQUEST_ID fresh" and "hl_genReqId createHttpLogger existing fresh = (i, hs)"
  shows "hs = [(''X-Request-Id'', i)] \<and> hl_customProps createHttpLogger i = JObj [(''requestId'', JStr i)] \<and>
    length i \<le> 128 \<and> list_all request_id_char i"
  using assms by (auto simp: createHttpLogger_def genReqId_def requestId_props_def CLIENT_REQUEST_ID_def Let_def
      split: option.splits if_splits)

text \<open>The message of a failed request begins with that of a successful one.\<close>

lemma messages_agree:
  "\<exists>rest. hl_customErrorMessage createHttpLogger meth url st m =
     hl_customSuccessMessage createHttpLogger meth url st @ rest @ m"
  by (simp add: createHttpLogger_def customErrorMessage_def customSuccessMessage_def)

text \<open>The service starts with every environment but one that trusts all proxies.\<close>

lemma createApp_options_refused:
  "(\<exists>e. createApp_options env = Inl e) \<longleftrightarrow> (\<exists>s. env ''TRUST_PROXY'' = Some s \<and> js_trim s = ''true'')"
  by (auto simp: createApp_options_def parseTrustProxy_def Let_def split: option.splits if_splits sum.splits)

end
