(* ===== verification/RateWindows.thy ===== *)
theory RateWindows
  imports HttpProperties
begin

section \<open>Requests per window\<close>

text \<open>
  What the rate limiters of \<open>Middleware\<close> bound. \<open>express-rate-limit\<close> with its Redis store
  counts in fixed windows: the first request of a key opens a window of \<open>windowMs\<close>, the
  requests until its end are counted in Redis, and a request is let through while the count is
  at most \<open>max\<close>. The locale \<open>window_counter\<close> is this documented behaviour of \<open>hit\<close>: \<open>hits st k\<close>
  is the count of the running window of the key, \<open>ends st k\<close> its end. The machine
  \<open>window_step\<close> is any number of processes and clients on one Redis server; the theorem
  bounds the requests of one key that reach the handler behind the limiter in any interval.
\<close>

locale window_counter = redis_server R val dl
  for R :: "'r redis" and val and dl +
  fixes hit :: "string \<Rightarrow> int \<Rightarrow> int \<Rightarrow> (('r, 'p) world, exn, bool) act"
    and hits :: "'r \<Rightarrow> string \<Rightarrow> int"
    and ends :: "'r \<Rightarrow> string \<Rightarrow> int option"
  assumes own_key: "val s' k = val s k \<Longrightarrow> dl s' k = dl s k \<Longrightarrow> hits s' k = hits s k \<and> ends s' k = ends s k"
    and running: "0 \<le> hits s k \<and> (hits s k \<noteq> 0 \<longrightarrow> (\<exists>d. ends s k = Some d \<and> rd_now R s < d))"
    and later: "0 \<le> d \<Longrightarrow> hits (rd_pass R s d) k = (if expired_at (ends s k) (rd_now R s + d) then 0 else hits s k) \<and>
          (hits (rd_pass R s d) k \<noteq> 0 \<longrightarrow> ends (rd_pass R s d) k = ends s k)"
    and hit_now: "0 < n \<Longrightarrow> hit k n m w = (r, w') \<Longrightarrow> rd_now R (w_redis w') = rd_now R (w_redis w)"
    and hit_counts: "0 < n \<Longrightarrow> hit k n m w = (r, w') \<Longrightarrow>
          (\<exists>e. r = Inl e) \<and> hits (w_redis w') k = hits (w_redis w) k \<and> ends (w_redis w') k = ends (w_redis w) k \<or>
          hits (w_redis w') k = hits (w_redis w) k + 1 \<and>
          ends (w_redis w') k = (if hits (w_redis w) k = 0 then Some (rd_now R (w_redis w) + n) else ends (w_redis w) k) \<and>
          (\<forall>b. r = Inr b \<longrightarrow> b = (hits (w_redis w) k + 1 \<le> m))"

subsection \<open>The limiter and the handler behind it\<close>

text \<open>
  A limiter is transparent: it either answers itself or hands over to the handler, so it is
  enough to watch it in front of one that only says \<open>through\<close>.
\<close>

definition through :: response where
  "through = json_response 200 JNull"

lemma rate_limited_through:
  "rate_limited hit l rest rq w = (case rate_limited hit l (\<lambda>_. ret through) rq w of
     (Inl e, w1) \<Rightarrow> (Inl e, w1)
   | (Inr answer, w1) \<Rightarrow> if answer = through then rest rq w1 else (Inr answer, w1))"
  by (auto simp: rate_limited_def through_def json_response_def andthen_def split: prod.split sum.split)

lemma through_hit:
  "rate_limited hit l (\<lambda>_. ret through) rq w = (r, w') \<Longrightarrow>
    \<exists>x. hit (li_prefix l @ li_key l rq) (li_windowMs l) (li_max l) w = (x, w') \<and> (r = Inr through \<longleftrightarrow> x = Inr True)"
  by (auto simp: rate_limited_def through_def json_response_def andthen_def split: prod.splits sum.splits if_splits)

subsection \<open>The machine\<close>

text \<open>
  The world, and the times (of the Redis server) at which a request with the key \<open>k\<close> was let
  through. \<open>others\<close> are all calls that leave the key alone: those of the other components, and
  those of the limiters for other keys.
\<close>

record ('r, 'p) gate =
  ga_world :: "('r, 'p) world"
  ga_times :: "int list"

inductive window_step ::
  "'r redis \<Rightarrow> ('r \<Rightarrow> string \<Rightarrow> rval option) \<Rightarrow> ('r \<Rightarrow> string \<Rightarrow> int option) \<Rightarrow>
   (string \<Rightarrow> int \<Rightarrow> int \<Rightarrow> (('r, 'p) world, exn, bool) act) \<Rightarrow> limiter \<Rightarrow> string \<Rightarrow> ('r, 'p) gate \<Rightarrow> ('r, 'p) gate \<Rightarrow> bool"
  for R and val and dl and hit and l and k where
  asked: "rate_limited hit l (\<lambda>_. ret through) rq (ga_world g) = (r, w') \<Longrightarrow> li_prefix l @ li_key l rq = k \<Longrightarrow>
    window_step R val dl hit l k g
      \<lparr>ga_world = w', ga_times = (if r = Inr through then [rd_now R (w_redis w')] else []) @ ga_times g\<rparr>"
| others: "unchanged (rd_now R) val dl (\<lambda>j. j \<noteq> k) (w_redis (ga_world g)) (w_redis w') \<Longrightarrow>
    window_step R val dl hit l k g (g\<lparr>ga_world := w'\<rparr>)"
| passes: "0 \<le> d \<Longrightarrow> w_redis w' = rd_pass R (w_redis (ga_world g)) d \<Longrightarrow> window_step R val dl hit l k g (g\<lparr>ga_world := w'\<rparr>)"

inductive window_reach ::
  "'r redis \<Rightarrow> ('r \<Rightarrow> string \<Rightarrow> rval option) \<Rightarrow> ('r \<Rightarrow> string \<Rightarrow> int option) \<Rightarrow>
   (string \<Rightarrow> int \<Rightarrow> int \<Rightarrow> (('r, 'p) world, exn, bool) act) \<Rightarrow> limiter \<Rightarrow> string \<Rightarrow> ('r, 'p) world \<Rightarrow> ('r, 'p) gate \<Rightarrow> bool"
  for R and val and dl and hit and l and k and w0 where
  opened: "window_reach R val dl hit l k w0 \<lparr>ga_world = w0, ga_times = []\<rparr>"
| moved: "window_reach R val dl hit l k w0 g \<Longrightarrow> window_step R val dl hit l k g g' \<Longrightarrow> window_reach R val dl hit l k w0 g'"

subsection \<open>Windows\<close>

text \<open>
  The invariant of the windows, on plain numbers: each admission is a time with the end of
  its window, windows are \<open>W\<close> long and do not overlap, none admits more than \<open>m\<close>; \<open>c\<close> is
  the count and \<open>d\<close> the end of the running one.
\<close>

definition per_window :: "(int \<times> int) list \<Rightarrow> int \<Rightarrow> nat" where
  "per_window hs e = length (filter (\<lambda>h. snd h = e) hs)"

definition windows_ok :: "int \<Rightarrow> int \<Rightarrow> (int \<times> int) list \<Rightarrow> bool" where
  "windows_ok W m hs \<longleftrightarrow> (\<forall>h \<in> set hs. snd h - W \<le> fst h \<and> fst h < snd h) \<and>
     (\<forall>h \<in> set hs. \<forall>h' \<in> set hs. snd h = snd h' \<or> W \<le> \<bar>snd h - snd h'\<bar>) \<and> (\<forall>e. int (per_window hs e) \<le> m)"

lemma windows_okD:
  assumes "windows_ok W m hs"
  shows "h \<in> set hs \<Longrightarrow> snd h - W \<le> fst h \<and> fst h < snd h"
    and "h \<in> set hs \<Longrightarrow> h' \<in> set hs \<Longrightarrow> snd h = snd h' \<or> W \<le> \<bar>snd h - snd h'\<bar>"
    and "int (per_window hs e) \<le> m"
  using assms unfolding windows_ok_def by blast+

definition window_inv :: "int \<Rightarrow> int \<Rightarrow> int \<Rightarrow> int option \<Rightarrow> int \<Rightarrow> (int \<times> int) list \<Rightarrow> bool" where
  "window_inv W m c d now hs \<longleftrightarrow> windows_ok W m hs \<and> 0 \<le> c \<and>
     (if c = 0 then \<forall>h \<in> set hs. snd h \<le> now
      else \<exists>x. d = Some x \<and> now < x \<and> x \<le> now + W \<and> int (per_window hs x) \<le> c \<and>
        (\<forall>h \<in> set hs. snd h = x \<or> snd h \<le> x - W))"

lemma per_window_simps [simp]:
  "per_window [] e = 0"
  "per_window ((t, e') # hs) e = (if e' = e then Suc (per_window hs e) else per_window hs e)"
  by (simp_all add: per_window_def)

lemma per_window_absent: "\<forall>h \<in> set hs. snd h \<noteq> e \<Longrightarrow> per_window hs e = 0"
  by (induction hs) auto

text \<open>One more request, counted: of the running window, or the first of a new one.\<close>

definition next_end :: "int \<Rightarrow> int \<Rightarrow> int option \<Rightarrow> int \<Rightarrow> int option" where
  "next_end W c d now = (if c = 0 then Some (now + W) else d)"

lemma window_counted:
  assumes "window_inv W m c d now hs" and "0 < W"
  shows "window_inv W m (c + 1) (next_end W c d now) now hs"
proof (cases "c = 0")
  case True
  with assms have old: "\<forall>h \<in> set hs. snd h \<le> now"
    by (simp add: window_inv_def)
  with assms(2) have "per_window hs (now + W) = 0"
    by (intro per_window_absent) auto
  with True old assms show ?thesis
    by (auto simp: window_inv_def next_end_def)
qed (use assms in \<open>fastforce simp: window_inv_def next_end_def\<close>)

lemma window_admitted:
  assumes "window_inv W m c d now hs" and "0 < W" and "c + 1 \<le> m"
  shows "window_inv W m (c + 1) (next_end W c d now) now ((now, the (next_end W c d now)) # hs)"
proof -
  let ?x = "the (next_end W c d now)"
  obtain x where x: "next_end W c d now = Some x" "now < x" "x \<le> now + W" "int (per_window hs x) \<le> c"
    and old: "\<forall>h \<in> set hs. snd h = x \<or> snd h \<le> x - W" and ok: "windows_ok W m hs" and c: "0 \<le> c"
  proof (cases "c = 0")
    case True
    with assms have old: "\<forall>h \<in> set hs. snd h \<le> now" "windows_ok W m hs"
      by (simp_all add: window_inv_def)
    moreover from old(1) assms(2) have "per_window hs (now + W) = 0"
      by (intro per_window_absent) auto
    ultimately show ?thesis
      using that [of "now + W"] True assms(2) by (auto simp: next_end_def)
  next
    case False
    with assms that show ?thesis
      by (auto simp: window_inv_def next_end_def)
  qed
  have "\<forall>e. int (per_window ((now, x) # hs) e) \<le> m"
    using ok x(4) assms(3) by (auto simp: windows_ok_def)
  moreover have "\<forall>h \<in> set hs. x = snd h \<or> W \<le> \<bar>x - snd h\<bar>"
    using old by auto
  ultimately have "windows_ok W m ((now, x) # hs)"
    using ok x(2,3) unfolding windows_ok_def by fastforce
  with x old c show ?thesis
    by (auto simp: window_inv_def)
qed

lemma window_later:
  assumes "window_inv W m c d now hs" and "0 \<le> e"
  shows "window_inv W m (if expired_at d (now + e) then 0 else c) d (now + e) hs"
  using assms by (cases "c = 0") (fastforce simp: window_inv_def)+

text \<open>Counting: an interval of \<open>n\<close> window lengths meets at most \<open>n + 1\<close> windows.\<close>

lemma length_by_class:
  "finite E \<Longrightarrow> snd ` set hs \<subseteq> E \<Longrightarrow> length hs = (\<Sum>e \<in> E. per_window hs e)"
proof (induction hs)
  case (Cons h hs)
  obtain t e where h: "h = (t, e)" by fastforce
  have "(\<Sum>x \<in> E. per_window (h # hs) x) = (\<Sum>x \<in> E. per_window hs x + (if x = e then 1 else 0))"
    by (intro sum.cong) (auto simp: h)
  also have "\<dots> = (\<Sum>x \<in> E. per_window hs x) + 1"
    using Cons.prems by (simp add: sum.distrib h)
  finally show ?case using Cons by simp
qed simp

lemma card_spread:
  assumes "0 < W" and "\<forall>e \<in> E. a < e \<and> e < a + int (Suc n) * W" and "\<forall>e \<in> E. \<forall>e' \<in> E. e = e' \<or> W \<le> \<bar>e - e'\<bar>"
  shows "finite E \<and> card E \<le> Suc n"
proof -
  let ?q = "\<lambda>e. (e - a) div W"
  have less: "?q e < ?q e'" if "e + W \<le> e'" for e e'
  proof -
    have "?q e + 1 = (e - a + W) div W"
      using assms(1) by (simp add: div_add_self2)
    also have "\<dots> \<le> ?q e'"
      using that assms(1) by (intro zdiv_mono1) auto
    finally show ?thesis by simp
  qed
  have "inj_on ?q E"
  proof (rule inj_onI)
    fix x y
    assume "x \<in> E" "y \<in> E" "?q x = ?q y"
    with assms(3) less [of x y] less [of y x] show "x = y" by force
  qed
  moreover have "?q ` E \<subseteq> {0..<int (Suc n)}"
  proof
    fix q assume "q \<in> ?q ` E"
    then obtain e where e: "q = ?q e" "0 \<le> e - a" "e - a < int (Suc n) * W"
      using assms(2) by force
    have "?q e * W \<le> e - a"
      using pos_mod_sign [OF assms(1), of "e - a"] div_mult_mod_eq [of "e - a" W] by linarith
    with e(3) have "?q e * W < int (Suc n) * W"
      by linarith
    then have "?q e < int (Suc n)"
      using assms(1) by (simp only: mult_less_cancel_right_pos)
    with e assms(1) show "q \<in> {0..<int (Suc n)}"
      by (simp add: pos_imp_zdiv_nonneg_iff)
  qed
  ultimately have "finite E" "card E \<le> card {0..<int (Suc n)}"
    by (rule inj_on_finite [OF _ _ finite_atLeastLessThan_int], rule card_inj_on_le [OF _ _ finite_atLeastLessThan_int])
  then show ?thesis by simp
qed

lemma windows_bound:
  assumes ok: "windows_ok W m hs" and "0 < W"
  shows "int (length (filter (\<lambda>t. a \<le> t \<and> t < a + int n * W) (map fst hs))) \<le> (int n + 1) * m"
proof -
  let ?fs = "filter (\<lambda>h. a \<le> fst h \<and> fst h < a + int n * W) hs"
  let ?E = "snd ` set ?fs"
  have each: "int (per_window ?fs e) \<le> m" for e
  proof -
    have "per_window ?fs e \<le> per_window hs e"
      unfolding per_window_def by (induction hs) auto
    with windows_okD(3) [OF ok, of e] show ?thesis by linarith
  qed
  have "a < snd h \<and> snd h < a + int (Suc n) * W" if "h \<in> set ?fs" for h
  proof -
    have "a \<le> fst h" "fst h < a + int n * W" "h \<in> set hs"
      using that by auto
    with windows_okD(1) [OF ok, of h] show ?thesis by (auto simp: algebra_simps)
  qed
  then have "\<forall>e \<in> ?E. a < e \<and> e < a + int (Suc n) * W"
    by blast
  moreover have "\<forall>e \<in> ?E. \<forall>e' \<in> ?E. e = e' \<or> W \<le> \<bar>e - e'\<bar>"
  proof (intro ballI)
    fix e e' assume "e \<in> ?E" "e' \<in> ?E"
    then obtain h h' where "h \<in> set hs" "h' \<in> set hs" "e = snd h" "e' = snd h'" by auto
    with windows_okD(2) [OF ok] show "e = e' \<or> W \<le> \<bar>e - e'\<bar>" by blast
  qed
  ultimately have E: "finite ?E" "card ?E \<le> Suc n"
    using card_spread [OF assms(2)] by blast+
  have "0 \<le> m"
    using each [of 0] by linarith
  have "int (length ?fs) = (\<Sum>e \<in> ?E. int (per_window ?fs e))"
    using length_by_class [OF E(1) order_refl] by simp
  also have "\<dots> \<le> int (card ?E) * m"
    using sum_bounded_above [of ?E "\<lambda>e. int (per_window ?fs e)" m] each by simp
  also have "\<dots> \<le> (int n + 1) * m"
    using E(2) \<open>0 \<le> m\<close> by (intro mult_right_mono) auto
  finally show ?thesis
    by (simp add: filter_map comp_def)
qed

subsection \<open>The machine keeps the invariant\<close>

context window_counter
begin

definition gate_ok :: "limiter \<Rightarrow> string \<Rightarrow> ('r, 'p) gate \<Rightarrow> (int \<times> int) list \<Rightarrow> bool" where
  "gate_ok l k g hs \<longleftrightarrow> ga_times g = map fst hs \<and>
     window_inv (li_windowMs l) (li_max l) (hits (w_redis (ga_world g)) k) (ends (w_redis (ga_world g)) k)
       (rd_now R (w_redis (ga_world g))) hs"

lemma gate_asked:
  assumes inv: "gate_ok l k g hs" and W: "0 < li_windowMs l"
    and run: "rate_limited hit l (\<lambda>_. ret through) rq (ga_world g) = (r, w')" and k: "li_prefix l @ li_key l rq = k"
  shows "\<exists>hs'. gate_ok l k \<lparr>ga_world = w', ga_times = (if r = Inr through then [rd_now R (w_redis w')] else []) @ ga_times g\<rparr> hs'"
proof -
  from through_hit [OF run] obtain x where x: "hit k (li_windowMs l) (li_max l) (ga_world g) = (x, w')"
    "r = Inr through \<longleftrightarrow> x = Inr True"
    unfolding k by blast
  let ?c = "hits (w_redis (ga_world g)) k" and ?d = "ends (w_redis (ga_world g)) k" and ?t = "rd_now R (w_redis (ga_world g))"
  note now = hit_now [OF W x(1)]
  have pre: "window_inv (li_windowMs l) (li_max l) ?c ?d ?t hs" "ga_times g = map fst hs"
    using inv by (simp_all add: gate_ok_def)
  from hit_counts [OF W x(1)] show ?thesis
  proof (elim disjE conjE exE)
    fix e assume "x = Inl e" "hits (w_redis w') k = ?c" "ends (w_redis w') k = ?d"
    with pre now x(2) show ?thesis by (intro exI [of _ hs]) (simp add: gate_ok_def)
  next
    assume h: "hits (w_redis w') k = ?c + 1" "ends (w_redis w') k = (if ?c = 0 then Some (?t + li_windowMs l) else ?d)"
      and b: "\<forall>b. x = Inr b \<longrightarrow> b = (?c + 1 \<le> li_max l)"
    have e: "ends (w_redis w') k = next_end (li_windowMs l) ?c ?d ?t"
      by (simp add: h(2) next_end_def)
    show ?thesis
    proof (cases "x = Inr True")
      case True
      with b have "?c + 1 \<le> li_max l" by blast
      from window_admitted [OF pre(1) W this] True pre(2) now h(1) x(2) show ?thesis
        by (intro exI [of _ "(?t, the (ends (w_redis w') k)) # hs"]) (simp add: gate_ok_def e)
    next
      case False
      with window_counted [OF pre(1) W] pre(2) now h(1) x(2) show ?thesis
        by (intro exI [of _ hs]) (simp add: gate_ok_def e)
    qed
  qed
qed

lemma gate_step:
  assumes "window_step R val dl hit l k g g'" and "gate_ok l k g hs" and W: "0 < li_windowMs l"
  shows "\<exists>hs'. gate_ok l k g' hs'"
  using assms(1)
proof (cases rule: window_step.cases)
  case (asked rq r w')
  with gate_asked [OF assms(2) W asked(2,3)] show ?thesis by simp
next
  case (others w')
  then have "hits (w_redis w') k = hits (w_redis (ga_world g)) k" "ends (w_redis w') k = ends (w_redis (ga_world g)) k"
    "rd_now R (w_redis w') = rd_now R (w_redis (ga_world g))"
    using own_key [of "w_redis w'" k "w_redis (ga_world g)"] by (simp_all add: unchanged_def)
  with assms(2) others(1) show ?thesis
    by (intro exI [of _ hs]) (simp add: gate_ok_def)
next
  case (passes d w')
  let ?st = "w_redis (ga_world g)"
  have inv: "window_inv (li_windowMs l) (li_max l) (if expired_at (ends ?st k) (rd_now R ?st + d) then 0 else hits ?st k)
      (ends ?st k) (rd_now R ?st + d) hs"
    using window_later [OF _ passes(2)] assms(2) by (simp add: gate_ok_def)
  have "window_inv (li_windowMs l) (li_max l) (hits (rd_pass R ?st d) k) (ends (rd_pass R ?st d) k) (rd_now R ?st + d) hs"
    using later [OF passes(2), of ?st k] inv by (cases "hits (rd_pass R ?st d) k = 0") (simp_all add: window_inv_def)
  with assms(2) passes show ?thesis
    by (intro exI [of _ hs]) (simp add: gate_ok_def now_pass)
qed

lemma gate_reach:
  assumes "window_reach R val dl hit l k w0 g" and "0 < li_windowMs l" and "0 \<le> li_max l" and "hits (w_redis w0) k = 0"
  shows "\<exists>hs. gate_ok l k g hs"
  using assms(1)
proof (induction rule: window_reach.induct)
  case opened
  show ?case
    by (rule exI [of _ "[]"]) (simp add: gate_ok_def window_inv_def windows_ok_def assms(3,4))
next
  case (moved g g')
  then show ?case using gate_step [OF _ _ assms(2)] by blast
qed

lemma gate_bound:
  assumes "window_reach R val dl hit l k w0 g" and "0 < li_windowMs l" and "0 \<le> li_max l" and "hits (w_redis w0) k = 0"
  shows "int (length (filter (\<lambda>t. a \<le> t \<and> t < a + int n * li_windowMs l) (ga_times g))) \<le> (int n + 1) * li_max l"
proof -
  from gate_reach [OF assms] obtain hs where "gate_ok l k g hs" by blast
  then have "ga_times g = map fst hs" "windows_ok (li_windowMs l) (li_max l) hs"
    by (simp_all add: gate_ok_def window_inv_def)
  with windows_bound [OF this(2) assms(2)] show ?thesis by simp
qed

text \<open>The calls of the other components are steps of the machine that leave the limiters' keys alone.\<close>

lemma other_components:
  assumes "unchanged (rd_now R) val dl K (w_redis w) (w_redis w')" and "\<not> K k"
  shows "window_step R val dl hit l k \<lparr>ga_world = w, ga_times = ts\<rparr> \<lparr>ga_world = w', ga_times = ts\<rparr>"
proof -
  have "unchanged (rd_now R) val dl (\<lambda>j. j \<noteq> k) (w_redis w) (w_redis w')"
    using assms by (simp add: unchanged_def)
  from window_step.others [of R val dl k "\<lparr>ga_world = w, ga_times = ts\<rparr>" w' hit l] this show ?thesis by simp
qed

end

lemma own_rate_keys:
  "session_key k \<Longrightarrow> \<not> rate_key k" "throttle_key k \<Longrightarrow> \<not> rate_key k" "profile_key k \<Longrightarrow> \<not> rate_key k"
  by (auto simp: session_key_def throttle_key_def profile_key_def rate_key_def key_defs)

text \<open>The four limiters count under different keys, all of them of the limiters' own.\<close>

lemma limiter_prefixes:
  "li_prefix (apiRateLimiter A) = ''rl:ip:api:''" "li_prefix (loginRateLimiter A) = ''rl:ip:login:''"
  "li_prefix (refreshRateLimiter A) = ''rl:refresh:''" "li_prefix (metaRateLimiter A) = ''rl:ip:meta:''"
  by (simp_all add: apiRateLimiter_def loginRateLimiter_def refreshRateLimiter_def metaRateLimiter_def
      createRedisRateLimiter_def)

lemma limiter_keys_apart:
  assumes "l \<in> {apiRateLimiter A, loginRateLimiter A, refreshRateLimiter A, metaRateLimiter A}"
    and "l' \<in> {apiRateLimiter A, loginRateLimiter A, refreshRateLimiter A, metaRateLimiter A}"
    and "li_prefix l @ a = li_prefix l' @ b"
  shows "li_prefix l = li_prefix l' \<and> a = b \<and> rate_key (li_prefix l @ a)"
  using assms by (auto simp: limiter_prefixes rate_key_def)

text \<open>The configured windows.\<close>

lemma limiter_windows:
  "li_windowMs (apiRateLimiter A) = windowMs (rc_api (ap_limits A))" "li_max (apiRateLimiter A) = maxHits (rc_api (ap_limits A))"
  "li_windowMs (loginRateLimiter A) = windowMs (rc_login (ap_limits A))" "li_max (loginRateLimiter A) = maxHits (rc_login (ap_limits A))"
  "li_windowMs (refreshRateLimiter A) = windowMs (rc_refresh (ap_limits A))" "li_max (refreshRateLimiter A) = maxHits (rc_refresh (ap_limits A))"
  "li_windowMs (metaRateLimiter A) = windowMs (rc_meta (ap_limits A))" "li_max (metaRateLimiter A) = maxHits (rc_meta (ap_limits A))"
  by (simp_all add: apiRateLimiter_def loginRateLimiter_def refreshRateLimiter_def metaRateLimiter_def
      createRedisRateLimiter_def policy_overrides_def js_default_def)

subsection \<open>A reference counter\<close>

definition ref_hits :: "ref_store \<Rightarrow> string \<Rightarrow> int" where
  "ref_hits st k = (case (ref_value st k, ref_dl st k) of
     (Some (VText (Json (JNum n))), Some d) \<Rightarrow> max 0 n | _ \<Rightarrow> 0)"

definition ref_count :: "string \<Rightarrow> int \<Rightarrow> ref_store \<Rightarrow> (string + int) \<times> ref_store" where
  "ref_count k n st = (let c = ref_hits st k + 1 in
     (Inr c, ref_put st k (Some (RText (Json (JNum c)),
        Some (if ref_hits st k = 0 then rf_now st + n else the (ref_dl st k))))))"

definition ref_hit :: "string \<Rightarrow> int \<Rightarrow> int \<Rightarrow> ((ref_store, 'p) world, exn, bool) act" where
  "ref_hit k n m = andthen (redis_call (ref_count k n)) (\<lambda>c. ret (c \<le> m))"

lemma ref_hits_running: "ref_hits st k \<noteq> 0 \<Longrightarrow> \<exists>d. ref_dl st k = Some d \<and> rf_now st < d"
  using ref_server.dl_future [of st k]
  by (auto simp: ref_hits_def split: option.splits rval.splits rtext.splits json.splits)

lemma ref_hits_nonneg: "0 \<le> ref_hits st k"
  by (simp add: ref_hits_def split: option.split rval.split rtext.split json.split)

lemma ref_count_views:
  assumes "0 < n"
  shows "fst (ref_count k n st) = Inr (ref_hits st k + 1)"
    and "ref_hits (snd (ref_count k n st)) k = ref_hits st k + 1"
    and "ref_dl (snd (ref_count k n st)) k = (if ref_hits st k = 0 then Some (rf_now st + n) else ref_dl st k)"
    and "rf_now (snd (ref_count k n st)) = rf_now st"
  using assms ref_hits_nonneg [of st k] ref_hits_running [of st k]
  by (auto simp: ref_count_def Let_def ref_hits_def [of "ref_put _ _ _"] ref_value_put ref_dl_put)

interpretation ref_window: window_counter ref_redis ref_value ref_dl ref_hit ref_hits ref_dl
proof unfold_locales
  fix s s' :: ref_store and k
  assume "ref_value s' k = ref_value s k" "ref_dl s' k = ref_dl s k"
  then show "ref_hits s' k = ref_hits s k \<and> ref_dl s' k = ref_dl s k"
    by (simp add: ref_hits_def)
next
  fix s k
  show "0 \<le> ref_hits s k \<and> (ref_hits s k \<noteq> 0 \<longrightarrow> (\<exists>d. ref_dl s k = Some d \<and> rd_now ref_redis s < d))"
    using ref_hits_nonneg ref_hits_running by simp
next
  fix d s k
  assume d: "0 \<le> (d::int)"
  note v = ref_server.val_pass [OF d, of s] ref_server.dl_pass [OF d, of s]
  show "ref_hits (rd_pass ref_redis s d) k = (if expired_at (ref_dl s k) (rd_now ref_redis s + d) then 0 else ref_hits s k) \<and>
      (ref_hits (rd_pass ref_redis s d) k \<noteq> 0 \<longrightarrow> ref_dl (rd_pass ref_redis s d) k = ref_dl s k)"
    by (auto simp: ref_hits_def v simp del: ref_redis_simps(11))
next
  fix n k m w r w'
  assume n: "0 < (n::int)" and run: "ref_hit k n m w = (r, w')"
  obtain x where call: "redis_call (ref_count k n) w = (x, w')" and r: "r = (case x of Inl e \<Rightarrow> Inl e | Inr c \<Rightarrow> Inr (c \<le> m))"
    using run by (auto simp: ref_hit_def andthen_def split: prod.splits sum.splits)
  note views = ref_count_views [OF n, of k "w_redis w"]
  from redis_call_state [OF call] views(4) show "rd_now ref_redis (w_redis w') = rd_now ref_redis (w_redis w)"
    by auto
  show "(\<exists>e. r = Inl e) \<and> ref_hits (w_redis w') k = ref_hits (w_redis w) k \<and> ref_dl (w_redis w') k = ref_dl (w_redis w) k \<or>
      ref_hits (w_redis w') k = ref_hits (w_redis w) k + 1 \<and>
      ref_dl (w_redis w') k = (if ref_hits (w_redis w) k = 0 then Some (rd_now ref_redis (w_redis w) + n) else ref_dl (w_redis w) k) \<and>
      (\<forall>b. r = Inr b \<longrightarrow> b = (ref_hits (w_redis w) k + 1 \<le> m))"
  proof (cases x)
    case (Inl e)
    with redis_call_state [OF call] views(2,3) r show ?thesis by auto
  next
    case (Inr c)
    with redis_call_InrD(1) [OF call [unfolded Inr]] views r show ?thesis by auto
  qed
qed

subsection \<open>Properties\<close>


text \<open>Two logins from one address with the default limits.\<close>

definition demo_gate :: "(ref_store, user_record list) gate" where
  "demo_gate = \<lparr>ga_world = snd (ref_hit ''rl:ip:login:a'' 900000 20 (snd (ref_hit ''rl:ip:login:a'' 900000 20 demo_world))),
     ga_times = [0, 0]\<rparr>"

lemma demo_gate_reach:
  "window_reach ref_redis ref_value ref_dl ref_hit (loginRateLimiter demo_app) ''rl:ip:login:a'' demo_world demo_gate"
proof -
  let ?l = "loginRateLimiter demo_app" and ?rq = "demo_request\<lparr>rq_ip := Some ''a''\<rparr>"
  have l: "li_prefix ?l @ li_key ?l ?rq = ''rl:ip:login:a''" "li_windowMs ?l = 900000" "li_max ?l = 20"
    by (simp_all add: limiter_windows limiter_prefixes, simp_all add: demo_app_def DEFAULT_RATE_LIMITS_def
        loginRateLimiter_def createRedisRateLimiter_def policy_overrides_def js_default_def ip_of_def)
  have hit: "rate_limited ref_hit ?l (\<lambda>_. ret through) ?rq w = (Inr through, snd (ref_hit ''rl:ip:login:a'' 900000 20 w))"
    if "fst (ref_hit ''rl:ip:login:a'' 900000 20 w) = Inr True" for w :: "(ref_store, user_record list) world"
    using that by (auto simp: rate_limited_def l andthen_def split: prod.splits)
  have one: "fst (ref_hit ''rl:ip:login:a'' 900000 20 demo_world) = Inr True"
    "fst (ref_hit ''rl:ip:login:a'' 900000 20 (snd (ref_hit ''rl:ip:login:a'' 900000 20 demo_world))) = Inr True"
    "rf_now (w_redis (snd (ref_hit ''rl:ip:login:a'' 900000 20 demo_world))) = 0"
    "rf_now (w_redis (snd (ref_hit ''rl:ip:login:a'' 900000 20 (snd (ref_hit ''rl:ip:login:a'' 900000 20 demo_world))))) = 0"
    by code_simp+
  have step: "window_step ref_redis ref_value ref_dl ref_hit ?l ''rl:ip:login:a'' \<lparr>ga_world = w, ga_times = ts\<rparr>
      \<lparr>ga_world = snd (ref_hit ''rl:ip:login:a'' 900000 20 w), ga_times = 0 # ts\<rparr>"
    if "fst (ref_hit ''rl:ip:login:a'' 900000 20 w) = Inr True"
      "rf_now (w_redis (snd (ref_hit ''rl:ip:login:a'' 900000 20 w))) = 0" for w :: "(ref_store, user_record list) world" and ts
    using asked [where R = ref_redis and val = ref_value and dl = ref_dl and r = "Inr through" and
        g = "\<lparr>ga_world = w, ga_times = ts\<rparr>" and w' = "snd (ref_hit ''rl:ip:login:a'' 900000 20 w)", OF _ l(1)]
      hit [OF that(1)] that(2) by simp
  from moved [OF moved [OF opened step [OF one(1,3)]] step [OF one(2,4)]] show ?thesis
    by (simp add: demo_gate_def)
qed


end
