(* ===== verification/Lifecycle.thy ===== *)
theory Lifecycle
  imports Server
begin

section \<open>The life of the process\<close>

text \<open>
  \<open>startServer\<close> of \<open>src/server.ts\<close> as a state machine: the listening server with its client
  connections, and one run of \<open>shutdown\<close> per signal, which may come more than once and at
  any time. The handlers are functions on the state (\<open>on_signal\<close>, \<open>on_close\<close>, \<open>on_settled\<close>,
  \<open>on_timeout\<close>); \<open>process_step\<close> says when the event loop may call which. \<open>Server.shutdown\<close> is
  one run on its own, with its times. What Node.js does is its documented behaviour: \<open>close\<close>
  stops listening at once and calls back when the last connection has ended, with an error if
  the server was not open any more; a timer fires when its time has come.
\<close>

text \<open>
  A run waits for the server to close, knowing the error \<open>close\<close> will report; then it waits
  for \<open>pool.end()\<close> and \<open>redisClient.quit()\<close> (\<open>None\<close> while pending, then whether fulfilled).
\<close>

datatype phase = Closing "string option" | Ending bool "bool option" "bool option"

record run =
  rn_started :: int
  rn_phase :: phase

record process =
  pr_listening :: bool
  pr_connections :: nat
  pr_runs :: "run list"
  pr_now :: int
  pr_exit :: "int option"
  pr_log :: "(log_level \<times> string) list"

definition start_process :: "int \<Rightarrow> process" where
  "start_process t = \<lparr>pr_listening = True, pr_connections = 0, pr_runs = [], pr_now = t, pr_exit = None, pr_log = []\<rparr>"

subsection \<open>The handlers\<close>

text \<open>The callback of \<open>listen\<close>: \<open>address\<close> is the text of a pipe or a bound port.\<close>

datatype address = PipeName string | Bound nat

definition on_listening :: "string option \<Rightarrow> address option \<Rightarrow> process \<Rightarrow> process" where
  "on_listening NODE_ENV addr p =
     (if NODE_ENV \<noteq> Some ''test'' then
        let port = (case addr of None \<Rightarrow> ''undefined'' | Some (PipeName a) \<Rightarrow> a | Some (Bound n) \<Rightarrow> js_digits n)
        in p\<lparr>pr_log := pr_log p @ [(Info, ''Server is running on PORT '' @ port)]\<rparr>
      else p)"

text \<open>The pool's listener (\<open>src/postgres.ts\<close>): the error of an idle client costs a log line, not the process.\<close>

definition on_idle_error :: "process \<Rightarrow> process" where
  "on_idle_error p = p\<lparr>pr_log := pr_log p @ [(Error, ''Unexpected error on idle PostgreSQL client'')]\<rparr>"

text \<open>\<open>shutdown(signal)\<close> up to its return: the timer is armed, the server told to close.\<close>

definition on_signal :: "string \<Rightarrow> process \<Rightarrow> process" where
  "on_signal signal p = p\<lparr>
     pr_log := pr_log p @ [(Info, signal @ '' received, shutting down gracefully'')],
     pr_runs := pr_runs p @ [\<lparr>rn_started = pr_now p,
       rn_phase = Closing (if pr_listening p then None else Some ''ERR_SERVER_NOT_RUNNING'')\<rparr>],
     pr_listening := False\<rparr>"

text \<open>The callback of \<open>close\<close>: the pool and the client are told to end.\<close>

fun closed_phase :: "phase \<Rightarrow> phase" where
  "closed_phase (Closing closeError) = Ending (closeError \<noteq> None) None None"
| "closed_phase ph = ph"

fun close_log :: "phase \<Rightarrow> (log_level \<times> string) list" where
  "close_log (Closing (Some closeError)) = [(Error, ''Error closing HTTP server'')]"
| "close_log ph = []"

definition on_close :: "process \<Rightarrow> process" where
  "on_close p = p\<lparr>
     pr_log := pr_log p @ concat (map (\<lambda>r. close_log (rn_phase r)) (pr_runs p)),
     pr_runs := map (\<lambda>r. r\<lparr>rn_phase := closed_phase (rn_phase r)\<rparr>) (pr_runs p)\<rparr>"

text \<open>One of the two promises of a run settles; after both the process exits.\<close>

datatype resource = Pool | RedisClient

fun settle :: "resource \<Rightarrow> bool \<Rightarrow> phase \<Rightarrow> phase" where
  "settle Pool ok (Ending e None q) = Ending e (Some ok) q"
| "settle RedisClient ok (Ending e p None) = Ending e p (Some ok)"
| "settle x ok ph = ph"

fun exit_code :: "phase \<Rightarrow> int option" where
  "exit_code (Ending closeError (Some p) (Some q)) =
     (let hadError = closeError \<or> \<not> p \<or> \<not> q in Some (if hadError then 1 else 0))"
| "exit_code ph = None"

fun outcome_log :: "phase \<Rightarrow> (log_level \<times> string) list" where
  "outcome_log (Ending closeError (Some p) (Some q)) =
     (if p then [] else [(Error, ''Error during shutdown'')]) @
     (if q then [] else [(Error, ''Error during shutdown'')]) @
     (if \<not> (closeError \<or> \<not> p \<or> \<not> q) then [(Info, ''Shutdown complete'')] else [])"
| "outcome_log ph = []"

definition on_settled :: "nat \<Rightarrow> resource \<Rightarrow> bool \<Rightarrow> process \<Rightarrow> process" where
  "on_settled i x ok p =
     (let ph = settle x ok (rn_phase (pr_runs p ! i)) in
      p\<lparr>pr_runs := (pr_runs p)[i := (pr_runs p ! i)\<lparr>rn_phase := ph\<rparr>], pr_exit := exit_code ph,
        pr_log := pr_log p @ outcome_log ph\<rparr>)"

text \<open>\<open>forceExit\<close>.\<close>

definition on_timeout :: "process \<Rightarrow> process" where
  "on_timeout p = p\<lparr>
     pr_log := pr_log p @ [(Error, ''Graceful shutdown did not finish within '' @
       js_digits (nat SHUTDOWN_TIMEOUT_MS) @ ''ms, forcing exit'')],
     pr_exit := Some 1\<rparr>"

subsection \<open>The event loop\<close>

inductive process_step :: "process \<Rightarrow> process \<Rightarrow> bool" where
  announced: "pr_exit p = None \<Longrightarrow> process_step p (on_listening NODE_ENV addr p)"
| idle_error: "pr_exit p = None \<Longrightarrow> process_step p (on_idle_error p)"
| connected: "pr_exit p = None \<Longrightarrow> pr_listening p \<Longrightarrow> process_step p (p\<lparr>pr_connections := Suc (pr_connections p)\<rparr>)"
| ended: "pr_exit p = None \<Longrightarrow> pr_connections p = Suc n \<Longrightarrow> process_step p (p\<lparr>pr_connections := n\<rparr>)"
| signalled: "pr_exit p = None \<Longrightarrow> signal \<in> {''SIGTERM'', ''SIGINT''} \<Longrightarrow> process_step p (on_signal signal p)"
| drained: "pr_exit p = None \<Longrightarrow> \<not> pr_listening p \<Longrightarrow> pr_connections p = 0 \<Longrightarrow> process_step p (on_close p)"
| settled: "pr_exit p = None \<Longrightarrow> i < length (pr_runs p) \<Longrightarrow> rn_phase (pr_runs p ! i) = Ending e a b \<Longrightarrow>
    (case x of Pool \<Rightarrow> a | RedisClient \<Rightarrow> b) = None \<Longrightarrow> process_step p (on_settled i x ok p)"
| forced: "pr_exit p = None \<Longrightarrow> r \<in> set (pr_runs p) \<Longrightarrow> rn_started r + SHUTDOWN_TIMEOUT_MS \<le> pr_now p \<Longrightarrow>
    process_step p (on_timeout p)"
| waiting: "pr_exit p = None \<Longrightarrow> 0 \<le> d \<Longrightarrow> \<forall>r \<in> set (pr_runs p). pr_now p + d \<le> rn_started r + SHUTDOWN_TIMEOUT_MS \<Longrightarrow>
    process_step p (p\<lparr>pr_now := pr_now p + d\<rparr>)"

inductive process_reach :: "process \<Rightarrow> process \<Rightarrow> bool" for p0 where
  booted: "process_reach p0 p0"
| went_on: "process_reach p0 p \<Longrightarrow> process_step p p' \<Longrightarrow> process_reach p0 p'"

subsection \<open>The invariant\<close>

text \<open>
  While a run ends the resources, no client is connected any more; only the first run can be
  without an error; no timer is overdue; the exit code is that of a run; and the log says that the
  shutdown is complete just when the process exits with 0.
\<close>

fun is_ending :: "phase \<Rightarrow> bool" where
  "is_ending (Ending e a b) = True"
| "is_ending ph = False"

fun clean :: "phase \<Rightarrow> bool" where
  "clean (Closing e) = (e = None)"
| "clean (Ending e a b) = (\<not> e)"

definition process_inv :: "process \<Rightarrow> bool" where
  "process_inv p \<longleftrightarrow>
     (\<forall>r \<in> set (pr_runs p). is_ending (rn_phase r) \<longrightarrow> pr_connections p = 0) \<and>
     (pr_listening p \<longleftrightarrow> pr_runs p = []) \<and>
     (\<forall>r \<in> set (pr_runs p). rn_started r \<le> pr_now p \<and> pr_now p \<le> rn_started r + SHUTDOWN_TIMEOUT_MS) \<and>
     (\<forall>i < length (pr_runs p). 0 < i \<longrightarrow> \<not> clean (rn_phase (pr_runs p ! i))) \<and>
     ((Info, ''Shutdown complete'') \<in> set (pr_log p) \<longleftrightarrow> pr_exit p = Some 0) \<and>
     (case pr_exit p of None \<Rightarrow> True | Some c \<Rightarrow> c = 1 \<or>
        c = 0 \<and> pr_runs p \<noteq> [] \<and> rn_phase (hd (pr_runs p)) = Ending False (Some True) (Some True))"

lemmas process_handlers = on_signal_def on_close_def on_settled_def on_timeout_def

lemma is_ending_settle [simp]: "is_ending (settle x ok ph) = is_ending ph"
  by (cases "(x, ok, ph)" rule: settle.cases) simp_all

lemma clean_settle [simp]: "clean (settle x ok ph) = clean ph"
  by (cases "(x, ok, ph)" rule: settle.cases) simp_all

lemma clean_closed [simp]: "clean (closed_phase ph) = clean ph"
  by (cases ph) auto

lemma exit_code_cases:
  "exit_code ph = Some c \<Longrightarrow> c = 1 \<or> c = 0 \<and> ph = Ending False (Some True) (Some True)"
  by (cases ph rule: exit_code.cases) (auto simp: Let_def split: if_splits)

lemma outcome_complete: "(Info, ''Shutdown complete'') \<in> set (outcome_log ph) \<longleftrightarrow> exit_code ph = Some 0"
  by (cases ph rule: exit_code.cases) (auto simp: Let_def)

lemma close_log_errors: "(Info, m) \<notin> set (close_log ph)"
  by (cases ph rule: close_log.cases) simp_all

lemma inv_listening: "process_inv p \<Longrightarrow> pr_exit p = None \<Longrightarrow> process_inv (on_listening NODE_ENV addr p)"
  by (simp add: process_inv_def on_listening_def Let_def)

lemma inv_idle_error: "process_inv p \<Longrightarrow> pr_exit p = None \<Longrightarrow> process_inv (on_idle_error p)"
  by (simp add: process_inv_def on_idle_error_def)

lemma inv_signal:
  "process_inv p \<Longrightarrow> pr_exit p = None \<Longrightarrow> signal \<in> {''SIGTERM'', ''SIGINT''} \<Longrightarrow> process_inv (on_signal signal p)"
  by (auto simp: process_inv_def on_signal_def nth_append SHUTDOWN_TIMEOUT_MS_def)

lemma inv_close: "process_inv p \<Longrightarrow> pr_exit p = None \<Longrightarrow> pr_connections p = 0 \<Longrightarrow> process_inv (on_close p)"
  by (auto simp: process_inv_def on_close_def close_log_errors)

lemma inv_settled:
  assumes inv: "process_inv p" and running: "pr_exit p = None" and i: "i < length (pr_runs p)" and run: "is_ending (rn_phase (pr_runs p ! i))"
  shows "process_inv (on_settled i x ok p)"
proof -
  let ?ph = "settle x ok (rn_phase (pr_runs p ! i))"
  have rs: "pr_runs (on_settled i x ok p) = (pr_runs p)[i := (pr_runs p ! i)\<lparr>rn_phase := ?ph\<rparr>]"
    "pr_exit (on_settled i x ok p) = exit_code ?ph" "pr_connections (on_settled i x ok p) = pr_connections p"
    "pr_listening (on_settled i x ok p) = pr_listening p" "pr_now (on_settled i x ok p) = pr_now p"
    "pr_log (on_settled i x ok p) = pr_log p @ outcome_log ?ph"
    by (simp_all add: on_settled_def Let_def)
  have there: "pr_runs p ! i \<in> set (pr_runs p)"
    using i by simp
  have "c = 1 \<or> c = 0 \<and> pr_runs p \<noteq> [] \<and> i = 0 \<and> ?ph = Ending False (Some True) (Some True)" if "exit_code ?ph = Some c" for c
  proof -
    have "clean (rn_phase (pr_runs p ! i))" if "?ph = Ending False (Some True) (Some True)"
      using that clean_settle [of x ok "rn_phase (pr_runs p ! i)"] by simp
    then show ?thesis
      using exit_code_cases [OF that] inv i by (auto simp: process_inv_def)
  qed
  then have "case exit_code ?ph of None \<Rightarrow> True | Some c \<Rightarrow> c = 1 \<or> c = 0 \<and>
      (pr_runs p)[i := (pr_runs p ! i)\<lparr>rn_phase := ?ph\<rparr>] \<noteq> [] \<and>
      rn_phase (hd ((pr_runs p)[i := (pr_runs p ! i)\<lparr>rn_phase := ?ph\<rparr>])) = Ending False (Some True) (Some True)"
    by (cases "pr_runs p") (auto split: option.split)
  moreover have "\<forall>r \<in> set ((pr_runs p)[i := (pr_runs p ! i)\<lparr>rn_phase := ?ph\<rparr>]).
      (is_ending (rn_phase r) \<longrightarrow> pr_connections p = 0) \<and> rn_started r \<le> pr_now p \<and>
      pr_now p \<le> rn_started r + SHUTDOWN_TIMEOUT_MS"
  proof
    fix r assume "r \<in> set ((pr_runs p)[i := (pr_runs p ! i)\<lparr>rn_phase := ?ph\<rparr>])"
    then have "r = (pr_runs p ! i)\<lparr>rn_phase := ?ph\<rparr> \<or> r \<in> set (pr_runs p)"
      using set_update_subset_insert [of "pr_runs p" i] by blast
    moreover have "(is_ending (rn_phase r) \<longrightarrow> pr_connections p = 0) \<and> rn_started r \<le> pr_now p \<and>
        pr_now p \<le> rn_started r + SHUTDOWN_TIMEOUT_MS" if "r \<in> set (pr_runs p)" for r
      using inv that unfolding process_inv_def by blast
    ultimately show "(is_ending (rn_phase r) \<longrightarrow> pr_connections p = 0) \<and> rn_started r \<le> pr_now p \<and>
        pr_now p \<le> rn_started r + SHUTDOWN_TIMEOUT_MS"
      using there run by auto
  qed
  moreover have "\<forall>j < length (pr_runs p). 0 < j \<longrightarrow>
      \<not> clean (rn_phase ((pr_runs p)[i := (pr_runs p ! i)\<lparr>rn_phase := ?ph\<rparr>] ! j))"
    using inv i by (simp add: process_inv_def nth_list_update)
  moreover have "pr_listening p \<longleftrightarrow> (pr_runs p)[i := (pr_runs p ! i)\<lparr>rn_phase := ?ph\<rparr>] = []"
    using inv by (simp add: process_inv_def)
  moreover have "(Info, ''Shutdown complete'') \<in> set (pr_log p @ outcome_log ?ph) \<longleftrightarrow> exit_code ?ph = Some 0"
    using inv running by (simp add: process_inv_def outcome_complete)
  ultimately show ?thesis
    unfolding process_inv_def rs by simp
qed

lemma inv_timeout: "process_inv p \<Longrightarrow> pr_exit p = None \<Longrightarrow> process_inv (on_timeout p)"
  by (simp add: process_inv_def on_timeout_def)

lemma inv_step:
  assumes "process_step p p'" and inv: "process_inv p"
  shows "process_inv p'"
  using assms(1)
proof (cases rule: process_step.cases)
  case connected
  then show ?thesis using inv by (auto simp: process_inv_def)
next
  case (ended n)
  then show ?thesis using inv by (auto simp: process_inv_def)
next
  case (settled i e a b x ok)
  then show ?thesis using inv_settled [OF inv settled(2), of i x ok] by simp
next
  case (waiting d)
  then show ?thesis using inv by (auto simp: process_inv_def)
qed (use inv in \<open>auto intro: inv_listening inv_idle_error inv_signal inv_close inv_timeout\<close>)

lemma inv_reach: "process_reach (start_process t) p \<Longrightarrow> process_inv p"
proof (induction rule: process_reach.induct)
  case booted
  show ?case by (simp add: process_inv_def start_process_def)
qed (rule inv_step)

text \<open>Once a signal has come, nothing can keep the process from the exit its timer forces.\<close>

lemma exit_possible:
  assumes inv: "process_inv p" and "pr_exit p = None" and "pr_runs p \<noteq> []"
  shows "\<exists>p1 p2. process_step p p1 \<and> process_step p1 p2 \<and> pr_exit p2 = Some 1"
proof -
  let ?m = "Min (rn_started ` set (pr_runs p))"
  have "?m \<in> rn_started ` set (pr_runs p)"
    using assms(3) by (intro Min_in) auto
  then obtain r where r: "r \<in> set (pr_runs p)" "rn_started r = ?m"
    by force
  have least: "rn_started r \<le> rn_started r'" if "r' \<in> set (pr_runs p)" for r'
    using that r(2) by simp
  define d where "d = rn_started r + SHUTDOWN_TIMEOUT_MS - pr_now p"
  have "0 \<le> d" "\<forall>r' \<in> set (pr_runs p). pr_now p + d \<le> rn_started r' + SHUTDOWN_TIMEOUT_MS"
    using inv r(1) least by (auto simp: process_inv_def d_def)
  note wait = waiting [OF assms(2) this]
  have "process_step (p\<lparr>pr_now := pr_now p + d\<rparr>) (on_timeout (p\<lparr>pr_now := pr_now p + d\<rparr>))"
    using r(1) assms(2) by (intro forced [of _ r]) (simp_all add: d_def)
  with wait show ?thesis
    by (intro exI [of _ "p\<lparr>pr_now := pr_now p + d\<rparr>"] exI [of _ "on_timeout (p\<lparr>pr_now := pr_now p + d\<rparr>)"])
      (simp add: on_timeout_def)
qed

subsection \<open>Properties\<close>



end
