(* ===== verification/ProfileSystem.thy ===== *)
theory ProfileSystem
  imports Examples
begin

section \<open>How old a profile can be\<close>

text \<open>
  The read-through cache of \<open>UserService\<close> under any interleaving: requests read a row, and
  write its public profile to the cache later, while others do the same, log in, or edit the
  table. Nothing invalidates a cached profile; what bounds its age is the expiry of the key.
  \<open>fresh_step\<close> has one rule per call of the program that touches the cache or reads a row for
  it. \<open>fr_pending\<close> are the rows requests have read, with the time (of the Redis server) of the
  reading; \<open>fr_tables\<close> are all tables there have been, with their times. \<open>D\<close> bounds the time a
  request takes from the reading to the writing.
\<close>

record ('r, 'p) fresh =
  fr_world :: "('r, 'p) world"
  fr_pending :: "(int \<times> user_record) set"
  fr_tables :: "(int \<times> user_record list) set"

definition fresh_next ::
  "'r redis \<Rightarrow> ('p \<Rightarrow> user_record list) \<Rightarrow> ('r, 'p) fresh \<Rightarrow> ('r, 'p) world \<Rightarrow> (int \<times> user_record) set \<Rightarrow> ('r, 'p) fresh" where
  "fresh_next R rows s w' new =
     \<lparr>fr_world = w', fr_pending = new \<union> fr_pending s,
      fr_tables = insert (rd_now R (w_redis w'), rows (w_pg w')) (fr_tables s)\<rparr>"

inductive fresh_step ::
  "'r redis \<Rightarrow> 'p postgres \<Rightarrow> ('r \<Rightarrow> string \<Rightarrow> rval option) \<Rightarrow> ('r \<Rightarrow> string \<Rightarrow> int option) \<Rightarrow> ('p \<Rightarrow> user_record list) \<Rightarrow>
   (string \<Rightarrow> bool) \<Rightarrow> int \<Rightarrow> ('r, 'p) fresh \<Rightarrow> ('r, 'p) fresh \<Rightarrow> bool"
  for R and P and val and dl and rows and uuid and D where
  by_id: "uuid i \<Longrightarrow> user_findById P i (fr_world s) = (Inr (Some u), w') \<Longrightarrow>
    fresh_step R P val dl rows uuid D s (fresh_next R rows s w' {(rd_now R (w_redis w'), u)})"
| by_name: "user_findByUsername P n (fr_world s) = (Inr (Some u), w') \<Longrightarrow>
    fresh_step R P val dl rows uuid D s (fresh_next R rows s w' {(rd_now R (w_redis w'), u)})"
| stored: "(t, u) \<in> fr_pending s \<Longrightarrow> rd_now R (w_redis (fr_world s)) \<le> t + D \<Longrightarrow>
    cache_setUserProfile R (ur_id u) (toPublicUser u) DEFAULT_TTL_SECONDS (fr_world s) = (r, w') \<Longrightarrow>
    fresh_step R P val dl rows uuid D s (fresh_next R rows s w' {})"
| answered: "cache_getUserProfile R i (fr_world s) = (r', w') \<Longrightarrow>
    fresh_step R P val dl rows uuid D s (fresh_next R rows s w' {})"
| elsewhere: "unchanged (rd_now R) val dl (\<lambda>k. \<not> profile_key k) (w_redis (fr_world s)) (w_redis w') \<Longrightarrow>
    fresh_step R P val dl rows uuid D s (fresh_next R rows s w' {})"
| later: "0 \<le> d \<Longrightarrow> w_redis w' = rd_pass R (w_redis (fr_world s)) d \<Longrightarrow>
    fresh_step R P val dl rows uuid D s (fresh_next R rows s w' {})"

inductive fresh_reach ::
  "'r redis \<Rightarrow> 'p postgres \<Rightarrow> ('r \<Rightarrow> string \<Rightarrow> rval option) \<Rightarrow> ('r \<Rightarrow> string \<Rightarrow> int option) \<Rightarrow> ('p \<Rightarrow> user_record list) \<Rightarrow>
   (string \<Rightarrow> bool) \<Rightarrow> int \<Rightarrow> ('r, 'p) world \<Rightarrow> ('r, 'p) fresh \<Rightarrow> bool"
  for R and P and val and dl and rows and uuid and D and w0 where
  fresh_start: "fresh_reach R P val dl rows uuid D w0
    \<lparr>fr_world = w0, fr_pending = {}, fr_tables = {(rd_now R (w_redis w0), rows (w_pg w0))}\<rparr>"
| fresh_more: "fresh_reach R P val dl rows uuid D w0 s \<Longrightarrow> fresh_step R P val dl rows uuid D s s' \<Longrightarrow>
    fresh_reach R P val dl rows uuid D w0 s'"

subsection \<open>The invariant\<close>

text \<open>\<open>was_row T t u\<close>: at the time \<open>t\<close> the row \<open>u\<close> was in the table.\<close>

definition was_row :: "(int \<times> user_record list) set \<Rightarrow> int \<Rightarrow> user_record \<Rightarrow> bool" where
  "was_row T t u \<longleftrightarrow> (\<exists>us. (t, us) \<in> T \<and> u \<in> set us)"

lemma was_row_insert [simp]: "was_row T t u \<Longrightarrow> was_row (insert x T) t u"
  by (auto simp: was_row_def)

text \<open>\<open>backed T D now i p d\<close>: the profile \<open>p\<close> of \<open>i\<close> is that of a row read so lately that it may stay until \<open>d\<close>.\<close>

definition backed ::
  "(int \<times> user_record list) set \<Rightarrow> int \<Rightarrow> int \<Rightarrow> string \<Rightarrow> user_public \<Rightarrow> int option \<Rightarrow> bool" where
  "backed T D now i p d \<longleftrightarrow> (\<exists>t u x. was_row T t u \<and> ur_id u = i \<and> p = toPublicUser u \<and> t \<le> now \<and>
     d = Some x \<and> x \<le> t + D + DEFAULT_TTL_SECONDS * 1000)"

lemma backed_later: "backed T D now i p d \<Longrightarrow> now \<le> now' \<Longrightarrow> backed T D now' i p d"
  unfolding backed_def by (blast intro: order_trans [of _ now])

lemma backed_insert: "backed T D now i p d \<Longrightarrow> backed (insert x T) D now i p d"
  unfolding backed_def using was_row_insert by blast

definition fresh_ok ::
  "('r \<Rightarrow> string \<Rightarrow> rval option) \<Rightarrow> ('r \<Rightarrow> string \<Rightarrow> int option) \<Rightarrow> int \<Rightarrow> int \<Rightarrow> 'r \<Rightarrow>
   (int \<times> user_record) set \<Rightarrow> (int \<times> user_record list) set \<Rightarrow> bool" where
  "fresh_ok val dl D now st pending T \<longleftrightarrow> cache_ok val st \<and>
     (\<forall>(t, u) \<in> pending. was_row T t u \<and> t \<le> now) \<and>
     (\<forall>i p. profile_at val st i = Some p \<longrightarrow> backed T D now i p (dl st (profileKey i)))"

lemma fresh_okI:
  assumes "cache_ok val st" and "\<And>t u. (t, u) \<in> pending \<Longrightarrow> was_row T t u \<and> t \<le> now"
    and "\<And>i p. profile_at val st i = Some p \<Longrightarrow> backed T D now i p (dl st (profileKey i))"
  shows "fresh_ok val dl D now st pending T"
  using assms by (auto simp: fresh_ok_def)

lemma fresh_okD:
  assumes "fresh_ok val dl D now st pending T"
  shows "cache_ok val st" and "(t, u) \<in> pending \<Longrightarrow> was_row T t u \<and> t \<le> now"
    and "profile_at val st i = Some p \<Longrightarrow> backed T D now i p (dl st (profileKey i))"
  using assms by (auto simp: fresh_ok_def)

lemma fresh_ok_tables:
  "fresh_ok val dl D now st pending T \<Longrightarrow> fresh_ok val dl D now st pending (insert x T)"
  by (intro fresh_okI) (auto dest: fresh_okD backed_insert)

lemma fresh_ok_pending:
  assumes "fresh_ok val dl D now st pending T" and "was_row T now u"
  shows "fresh_ok val dl D now st ({(now, u)} \<union> pending) T"
  using assms by (intro fresh_okI) (auto dest: fresh_okD)

lemma fresh_ok_same:
  assumes "fresh_ok val dl D now st pending T" and "cache_ok val st'"
    and "\<And>i p. profile_at val st' i = Some p \<Longrightarrow>
      profile_at val st i = Some p \<and> dl st' (profileKey i) = dl st (profileKey i)" and "now \<le> now'"
  shows "fresh_ok val dl D now' st' pending T"
proof (rule fresh_okI)
  show "cache_ok val st'" by (rule assms(2))
  show "was_row T t u \<and> t \<le> now'" if "(t, u) \<in> pending" for t u
    using fresh_okD(2) [OF assms(1) that] assms(4) by simp
  show "backed T D now' i p (dl st' (profileKey i))" if "profile_at val st' i = Some p" for i p
    using fresh_okD(3) [OF assms(1)] assms(3) [OF that] backed_later [OF _ assms(4)] by simp
qed

abbreviation fresh_state_ok where
  "fresh_state_ok R val dl D s \<equiv>
     fresh_ok val dl D (rd_now R (w_redis (fr_world s))) (w_redis (fr_world s)) (fr_pending s) (fr_tables s)"

text \<open>Only the profile keys and the server's time matter.\<close>

lemma fresh_ok_frame:
  assumes "fresh_ok val dl D (now st) st pending T" and "unchanged now val dl (\<lambda>k. \<not> profile_key k) st st'"
  shows "fresh_ok val dl D (now st') st' pending T"
proof (rule fresh_ok_same [OF assms(1)])
  have same: "val st' (profileKey i) = val st (profileKey i)" "dl st' (profileKey i) = dl st (profileKey i)" for i
    using assms(2) by (simp_all add: unchanged_def)
  then show "cache_ok val st'"
    using assms(1) by (simp add: fresh_ok_def cache_ok_def)
  show "profile_at val st i = Some p \<and> dl st' (profileKey i) = dl st (profileKey i)" if "profile_at val st' i = Some p" for i p
    using that same by (simp add: profile_at_def)
  show "now st \<le> now st'"
    using assms(2) by (simp add: unchanged_def)
qed

context redis_server
begin

lemma fresh_pass:
  assumes "fresh_ok val dl D (rd_now R st) st pending T" and "0 \<le> d"
  shows "fresh_ok val dl D (rd_now R (rd_pass R st d)) (rd_pass R st d) pending T"
  by (rule fresh_ok_same [OF assms(1)])
    (use assms in \<open>auto simp: fresh_ok_def cache_ok_def profile_at_def val_pass dl_pass now_pass split: if_splits\<close>)

lemma fresh_set:
  assumes ok: "fresh_ok val dl D (rd_now R st) st pending T" and u: "(t, u) \<in> pending" and "rd_now R st \<le> t + D"
  shows "fresh_ok val dl D (rd_now R st)
    (rd_set R st (profileKey (ur_id u)) (Json (public_json (toPublicUser u))) DEFAULT_TTL_SECONDS) pending T"
proof -
  let ?st = "rd_set R st (profileKey (ur_id u)) (Json (public_json (toPublicUser u))) DEFAULT_TTL_SECONDS"
  have cok: "cache_ok val st"
    using ok by (simp add: fresh_ok_def)
  have pos: "0 < DEFAULT_TTL_SECONDS"
    by (simp add: DEFAULT_TTL_SECONDS_def)
  note v = cache_set_views [OF cok, of "ur_id u" "toPublicUser u"] dl_set [OF pos, of st "profileKey (ur_id u)"]
  have row: "was_row T t u" "t \<le> rd_now R st"
    using ok u by (auto simp: fresh_ok_def)
  show ?thesis
  proof (rule fresh_okI)
    show "cache_ok val ?st" by (rule v(1))
    show "was_row T t u \<and> t \<le> rd_now R st" if "(t, u) \<in> pending" for t u
      by (rule fresh_okD(2) [OF ok that])
    fix i p
    assume p: "profile_at val ?st i = Some p"
    show "backed T D (rd_now R st) i p (dl ?st (profileKey i))"
    proof (cases "i = ur_id u")
      case True
      with p v(2) have "p = toPublicUser u" by simp
      with True row v(3) assms(3) have "was_row T t u \<and> ur_id u = i \<and> p = toPublicUser u \<and> t \<le> rd_now R st \<and>
          dl ?st (profileKey i) = Some (rd_now R st + DEFAULT_TTL_SECONDS * 1000) \<and>
          rd_now R st + DEFAULT_TTL_SECONDS * 1000 \<le> t + D + DEFAULT_TTL_SECONDS * 1000"
        by simp
      then show ?thesis
        unfolding backed_def by blast
    next
      case False
      with p v(2,3) fresh_okD(3) [OF ok] show ?thesis by simp
    qed
  qed
qed

lemma fresh_pass_at:
  assumes "fresh_ok val dl D (rd_now R st) st pending T" and "0 \<le> d" and "st' = rd_pass R st d"
  shows "fresh_ok val dl D (rd_now R st') st' pending T"
  using fresh_pass [OF assms(1,2)] assms(3) by simp

lemma fresh_stored:
  assumes "fresh_ok val dl D (rd_now R (w_redis w)) (w_redis w) pending T" and "(t, u) \<in> pending"
    and "rd_now R (w_redis w) \<le> t + D"
    and "cache_setUserProfile R (ur_id u) (toPublicUser u) DEFAULT_TTL_SECONDS w = (r, w')"
  shows "fresh_ok val dl D (rd_now R (w_redis w')) (w_redis w') pending T"
proof -
  let ?st = "rd_set R (w_redis w) (profileKey (ur_id u)) (Json (public_json (toPublicUser u))) DEFAULT_TTL_SECONDS"
  have "w_redis w' = w_redis w \<or> w_redis w' = ?st"
    using redis_call_state [OF assms(4) [unfolded cache_setUserProfile_def]]
    by (simp add: cmd_set_def JSON_stringify_def DEFAULT_TTL_SECONDS_def)
  moreover have "rd_now R ?st = rd_now R (w_redis w)"
    by (rule now_set) (simp add: DEFAULT_TTL_SECONDS_def)
  ultimately show ?thesis
    using assms(1) fresh_set [OF assms(1-3)] by auto
qed

end

text \<open>A row that a query returns is in the table.\<close>

context postgres
begin

lemma found_row:
  fixes w :: "('r, 'p) world"
  shows "uuid i \<Longrightarrow> user_findById P i w = (Inr (Some u), w') \<Longrightarrow>
      w_redis w' = w_redis w \<and> u \<in> set (rows (w_pg w'))"
    and "user_findByUsername P n w = (Inr (Some u), w') \<Longrightarrow>
      w_redis w' = w_redis w \<and> u \<in> set (rows (w_pg w'))"
proof -
  have find: "find Q us = Some u \<Longrightarrow> u \<in> set us" for Q us
    by (auto simp: find_Some_iff)
  show "w_redis w' = w_redis w \<and> u \<in> set (rows (w_pg w'))"
    if "uuid i" and call: "user_findById P i w = (Inr (Some u), w')"
    using lookup_laws(1,2,4) [OF call [unfolded user_findById_def]] that(1) find
    by (auto simp: by_id first_row_take simp del: One_nat_def)
  show "w_redis w' = w_redis w \<and> u \<in> set (rows (w_pg w'))"
    if call: "user_findByUsername P n w = (Inr (Some u), w')"
  proof (cases "pg_text n")
    case True
    then show ?thesis
      using lookup_laws(1,2,4) [OF call [unfolded user_findByUsername_def]] find
      by (auto simp: by_username first_row_take simp del: One_nat_def)
  next
    case False
    then show ?thesis
      using lookup_laws(4) [OF call [unfolded user_findByUsername_def] refl] by_username_refused [OF False, of "w_pg w"] by auto
  qed
qed

end

text \<open>Every step keeps the invariant.\<close>

lemma fresh_next_ok:
  assumes "fresh_ok val dl D (rd_now R (w_redis w')) (w_redis w') (fr_pending s) (fr_tables s)"
    and "new = {} \<or> (\<exists>u \<in> set (rows (w_pg w')). new = {(rd_now R (w_redis w'), u)})"
  shows "fresh_state_ok R val dl D (fresh_next R rows s w' new)"
proof -
  let ?T = "insert (rd_now R (w_redis w'), rows (w_pg w')) (fr_tables s)"
  note ok = fresh_ok_tables [OF assms(1)]
  have "u \<in> set (rows (w_pg w')) \<Longrightarrow> was_row ?T (rd_now R (w_redis w')) u" for u
    by (auto simp: was_row_def)
  with ok assms(2) show ?thesis
    using fresh_ok_pending [OF ok] by (auto simp: fresh_next_def)
qed

lemma fresh_step_ok:
  assumes "redis_server R val dl" and "postgres P rows lower pg_text uuid"
    and "fresh_step R P val dl rows uuid D s s'" and ok: "fresh_state_ok R val dl D s"
  shows "fresh_state_ok R val dl D s'"
  using assms(3)
proof cases
  case (by_id i u w')
  with postgres.found_row(1) [OF assms(2) by_id(2,3)] ok show ?thesis
    by (auto intro: fresh_next_ok)
next
  case (by_name n u w')
  with postgres.found_row(2) [OF assms(2) by_name(2)] ok show ?thesis
    by (auto intro: fresh_next_ok)
next
  case (stored t u r w')
  show ?thesis
    unfolding stored(1) by (rule fresh_next_ok [OF redis_server.fresh_stored [OF assms(1) ok stored(2-4)]]) simp
next
  case (answered i r' w')
  have "w_redis w' = w_redis (fr_world s)"
    using redis_server.cache_get_laws(1) [OF assms(1) fresh_okD(1) [OF ok] answered(2)] .
  with ok show ?thesis
    unfolding answered(1) by (intro fresh_next_ok) simp_all
next
  case (elsewhere w')
  show ?thesis
    unfolding elsewhere(1) by (rule fresh_next_ok [OF fresh_ok_frame [OF ok elsewhere(2)]]) simp
next
  case (later d w')
  show ?thesis
    unfolding later(1) by (rule fresh_next_ok [OF redis_server.fresh_pass_at [OF assms(1) ok later(2,3)]]) simp
qed

lemma fresh_reach_ok:
  assumes "redis_server R val dl" and "postgres P rows lower pg_text uuid"
    and "cache_ok val (w_redis w0)" and "profile_at val (w_redis w0) = (\<lambda>_. None)"
    and "fresh_reach R P val dl rows uuid D w0 s"
  shows "fresh_state_ok R val dl D s"
  using assms(5)
proof induction
  case fresh_start
  show ?case
    using assms(3,4) by (simp add: fresh_ok_def)
next
  case (fresh_more s s')
  show ?case
    by (rule fresh_step_ok [OF assms(1,2) fresh_more(2,3)])
qed

text \<open>
  C31. No profile is served that is older than the cache's expiry allows. Start with no profile
  cached and let any number of requests read rows by identifier or by username, store what they
  read (each at most \<open>D\<close> milliseconds after its query), read the cache, use the other keys of
  the store or change the table, while time passes, in any order. Whatever the cached read of
  \<open>getUserProfile\<close> then answers, if not a miss, is the public profile of that user as a row of
  the table had it at a time less than an hour (and \<open>D\<close>) ago.
\<close>

theorem profile_staleness_bounded:
  assumes "redis_server R val dl" and "postgres P rows lower pg_text uuid"
    and "cache_ok val (w_redis w0)" and "profile_at val (w_redis w0) = (\<lambda>_. None)"
    and "fresh_reach R P val dl rows uuid D w0 s"
    and "readCachedProfile (user_service R P bcrypt Z) i (fr_world s) = (Inr j, w')" and "j \<noteq> JNull"
  shows "\<exists>t us u. (t, us) \<in> fr_tables s \<and> u \<in> set us \<and> ur_id u = i \<and> j = public_json (toPublicUser u) \<and>
    rd_now R (w_redis (fr_world s)) - 3600000 - D < t \<and> t \<le> rd_now R (w_redis (fr_world s))"
proof -
  note ok = fresh_reach_ok [OF assms(1-5)]
  obtain w1 where get: "cache_getUserProfile R i (fr_world s) = (Inr j, w1)"
    using assms(6,7) by (auto simp: readCachedProfile_def attempt_def ret_def split: prod.splits sum.splits)
  from redis_server.cache_get_laws(2) [OF assms(1) fresh_okD(1) [OF ok] get refl] assms(7)
  obtain p where p: "profile_at val (w_redis (fr_world s)) i = Some p" and j: "j = public_json p"
    by (auto split: option.splits)
  from fresh_okD(3) [OF ok p] obtain t u x where row: "was_row (fr_tables s) t u" "ur_id u = i" "p = toPublicUser u"
    "t \<le> rd_now R (w_redis (fr_world s))" and x: "dl (w_redis (fr_world s)) (profileKey i) = Some x"
    "x \<le> t + D + DEFAULT_TTL_SECONDS * 1000"
    unfolding backed_def by blast
  from redis_server.dl_future [OF assms(1) x(1)] x(2)
  have "rd_now R (w_redis (fr_world s)) - 3600000 - D < t"
    by (simp add: DEFAULT_TTL_SECONDS_def)
  with row j show ?thesis
    unfolding was_row_def by blast
qed

text \<open>An instance: the profile of the example's account, read, cached and served 1000 seconds later.\<close>

definition demo_found :: "(ref_store, user_record list) world" where
  "demo_found = snd (user_findById ref_pg ''u1'' demo_world)"

definition demo_stored :: "(ref_store, user_record list) world" where
  "demo_stored = snd (cache_setUserProfile ref_redis ''u1'' (toPublicUser demo_user) DEFAULT_TTL_SECONDS demo_found)"

definition demo_aged :: "(ref_store, user_record list) world" where
  "demo_aged = demo_stored\<lparr>w_redis := rd_pass ref_redis (w_redis demo_stored) 1000000\<rparr>"

definition demo_fresh :: "(ref_store, user_record list) fresh" where
  "demo_fresh = \<lparr>fr_world = demo_aged, fr_pending = {(0, demo_user)}, fr_tables = {(1000000, [demo_user]), (0, [demo_user])}\<rparr>"

lemma demo_aged_simps:
  "rf_now (w_redis demo_found) = 0" "w_pg demo_found = [demo_user]"
  "rf_now (w_redis demo_stored) = 0" "w_pg demo_stored = [demo_user]"
  "rf_now (w_redis demo_aged) = 1000000" "w_pg demo_aged = [demo_user]"
  by code_simp+

lemma demo_found_row: "fst (user_findById ref_pg ''u1'' demo_world) = Inr (Some demo_user)"
  by code_simp

lemma demo_cached_read:
  "fst (readCachedProfile demo_users ''u1'' demo_aged) = Inr (public_json (toPublicUser demo_user))"
  by code_simp

lemma demo_fresh_reach:
  "fresh_reach ref_redis ref_pg ref_value ref_dl ref_rows ref_uuid 0 demo_world demo_fresh"
proof -
  have found: "user_findById ref_pg ''u1'' demo_world = (Inr (Some demo_user), demo_found)"
    using demo_found_row by (simp add: demo_found_def prod_eq_iff)
  obtain r where stored: "cache_setUserProfile ref_redis ''u1'' (toPublicUser demo_user) DEFAULT_TTL_SECONDS demo_found =
      (r, demo_stored)"
    unfolding demo_stored_def by (metis surjective_pairing)
  let ?s0 = "\<lparr>fr_world = demo_world, fr_pending = {}, fr_tables = {(0, [demo_user])}\<rparr>"
  let ?s1 = "fresh_next ref_redis ref_rows ?s0 demo_found {(0, demo_user)}"
  let ?s2 = "fresh_next ref_redis ref_rows ?s1 demo_stored {}"
  have step1: "fresh_step ref_redis ref_pg ref_value ref_dl ref_rows ref_uuid 0 ?s0 ?s1"
    using fresh_step.by_id [where s = ?s0 and R = ref_redis and rows = ref_rows and uuid = ref_uuid and i = "''u1''" and P = ref_pg and
        u = demo_user and w' = demo_found] found demo_aged_simps(1)
    by simp
  have step2: "fresh_step ref_redis ref_pg ref_value ref_dl ref_rows ref_uuid 0 ?s1 ?s2"
    by (rule fresh_step.stored [where t = 0 and u = demo_user and r = r])
      (simp_all add: fresh_next_def demo_aged_simps stored)
  have step3: "fresh_step ref_redis ref_pg ref_value ref_dl ref_rows ref_uuid 0 ?s2
      (fresh_next ref_redis ref_rows ?s2 demo_aged {})"
    by (rule fresh_step.later [where d = 1000000]) (simp_all add: fresh_next_def demo_aged_def)
  have same: "fresh_next ref_redis ref_rows ?s2 demo_aged {} = demo_fresh"
    by (simp add: fresh_next_def demo_fresh_def demo_aged_simps insert_commute)
  have start: "fresh_reach ref_redis ref_pg ref_value ref_dl ref_rows ref_uuid 0 demo_world ?s0"
    using fresh_start [of ref_redis ref_pg ref_value ref_dl ref_rows ref_uuid 0 demo_world] by simp
  from fresh_more [OF fresh_more [OF fresh_more [OF start step1] step2] step3] same show ?thesis
    by (simp only:)
qed

lemma profile_staleness_bounded_witness:
  "\<exists>t us u. (t, us) \<in> fr_tables demo_fresh \<and> u \<in> set us \<and> ur_id u = ''u1'' \<and>
    public_json (toPublicUser demo_user) = public_json (toPublicUser u) \<and>
    rf_now (w_redis demo_aged) - 3600000 - 0 < t \<and> t \<le> rf_now (w_redis demo_aged)"
proof -
  have empty: "cache_ok ref_value (w_redis demo_world)" "profile_at ref_value (w_redis demo_world) = (\<lambda>_. None)"
    using demo_world_ok by (simp_all add: stores_ok_def demo_empty)
  have read: "readCachedProfile (user_service ref_redis ref_pg demo_bcrypt demo_zod) ''u1'' (fr_world demo_fresh) =
      (Inr (public_json (toPublicUser demo_user)), snd (readCachedProfile demo_users ''u1'' demo_aged))"
    using demo_cached_read by (simp add: demo_fresh_def demo_users_def prod_eq_iff)
  have "public_json (toPublicUser demo_user) \<noteq> JNull"
    by (simp add: public_json_def)
  from profile_staleness_bounded [OF ref_server.redis_server_axioms ref_postgres.postgres_axioms empty demo_fresh_reach read this]
  show ?thesis
    by (simp add: demo_fresh_def)
qed

end
