(* ===== verification/Spec2Isabelle.thy ===== *)
theory Spec2Isabelle
  imports AccountProperties DocumentProperties JourneyProperties Reachable ThrottleCrowd Operations RateWindows
    Lifecycle ProfileSystem
begin

section \<open>A verified model of the session API\<close>

text \<open>
  \<^bold>\<open>The program.\<close> A TypeScript service of HTTP endpoints for registration, login, token refresh, logout,
  own profile and an admin listing. Every process is stateless: sessions, login throttle, profile
  cache and rate limits live in one Redis server, accounts in one PostgreSQL server. An access
  token is a JWT of 15 minutes that names a session; every authenticated request looks the
  session up in Redis, so a logout takes effect at once. A refresh token is an id, a dot and a
  random validator; it is rotated by a compare-and-swap script and the presentation of an old
  one is treated as theft (or, for 30 seconds, as a concurrent request).

  \<^bold>\<open>Shape of the model.\<close> An \<open>async\<close> method is an action (\<open>Prelude\<close>): a function of the world that gives
  a thrown error (\<open>Inl\<close>) or a result (\<open>Inr\<close>) with the world afterwards. The world
  (\<open>World\<close>) is the state of the two servers, the clock, the random values to come and the failures
  the next calls to a server meet: none, refused before it arrived, done but its answer lost, or,
  for a transaction, single queued commands failing. So each theorem about a method covers every
  course of network failures. Within one method the theorems follow one request; the
  interleaving of many requests is \<open>SessionSystem\<close> (its atoms are single calls to Redis),
  for password guessing \<open>ThrottleSystem\<close> and \<open>ThrottleCrowd\<close>, for the rate limits
  \<open>RateWindows\<close>, for cached profiles \<open>ProfileSystem\<close>; the life of one process is \<open>Lifecycle\<close>.

  \<^bold>\<open>Code outside the repository\<close> is a parameter of the definitions, with the documented behaviour the
  program relies on as a locale: the Redis server (\<open>redis_server\<close> in \<open>Redis\<close>: each command's effect on
  live keys and expiry times; a script runs atomically), the PostgreSQL server with the schema of
  \<open>migrations/\<close> (\<open>postgres\<close> in \<open>Postgres\<close>), \<open>jsonwebtoken\<close> (\<open>jwt_library\<close>), zod (\<open>zod_library\<close>), bcrypt
  (\<open>bcrypt_library\<close> in \<open>Backend\<close>: a fresh hash verifies), the fixed windows of \<open>express-rate-limit\<close>
  with its Redis store (\<open>hit\<close>; \<open>window_counter\<close> in \<open>RateWindows\<close>). SHA-256 (\<open>sha\<close>),
  \<open>bcrypt.compare\<close> (\<open>compare\<close>), the limiter's key of an address (\<open>ipKey\<close>) and swagger-ui (\<open>sv_docs\<close>) are bare arguments. Each locale is interpreted on an
  executable reference (\<open>Redis_Reference\<close>, \<open>Token_Reference\<close>, the ends of \<open>Postgres\<close>,
  \<open>Validation\<close> and \<open>RateWindows\<close>); \<open>Examples\<close> puts them together to one installation, on which the witnesses run the
  program's definitions.

  \<^bold>\<open>Theories and code\<close> (paths under \<open>src/src/\<close>):
  \<^item> \<open>Json\<close>, \<open>Errors\<close>, \<open>Users\<close>, \<open>Validation\<close>: values and texts, \<open>errors/AppError.ts\<close> with
    \<open>middleware/errorHandler.ts\<close> and \<open>middleware/asyncHandler.ts\<close>, \<open>types/user.ts\<close>,
    \<open>validation/parse.ts\<close> (schemas are data: the chain of checks of each field).
  \<^item> \<open>SessionRepository\<close>: \<open>repositories/SessionRepository.ts\<close>. \<open>rotate_script\<close> and
    \<open>delete_all_script\<close> are the two Lua scripts, \<open>session_create\<close>, \<open>session_get\<close>, \<open>session_rotate\<close>,
    \<open>session_delete\<close>, \<open>session_deleteAllForUser\<close> the methods with their transactions.
    \<open>SessionContract\<close> states what they promise (\<open>rotate_spec\<close>, locale \<open>session_store\<close>) and
    proves that the code over any Redis server keeps it.
  \<^item> \<open>LoginThrottle\<close>: \<open>services/LoginThrottle.ts\<close> and its contract \<open>login_throttle\<close>;
    \<open>ThrottleSystem\<close>: sequential guessing with the default options, \<open>ThrottleCrowd\<close>: guessing by
    any number of clients at once.
  \<^item> \<open>TokenService\<close>: \<open>services/TokenService.ts\<close>.
  \<^item> \<open>CacheRepository\<close>, \<open>UserRepository\<close>: \<open>repositories/CacheRepository.ts\<close> and
    \<open>repositories/UserRepository.ts\<close> with their contracts \<open>profile_cache\<close> and \<open>user_store\<close>.
  \<^item> \<open>AuthService\<close>, \<open>UserService\<close>: \<open>services/AuthService.ts\<close>, \<open>services/UserService.ts\<close>. The
    constructor's collaborators are a record of operations; the lemmas are proved in locales
    (\<open>auth_backend\<close>, \<open>user_backend\<close>) that assume only their contracts.
  \<^item> \<open>KeySpaces\<close>, \<open>Backend\<close>: the key prefixes keep the components apart in one Redis server; with
    that, the wired services (\<open>auth_service\<close>, \<open>user_service\<close>) satisfy those locales for every
    pair of servers (\<open>backend\<close>, \<open>account_backend\<close>).
  \<^item> \<open>Middleware\<close>: \<open>middleware/auth.ts\<close>, \<open>rbac.ts\<close>, \<open>metricsGuard.ts\<close>, \<open>rateLimiter.ts\<close>.
    \<open>Controllers\<close>: \<open>controllers/\<close> and \<open>routes.ts\<close> (\<open>v1_chain\<close> is the chain of each route).
    \<open>Server\<close>: \<open>server.ts\<close>, \<open>trustProxy.ts\<close> and the decisions of \<open>logger.ts\<close>.
    \<open>Lifecycle\<close>: \<open>startServer\<close> with its signals, connections and runs of \<open>shutdown\<close>.
  \<^item> \<open>RateWindows\<close>: what the limiters bound, for one key and any number of processes.
  \<^item> \<open>ProfileSystem\<close>: how old a profile can be that the read-through cache serves.
  \<^item> \<open>Operations\<close>: what the process reads from its environment (\<open>redisConfig.ts\<close>, \<open>postgres.ts\<close>,
    \<open>scripts/migrate.js\<close>, the defaults of \<open>createApp\<close>) with JavaScript's \<open>Number\<close>, and what it reports
    of a request (\<open>metrics.ts\<close>, and \<open>createHttpLogger\<close> of \<open>logger.ts\<close>).
  \<^item> \<open>ApiDocument\<close>: \<open>docs/openapi.ts\<close>, the whole document as a JSON value.
  \<^item> \<open>Responses\<close>, \<open>DocumentProperties\<close>: which errors each operation can throw, and from that the
    agreement of routes, statuses and bodies with the document.
  \<^item> \<open>SessionFaults\<close>, \<open>SessionRefinement\<close>, \<open>HttpSessions\<close>: the locale \<open>resilient_store\<close> (what a call
    that fails may have done), the abstract session machine \<open>session_step\<close>, and the refinement:
    one call of the service, and one HTTP request, is one step of the machine or none.
  \<^item> \<open>Reachable\<close>: the worlds that requests, failures, time and edits of the table can lead to
    (\<open>served\<close>), and their invariant; it discharges what the other properties assume of the stores.
  \<^item> \<open>SessionSystem\<close>, \<open>AuthProperties\<close>, \<open>JourneyProperties\<close>, \<open>AccountProperties\<close>, \<open>HttpProperties\<close>:
    properties that span components.

  \<^bold>\<open>What the lemmas show.\<close> Refinement: the rotation script is the pure compare-and-swap
  \<open>rotate_spec\<close>, each repository implements its contract, and every request is a step of the
  session machine. Invariants of all reachable
  states: a session never outlives 30 days or 7 idle days, each refresh token is rotated at most once,
  a logout everywhere misses no acknowledged session, at most 15 failures count in one window,
  a limiter lets through at most \<open>n + 1\<close> times its maximum in \<open>n\<close> windows' time, and a profile that is
  served was in the table less than an hour ago.
  Safety: tokens are given only for right credentials or the current refresh token, protected
  routes need a live session, the admin listing an admin token. Functional and error behaviour
  of every branch of the services, under failures too. Progress: a login gives tokens that work.
  Agreement of the program with its API document. Round trips of tokens and stored
  sessions, bounds of inputs, termination of readiness probe and shutdown.

  \<^bold>\<open>Bounds.\<close> A process reads its clock at most \<open>L\<close> milliseconds away from the Redis server's time when
  its call arrives (\<open>L\<close> is a variable of the theorems); the expiry times of sessions are
  whole seconds, hence the second of slack in the lifetime. With the default options of the
  throttle (5 free attempts, base 1 s, window 15 min) a lock is at most 512 s; the bound of 15 is
  reached. The grace of a rotation includes its 30th second. No loop needs fuel.

  \<^bold>\<open>Limits of the model.\<close> JavaScript strings are lists of code units up to 255, so texts outside Latin-1
  are not covered; the em dash and the ellipsis of the program's own texts are their UTF-8 bytes (\<open>Json\<close>). A stored
  JSON text is represented by its value, numbers are integers. \<open>session_of_text\<close> answers an
  error on a JSON text that is no session, where the code would use it unchecked; under the
  invariant \<open>sessions_ok\<close> no such text is stored. A hop count beyond 2 to the 53 would be rounded
  by \<open>Number\<close>. A promise that settles together with its timer counts as settled.
  A shutdown whose server or connections never close keeps the process alive until the forced exit.

  \<^bold>\<open>Not modelled.\<close> Helmet, pino and swagger-ui do their work outside the repository; of the first two the
  model has the options at most. The error that Node.js raises when the port cannot be bound has no
  handler in the code. The \<open>catch\<close> blocks of the services and the error handler log before they answer;
  of these lines only the answer is modelled. What remains of the sources are imports, comments, type annotations, the wiring of the
  modules' exports, the configuration of the linter and of the test runner, tests, load tests
  and infrastructure.
\<close>

end
